(* ===== verification/CS_Prelude.thy ===== *)
theory CS_Prelude
  imports Main "HOL-Library.Word"
begin

text \<open>
  What every theory of the development shares: the faults a C++ operation can end in, sequencing
  of fallible operations, null-terminated strings, decimal output of an unsigned integer, and the
  three standard-library list idioms of the code (\<open>std::find_if\<close>, \<open>list::erase\<close> of one
  element, update of the object a shared pointer refers to), each with the lemmas its clients
  use.  The collection \<open>cs_frame\<close> gathers the equations that say which fields of the service
  state an operation leaves alone.
\<close>

named_theorems cs_frame \<open>fields an operation leaves unchanged\<close>

section \<open>Faults and sequencing\<close>

text \<open>
  The ways a call can fail to return normally.  They are values, so that every one of them is a
  branch of the model: a null pointer is dereferenced, a \<open>std::string\<close> is constructed from a
  null pointer (libstdc++ throws \<open>std::logic_error\<close>), \<open>sprintf\<close> writes past its buffer (the
  number of bytes it needed is recorded), memory outside a buffer is read (at the recorded offset), a library
  assertion fails, a signed integer overflows,
  an exception of the named kind leaves the function.
\<close>

datatype fault =
    NullDereference string
  | NullString string
  | BufferOverflow nat
  | AssertionFailure string
  | OutOfBounds nat
  | SignedOverflow
  | Exception string

fun and_then :: "'e + 'a \<Rightarrow> ('a \<Rightarrow> 'e + 'b) \<Rightarrow> 'e + 'b" where
  "and_then (Inl e) k = Inl e"
| "and_then (Inr x) k = k x"

lemma and_then_Inr: "and_then m k = Inr y \<longleftrightarrow> (\<exists>x. m = Inr x \<and> k x = Inr y)"
  by (cases m) auto

lemma and_then_Inl: "and_then m k = Inl e \<longleftrightarrow> m = Inl e \<or> (\<exists>x. m = Inr x \<and> k x = Inl e)"
  by (cases m) auto

lemma and_then_assoc: "and_then (and_then m f) g = and_then m (\<lambda>x. and_then (f x) g)"
  by (cases m) auto

section \<open>Characters and strings\<close>

text \<open>
  A \<open>std::string\<close> is a list of bytes and may hold NUL bytes; \<open>c_str\<close> is what a function that
  takes a null-terminated string sees of it.  A \<open>const char*\<close> is \<open>string option\<close>, with \<open>None\<close>
  for the null pointer.
\<close>

type_synonym c_string = "string option"

definition c_str :: "string \<Rightarrow> string" where
  "c_str s = takeWhile (\<lambda>c. c \<noteq> CHR 0x00) s"

lemma c_str_id: "CHR 0x00 \<notin> set s \<Longrightarrow> c_str s = s"
  by (auto simp: c_str_def takeWhile_eq_all_conv)

lemma c_str_idem [simp]: "c_str (c_str s) = c_str s"
  by (simp add: c_str_def)

lemma length_c_str: "length (c_str s) \<le> length s"
  by (simp add: c_str_def length_takeWhile_le)

text \<open>\<open>std::string(p)\<close> for a \<open>const char* p\<close>.\<close>

definition std_string :: "c_string \<Rightarrow> fault + string" where
  "std_string p = (case p of None \<Rightarrow> Inl (NullString ''basic_string: construction from null'') | Some s \<Rightarrow> Inr s)"

lemma std_string_simps [simp]:
  "std_string (Some s) = Inr s"
  "std_string None = Inl (NullString ''basic_string: construction from null'')"
  by (simp_all add: std_string_def)

text \<open>\<open>strcmp(a, b)\<close> and \<open>strcasecmp(a, b)\<close> as the tests "returns zero".\<close>

definition to_lower :: "char \<Rightarrow> char" where
  "to_lower c = (let n = (of_char c :: nat) in if 65 \<le> n \<and> n \<le> 90 then char_of (n + 32) else c)"

definition strcasecmp0 :: "string \<Rightarrow> string \<Rightarrow> bool" where
  "strcasecmp0 a b \<longleftrightarrow> map to_lower a = map to_lower b"

definition newline :: char where
  "newline = CHR 0x0A"

text \<open>Output of an unsigned integer in base ten.\<close>

fun dec :: "nat \<Rightarrow> string" where
  "dec n = (if n < 10 then [char_of (48 + n)] else dec (n div 10) @ [char_of (48 + n mod 10)])"

declare dec.simps [simp del]

lemma dec_digit: "n < 10 \<Longrightarrow> dec n = [char_of (48 + n)]"
  by (subst dec.simps) simp

section \<open>List idioms\<close>

text \<open>\<open>std::find_if\<close>: the position of the first match, \<open>None\<close> for the end iterator.\<close>

fun find_if :: "('a \<Rightarrow> bool) \<Rightarrow> 'a list \<Rightarrow> nat option" where
  "find_if P [] = None"
| "find_if P (x # xs) = (if P x then Some 0 else map_option Suc (find_if P xs))"

lemma find_if_None: "find_if P xs = None \<longleftrightarrow> (\<forall>x \<in> set xs. \<not> P x)"
  by (induction xs) auto

lemma find_if_SomeD:
  "find_if P xs = Some i \<Longrightarrow> i < length xs \<and> P (xs ! i) \<and> (\<forall>j < i. \<not> P (xs ! j))"
proof (induction xs arbitrary: i)
  case Nil
  then show ?case by simp
next
  case (Cons x xs)
  show ?case
  proof (cases "P x")
    case True
    with Cons.prems show ?thesis by auto
  next
    case False
    with Cons.prems obtain k where k: "find_if P xs = Some k" and i: "i = Suc k" by auto
    from Cons.IH [OF k] False i show ?thesis
      by (auto simp: nth_Cons split: nat.splits)
  qed
qed

lemma find_if_Some_in: "find_if P xs = Some i \<Longrightarrow> xs ! i \<in> set xs \<and> P (xs ! i)"
  by (auto dest: find_if_SomeD)

lemma find_if_cong: "(\<And>x. x \<in> set xs \<Longrightarrow> P x = Q x) \<Longrightarrow> find_if P xs = find_if Q xs"
  by (induction xs) auto

lemma find_if_append:
  "find_if P (xs @ ys) =
     (case find_if P xs of Some i \<Rightarrow> Some i | None \<Rightarrow> map_option (\<lambda>i. i + length xs) (find_if P ys))"
  by (induction xs) (auto simp: option.map_comp comp_def option.map_ident split: option.splits)

text \<open>\<open>list::erase\<close> of the element at a position, and the list without it.\<close>

definition erase :: "nat \<Rightarrow> 'a list \<Rightarrow> 'a list" where
  "erase i xs = take i xs @ drop (Suc i) xs"

lemma map_erase: "map f (erase i xs) = erase i (map f xs)"
  by (simp add: erase_def take_map drop_map)

lemma erase_split:
  assumes "i < length xs"
  obtains ys zs where "xs = ys @ xs ! i # zs" "erase i xs = ys @ zs" "length ys = i"
  using assms by (metis id_take_nth_drop erase_def length_take min.absorb4)

lemma set_erase_subset: "set (erase i xs) \<subseteq> set xs"
  by (auto simp: erase_def dest: in_set_takeD in_set_dropD)

lemma set_erase_distinct: "distinct xs \<Longrightarrow> i < length xs \<Longrightarrow> set (erase i xs) = set xs - {xs ! i}"
  by (erule erase_split) (metis (no_types, lifting) Diff_insert_absorb Un_insert_right
      distinct.simps(2) distinct_append list.simps(15) set_append not_distinct_conv_prefix Un_iff)

lemma distinct_erase: "distinct xs \<Longrightarrow> distinct (erase i xs)"
  by (auto simp: erase_def set_take_disj_set_drop_if_distinct)

lemma length_erase: "i < length xs \<Longrightarrow> length (erase i xs) = length xs - 1"
  by (simp add: erase_def)

section \<open>Lists searched by a key\<close>

text \<open>
  The first element with a given key.  When the keys of a list are distinct the list is a finite
  map, and appending, updating in place and erasing act on it pointwise.
\<close>

definition lookup_by :: "('a \<Rightarrow> 'k) \<Rightarrow> 'a list \<Rightarrow> 'k \<Rightarrow> 'a option" where
  "lookup_by key xs k = map_option (nth xs) (find_if (\<lambda>x. key x = k) xs)"

lemma lookup_by_Nil [simp]: "lookup_by key [] k = None"
  by (simp add: lookup_by_def)

lemma lookup_by_Cons [simp]:
  "lookup_by key (x # xs) k = (if key x = k then Some x else lookup_by key xs k)"
  by (simp add: lookup_by_def option.map_comp comp_def)

lemma lookup_by_None: "lookup_by key xs k = None \<longleftrightarrow> k \<notin> key ` set xs"
  by (induction xs) auto

lemma lookup_by_SomeD: "lookup_by key xs k = Some x \<Longrightarrow> x \<in> set xs \<and> key x = k"
  by (induction xs) (auto split: if_splits)

lemma lookup_by_in: "distinct (map key xs) \<Longrightarrow> x \<in> set xs \<Longrightarrow> lookup_by key xs (key x) = Some x"
  by (induction xs) (auto simp: image_iff)

lemma lookup_by_snoc:
  "lookup_by key (xs @ [y]) k =
     (case lookup_by key xs k of Some z \<Rightarrow> Some z | None \<Rightarrow> if key y = k then Some y else None)"
  by (induction xs) auto

lemma lookup_by_append:
  "lookup_by key (xs @ ys) k = (case lookup_by key xs k of Some z \<Rightarrow> Some z | None \<Rightarrow> lookup_by key ys k)"
  by (induction xs) auto

lemma lookup_by_update:
  assumes "distinct (map key xs)" and "i < length xs" and "key y = key (xs ! i)"
  shows "lookup_by key (xs[i := y]) k = (if k = key y then Some y else lookup_by key xs k)"
  using assms
proof (induction xs arbitrary: i)
  case Nil
  then show ?case by simp
next
  case (Cons x xs)
  then show ?case
    by (cases i) (force simp: nth_mem)+
qed

lemma lookup_by_erase:
  assumes "distinct (map key xs)" and "i < length xs"
  shows "lookup_by key (erase i xs) k = (if k = key (xs ! i) then None else lookup_by key xs k)"
  using assms(2)
proof (rule erase_split)
  fix ys zs
  assume xs: "xs = ys @ xs ! i # zs" and er: "erase i xs = ys @ zs"
  from assms(1) xs have "distinct (map key (ys @ xs ! i # zs))" by metis
  then have "key (xs ! i) \<notin> key ` set ys" "key (xs ! i) \<notin> key ` set zs" by auto
  then have "lookup_by key ys (key (xs ! i)) = None" "lookup_by key zs (key (xs ! i)) = None"
    by (simp_all add: lookup_by_None)
  moreover have "lookup_by key xs k = lookup_by key (ys @ xs ! i # zs) k" using xs by metis
  ultimately show ?thesis
    by (auto simp: er lookup_by_append split: option.splits)
qed

lemma find_if_lookup: "find_if (\<lambda>x. key x = k) xs = Some i \<Longrightarrow> lookup_by key xs k = Some (xs ! i)"
  by (simp add: lookup_by_def)

lemma find_if_lookup_None: "find_if (\<lambda>x. key x = k) xs = None \<longleftrightarrow> lookup_by key xs k = None"
  by (simp add: lookup_by_def)

lemma find_if_map: "find_if P (map f xs) = find_if (\<lambda>x. P (f x)) xs"
  by (induction xs) auto

section \<open>Event-driven machines\<close>

text \<open>
  A component driven by events is a step function that returns the next state and what the step
  made observable.  \<open>run_events\<close> runs it over a list of events, \<open>admissible\<close> says that each
  event was possible when it happened, \<open>outputs\<close> collects what the run made observable.
\<close>

fun run_events :: "('e \<Rightarrow> 's \<Rightarrow> 's \<times> 'o list) \<Rightarrow> 'e list \<Rightarrow> 's \<Rightarrow> 's" where
  "run_events f [] s = s"
| "run_events f (e # es) s = run_events f es (fst (f e s))"

fun admissible :: "('e \<Rightarrow> 's \<Rightarrow> bool) \<Rightarrow> ('e \<Rightarrow> 's \<Rightarrow> 's \<times> 'o list) \<Rightarrow> 'e list \<Rightarrow> 's \<Rightarrow> bool" where
  "admissible g f [] s = True"
| "admissible g f (e # es) s = (g e s \<and> admissible g f es (fst (f e s)))"

fun outputs :: "('e \<Rightarrow> 's \<Rightarrow> 's \<times> 'o list) \<Rightarrow> 'e list \<Rightarrow> 's \<Rightarrow> 'o list" where
  "outputs f [] s = []"
| "outputs f (e # es) s = snd (f e s) @ outputs f es (fst (f e s))"

lemma run_events_append: "run_events f (es @ es') s = run_events f es' (run_events f es s)"
  by (induction es arbitrary: s) auto

lemma outputs_append: "outputs f (es @ es') s = outputs f es s @ outputs f es' (run_events f es s)"
  by (induction es arbitrary: s) auto

lemma admissible_append:
  "admissible g f (es @ es') s \<longleftrightarrow> admissible g f es s \<and> admissible g f es' (run_events f es s)"
  by (induction es arbitrary: s) auto

text \<open>
  The contract "every possible step keeps the invariant", and what it gives: the invariant after
  every run and at every point of it.
\<close>

locale guarded_machine =
  fixes step :: "'e \<Rightarrow> 's \<Rightarrow> 's \<times> 'o list"
    and guard :: "'e \<Rightarrow> 's \<Rightarrow> bool"
    and inv :: "'s \<Rightarrow> bool"
  assumes step_inv: "inv s \<Longrightarrow> guard e s \<Longrightarrow> inv (fst (step e s))"
begin

lemma run_inv: "inv s \<Longrightarrow> admissible guard step es s \<Longrightarrow> inv (run_events step es s)"
  by (induction es arbitrary: s) (auto intro: step_inv)

lemma run_inv_prefix:
  "inv s \<Longrightarrow> admissible guard step (es @ es') s \<Longrightarrow> inv (run_events step es s)"
  by (simp add: admissible_append run_inv)

lemma outputs_collect:
  assumes emits: "\<And>e s. inv s \<Longrightarrow> guard e s \<Longrightarrow> filter P (snd (step e s)) = h e"
  shows "inv s \<Longrightarrow> admissible guard step es s \<Longrightarrow> filter P (outputs step es s) = concat (map h es)"
  by (induction es arbitrary: s) (auto simp: emits step_inv)

end

end
