(* ===== verification/Agent_Model.thy ===== *)
theory Agent_Model
  imports CS_Prelude
begin

text \<open>
  The agent object (\<open>src/Agent.h\<close>), its status enumeration (\<open>src/AgentStatus.h\<close>) and the call
  event with its enumerations (\<open>src/CallEvent.h\<close>, \<open>CallDir.h\<close>, \<open>CallEventType.h\<close>,
  \<open>CallCause.h\<close>): the constructors, setters and getters of the two classes, and the underlying
  unsigned values of the status, which \<open>printAgent\<close> prints.
\<close>

section \<open>Agent status\<close>

datatype AgentStatus_t = unknown | login | logout | notReady | Ready | busy | idle | leave

text \<open>The underlying value: \<open>unknown = 0\<close> and each next enumerator one more.\<close>

fun status_value :: "AgentStatus_t \<Rightarrow> nat" where
  "status_value unknown = 0"
| "status_value login = 1"
| "status_value logout = 2"
| "status_value notReady = 3"
| "status_value Ready = 4"
| "status_value busy = 5"
| "status_value idle = 6"
| "status_value leave = 7"

lemma status_value_inject [simp]: "status_value a = status_value b \<longleftrightarrow> a = b"
  by (cases a; cases b) simp_all

lemma status_value_less: "status_value a < 8"
  by (cases a) simp_all

text \<open>Scoped enumerations compare by their underlying values.\<close>

instantiation AgentStatus_t :: linorder
begin

definition less_eq_AgentStatus_t :: "AgentStatus_t \<Rightarrow> AgentStatus_t \<Rightarrow> bool" where
  "less_eq_AgentStatus_t a b \<longleftrightarrow> status_value a \<le> status_value b"

definition less_AgentStatus_t :: "AgentStatus_t \<Rightarrow> AgentStatus_t \<Rightarrow> bool" where
  "less_AgentStatus_t a b \<longleftrightarrow> status_value a < status_value b"

instance
  by standard (auto simp: less_eq_AgentStatus_t_def less_AgentStatus_t_def)

end

section \<open>The agent object\<close>

record Agent =
  m_strDN :: string
  m_strAgent :: string
  m_strUUID :: string
  m_bPolling :: bool
  m_eStatus :: AgentStatus_t

definition new_Agent :: Agent where
  "new_Agent = \<lparr>m_strDN = [], m_strAgent = [], m_strUUID = [], m_bPolling = False, m_eStatus = unknown\<rparr>"

definition setDn :: "string \<Rightarrow> Agent \<Rightarrow> Agent" where
  "setDn dn a = a\<lparr>m_strDN := dn\<rparr>"

definition setAgent :: "string \<Rightarrow> Agent \<Rightarrow> Agent" where
  "setAgent agent a = a\<lparr>m_strAgent := agent\<rparr>"

definition setPolling :: "bool \<Rightarrow> Agent \<Rightarrow> Agent" where
  "setPolling b a = a\<lparr>m_bPolling := b\<rparr>"

definition setAgentStatus :: "AgentStatus_t \<Rightarrow> Agent \<Rightarrow> Agent" where
  "setAgentStatus st a = a\<lparr>m_eStatus := st\<rparr>"

definition setUUID :: "string \<Rightarrow> Agent \<Rightarrow> Agent" where
  "setUUID u a = a\<lparr>m_strUUID := u\<rparr>"

definition getDn :: "Agent \<Rightarrow> string" where "getDn a = m_strDN a"

definition getAgent :: "Agent \<Rightarrow> string" where "getAgent a = m_strAgent a"

definition getPolling :: "Agent \<Rightarrow> bool" where "getPolling a = m_bPolling a"

definition getAgentStatus :: "Agent \<Rightarrow> AgentStatus_t" where "getAgentStatus a = m_eStatus a"

definition getUUID :: "Agent \<Rightarrow> string" where "getUUID a = m_strUUID a"

lemmas agent_defs = setDn_def setAgent_def setPolling_def setAgentStatus_def setUUID_def
  getDn_def getAgent_def getPolling_def getAgentStatus_def getUUID_def

text \<open>Each getter returns what its setter stored, and no other setter changes it.\<close>

lemma agent_get_set [simp]:
  "getDn (setDn dn a) = dn" "getDn (setAgent x a) = getDn a" "getDn (setPolling b a) = getDn a"
  "getDn (setAgentStatus st a) = getDn a" "getDn (setUUID u a) = getDn a"
  "getAgent (setAgent x a) = x" "getAgent (setDn dn a) = getAgent a"
  "getAgent (setPolling b a) = getAgent a" "getAgent (setAgentStatus st a) = getAgent a"
  "getAgent (setUUID u a) = getAgent a"
  "getPolling (setPolling b a) = b" "getPolling (setDn dn a) = getPolling a"
  "getPolling (setAgent x a) = getPolling a" "getPolling (setAgentStatus st a) = getPolling a"
  "getPolling (setUUID u a) = getPolling a"
  "getAgentStatus (setAgentStatus st a) = st" "getAgentStatus (setDn dn a) = getAgentStatus a"
  "getAgentStatus (setAgent x a) = getAgentStatus a"
  "getAgentStatus (setPolling b a) = getAgentStatus a"
  "getAgentStatus (setUUID u a) = getAgentStatus a"
  "getUUID (setUUID u a) = u" "getUUID (setDn dn a) = getUUID a" "getUUID (setAgent x a) = getUUID a"
  "getUUID (setPolling b a) = getUUID a" "getUUID (setAgentStatus st a) = getUUID a"
  by (simp_all add: agent_defs)

lemma getDn_comp [simp]:
  "getDn \<circ> setAgent x = getDn" "getDn \<circ> setPolling b = getDn" "getDn \<circ> setAgentStatus st = getDn"
  "getDn \<circ> setUUID u = getDn"
  by (simp_all add: fun_eq_iff)

lemma agent_eqI:
  "getDn a = getDn b \<Longrightarrow> getAgent a = getAgent b \<Longrightarrow> getUUID a = getUUID b \<Longrightarrow>
   getPolling a = getPolling b \<Longrightarrow> getAgentStatus a = getAgentStatus b \<Longrightarrow> a = (b :: Agent)"
  by (simp add: agent_defs)

section \<open>Call events\<close>

datatype CallDir_t = dir_unknown | callin | callout

datatype CallEventType_t =
    Service_Initiated | Originated | Delivered | Established | Connection_Cleared | Failed | Held
  | Retrieved | Queued | Diverted | Transfferred | Conferenced | Agent_Ready | Agent_NotReady

datatype CallCause_t = Active | Passive

record CallEvent =
  m_eDir :: CallDir_t
  m_eEvent :: CallEventType_t
  m_strDn :: string
  m_strData :: string
  m_strOtherParty :: string
  m_eCallCause :: CallCause_t

definition setDir :: "CallDir_t \<Rightarrow> CallEvent \<Rightarrow> CallEvent" where
  "setDir d e = e\<lparr>m_eDir := d\<rparr>"

definition setData :: "string \<Rightarrow> CallEvent \<Rightarrow> CallEvent" where
  "setData s e = e\<lparr>m_strData := s\<rparr>"

definition setOtherParty :: "string \<Rightarrow> CallEvent \<Rightarrow> CallEvent" where
  "setOtherParty s e = e\<lparr>m_strOtherParty := s\<rparr>"

definition setEventType :: "CallEventType_t \<Rightarrow> CallEvent \<Rightarrow> CallEvent" where
  "setEventType t e = e\<lparr>m_eEvent := t\<rparr>"

definition setCallCause :: "CallCause_t \<Rightarrow> CallEvent \<Rightarrow> CallEvent" where
  "setCallCause c e = e\<lparr>m_eCallCause := c\<rparr>"

definition getDir :: "CallEvent \<Rightarrow> CallDir_t" where "getDir e = m_eDir e"

definition getData :: "CallEvent \<Rightarrow> string" where "getData e = m_strData e"

definition getOtherParty :: "CallEvent \<Rightarrow> string" where "getOtherParty e = m_strOtherParty e"

definition getEventType :: "CallEvent \<Rightarrow> CallEventType_t" where "getEventType e = m_eEvent e"

definition getCallCause :: "CallEvent \<Rightarrow> CallCause_t" where "getCallCause e = m_eCallCause e"

lemmas call_event_defs = setDir_def setData_def setOtherParty_def setEventType_def
  setCallCause_def getDir_def getData_def getOtherParty_def getEventType_def getCallCause_def

end
