(* ===== verification/Esl_Model.thy ===== *)
theory Esl_Model
  imports CS_Prelude
begin

text \<open>
  The data of the FreeSWITCH event-socket interface the service uses (\<open>inc/esl.h\<close>,
  \<open>inc/esl_event.h\<close>): the status codes, the event identifiers, an event as its identifier, its
  headers and its body, and the fields of \<open>esl_handle_t\<close> the service reads.  The library itself
  is a binary and not modelled: what its calls return is an input of the operations, and the calls
  the service makes are recorded, in order and with their arguments, as \<open>effect\<close>s, together with
  the text it prints.
\<close>

datatype esl_status_t = ESL_SUCCESS | ESL_FAIL | ESL_BREAK | ESL_DISCONNECTED | ESL_GENERR

text \<open>
  The event identifiers.  A C enumerator is an integer: the enumeration is the list of its names
  in the header's order, and an identifier is a position in it.  The identifiers the service
  switches on are named; \<open>esl_event_ids_named\<close> ties each to its place in the enumeration.
\<close>

type_synonym esl_event_types_t = nat

definition esl_event_enum :: "string list" where
  "esl_event_enum =
    [''ESL_EVENT_CUSTOM'',
     ''ESL_EVENT_CLONE'',
     ''ESL_EVENT_CHANNEL_CREATE'',
     ''ESL_EVENT_CHANNEL_DESTROY'',
     ''ESL_EVENT_CHANNEL_STATE'',
     ''ESL_EVENT_CHANNEL_CALLSTATE'',
     ''ESL_EVENT_CHANNEL_ANSWER'',
     ''ESL_EVENT_CHANNEL_HANGUP'',
     ''ESL_EVENT_CHANNEL_HANGUP_COMPLETE'',
     ''ESL_EVENT_CHANNEL_EXECUTE'',
     ''ESL_EVENT_CHANNEL_EXECUTE_COMPLETE'',
     ''ESL_EVENT_CHANNEL_HOLD'',
     ''ESL_EVENT_CHANNEL_UNHOLD'',
     ''ESL_EVENT_CHANNEL_BRIDGE'',
     ''ESL_EVENT_CHANNEL_UNBRIDGE'',
     ''ESL_EVENT_CHANNEL_PROGRESS'',
     ''ESL_EVENT_CHANNEL_PROGRESS_MEDIA'',
     ''ESL_EVENT_CHANNEL_OUTGOING'',
     ''ESL_EVENT_CHANNEL_PARK'',
     ''ESL_EVENT_CHANNEL_UNPARK'',
     ''ESL_EVENT_CHANNEL_APPLICATION'',
     ''ESL_EVENT_CHANNEL_ORIGINATE'',
     ''ESL_EVENT_CHANNEL_UUID'',
     ''ESL_EVENT_API'',
     ''ESL_EVENT_LOG'',
     ''ESL_EVENT_INBOUND_CHAN'',
     ''ESL_EVENT_OUTBOUND_CHAN'',
     ''ESL_EVENT_STARTUP'',
     ''ESL_EVENT_SHUTDOWN'',
     ''ESL_EVENT_PUBLISH'',
     ''ESL_EVENT_UNPUBLISH'',
     ''ESL_EVENT_TALK'',
     ''ESL_EVENT_NOTALK'',
     ''ESL_EVENT_SESSION_CRASH'',
     ''ESL_EVENT_MODULE_LOAD'',
     ''ESL_EVENT_MODULE_UNLOAD'',
     ''ESL_EVENT_DTMF'',
     ''ESL_EVENT_MESSAGE'',
     ''ESL_EVENT_PRESENCE_IN'',
     ''ESL_EVENT_NOTIFY_IN'',
     ''ESL_EVENT_PRESENCE_OUT'',
     ''ESL_EVENT_PRESENCE_PROBE'',
     ''ESL_EVENT_MESSAGE_WAITING'',
     ''ESL_EVENT_MESSAGE_QUERY'',
     ''ESL_EVENT_ROSTER'',
     ''ESL_EVENT_CODEC'',
     ''ESL_EVENT_BACKGROUND_JOB'',
     ''ESL_EVENT_DETECTED_SPEECH'',
     ''ESL_EVENT_DETECTED_TONE'',
     ''ESL_EVENT_PRIVATE_COMMAND'',
     ''ESL_EVENT_HEARTBEAT'',
     ''ESL_EVENT_TRAP'',
     ''ESL_EVENT_ADD_SCHEDULE'',
     ''ESL_EVENT_DEL_SCHEDULE'',
     ''ESL_EVENT_EXE_SCHEDULE'',
     ''ESL_EVENT_RE_SCHEDULE'',
     ''ESL_EVENT_RELOADXML'',
     ''ESL_EVENT_NOTIFY'',
     ''ESL_EVENT_PHONE_FEATURE'',
     ''ESL_EVENT_PHONE_FEATURE_SUBSCRIBE'',
     ''ESL_EVENT_SEND_MESSAGE'',
     ''ESL_EVENT_RECV_MESSAGE'',
     ''ESL_EVENT_REQUEST_PARAMS'',
     ''ESL_EVENT_CHANNEL_DATA'',
     ''ESL_EVENT_GENERAL'',
     ''ESL_EVENT_COMMAND'',
     ''ESL_EVENT_SESSION_HEARTBEAT'',
     ''ESL_EVENT_CLIENT_DISCONNECTED'',
     ''ESL_EVENT_SERVER_DISCONNECTED'',
     ''ESL_EVENT_SEND_INFO'',
     ''ESL_EVENT_RECV_INFO'',
     ''ESL_EVENT_RECV_RTCP_MESSAGE'',
     ''ESL_EVENT_SEND_RTCP_MESSAGE'',
     ''ESL_EVENT_CALL_SECURE'',
     ''ESL_EVENT_NAT'',
     ''ESL_EVENT_RECORD_START'',
     ''ESL_EVENT_RECORD_STOP'',
     ''ESL_EVENT_PLAYBACK_START'',
     ''ESL_EVENT_PLAYBACK_STOP'',
     ''ESL_EVENT_CALL_UPDATE'',
     ''ESL_EVENT_FAILURE'',
     ''ESL_EVENT_SOCKET_DATA'',
     ''ESL_EVENT_MEDIA_BUG_START'',
     ''ESL_EVENT_MEDIA_BUG_STOP'',
     ''ESL_EVENT_CONFERENCE_DATA_QUERY'',
     ''ESL_EVENT_CONFERENCE_DATA'',
     ''ESL_EVENT_CALL_SETUP_REQ'',
     ''ESL_EVENT_CALL_SETUP_RESULT'',
     ''ESL_EVENT_CALL_DETAIL'',
     ''ESL_EVENT_DEVICE_STATE'',
     ''ESL_EVENT_TEXT'',
     ''ESL_EVENT_SHUTDOWN_REQUESTED'',
     ''ESL_EVENT_ALL'']"

abbreviation (input) ESL_EVENT_CUSTOM :: esl_event_types_t where
  "ESL_EVENT_CUSTOM \<equiv> 0"

abbreviation (input) ESL_EVENT_CHANNEL_CREATE :: esl_event_types_t where
  "ESL_EVENT_CHANNEL_CREATE \<equiv> 2"

abbreviation (input) ESL_EVENT_CHANNEL_ANSWER :: esl_event_types_t where
  "ESL_EVENT_CHANNEL_ANSWER \<equiv> 6"

abbreviation (input) ESL_EVENT_CHANNEL_HANGUP :: esl_event_types_t where
  "ESL_EVENT_CHANNEL_HANGUP \<equiv> 7"

abbreviation (input) ESL_EVENT_CHANNEL_HANGUP_COMPLETE :: esl_event_types_t where
  "ESL_EVENT_CHANNEL_HANGUP_COMPLETE \<equiv> 8"

abbreviation (input) ESL_EVENT_CHANNEL_EXECUTE_COMPLETE :: esl_event_types_t where
  "ESL_EVENT_CHANNEL_EXECUTE_COMPLETE \<equiv> 10"

abbreviation (input) ESL_EVENT_CHANNEL_HOLD :: esl_event_types_t where
  "ESL_EVENT_CHANNEL_HOLD \<equiv> 11"

abbreviation (input) ESL_EVENT_CHANNEL_UNHOLD :: esl_event_types_t where
  "ESL_EVENT_CHANNEL_UNHOLD \<equiv> 12"

abbreviation (input) ESL_EVENT_CHANNEL_BRIDGE :: esl_event_types_t where
  "ESL_EVENT_CHANNEL_BRIDGE \<equiv> 13"

abbreviation (input) ESL_EVENT_CHANNEL_UNBRIDGE :: esl_event_types_t where
  "ESL_EVENT_CHANNEL_UNBRIDGE \<equiv> 14"

abbreviation (input) ESL_EVENT_CHANNEL_PROGRESS :: esl_event_types_t where
  "ESL_EVENT_CHANNEL_PROGRESS \<equiv> 15"

abbreviation (input) ESL_EVENT_CHANNEL_PROGRESS_MEDIA :: esl_event_types_t where
  "ESL_EVENT_CHANNEL_PROGRESS_MEDIA \<equiv> 16"

abbreviation (input) ESL_EVENT_DTMF :: esl_event_types_t where
  "ESL_EVENT_DTMF \<equiv> 36"

abbreviation (input) ESL_EVENT_RECORD_START :: esl_event_types_t where
  "ESL_EVENT_RECORD_START \<equiv> 75"

abbreviation (input) ESL_EVENT_RECORD_STOP :: esl_event_types_t where
  "ESL_EVENT_RECORD_STOP \<equiv> 76"

definition esl_named_ids :: "(esl_event_types_t \<times> string) list" where
  "esl_named_ids =
    [(ESL_EVENT_CUSTOM, ''ESL_EVENT_CUSTOM''),
     (ESL_EVENT_CHANNEL_CREATE, ''ESL_EVENT_CHANNEL_CREATE''),
     (ESL_EVENT_CHANNEL_ANSWER, ''ESL_EVENT_CHANNEL_ANSWER''),
     (ESL_EVENT_CHANNEL_HANGUP, ''ESL_EVENT_CHANNEL_HANGUP''),
     (ESL_EVENT_CHANNEL_HANGUP_COMPLETE, ''ESL_EVENT_CHANNEL_HANGUP_COMPLETE''),
     (ESL_EVENT_CHANNEL_EXECUTE_COMPLETE, ''ESL_EVENT_CHANNEL_EXECUTE_COMPLETE''),
     (ESL_EVENT_CHANNEL_HOLD, ''ESL_EVENT_CHANNEL_HOLD''),
     (ESL_EVENT_CHANNEL_UNHOLD, ''ESL_EVENT_CHANNEL_UNHOLD''),
     (ESL_EVENT_CHANNEL_BRIDGE, ''ESL_EVENT_CHANNEL_BRIDGE''),
     (ESL_EVENT_CHANNEL_UNBRIDGE, ''ESL_EVENT_CHANNEL_UNBRIDGE''),
     (ESL_EVENT_CHANNEL_PROGRESS, ''ESL_EVENT_CHANNEL_PROGRESS''),
     (ESL_EVENT_CHANNEL_PROGRESS_MEDIA, ''ESL_EVENT_CHANNEL_PROGRESS_MEDIA''),
     (ESL_EVENT_DTMF, ''ESL_EVENT_DTMF''),
     (ESL_EVENT_RECORD_START, ''ESL_EVENT_RECORD_START''),
     (ESL_EVENT_RECORD_STOP, ''ESL_EVENT_RECORD_STOP'')]"

lemma esl_event_ids_named: "list_all (\<lambda>(i, n). i < length esl_event_enum \<and> esl_event_enum ! i = n) esl_named_ids"
  by (simp add: esl_named_ids_def esl_event_enum_def)

text \<open>
  An event: a header is looked up by name, and a header the event does not carry is the null
  pointer.  The members of \<open>struct esl_event\<close> the service never reads (priority, owner, subclass,
  user data, list links, key, flags) are left out.
\<close>

record esl_event =
  event_id :: esl_event_types_t
  headers :: "string \<Rightarrow> c_string"
  body :: c_string

text \<open>
  The macro \<open>esl_event_get_header(e, h)\<close> is \<open>esl_event_get_header_idx(e, h, -1)\<close>: the value
  of the named header.
\<close>

definition esl_event_get_header :: "esl_event \<Rightarrow> string \<Rightarrow> c_string" where
  "esl_event_get_header e h = headers e h"

text \<open>
  The members of \<open>esl_handle_t\<close> the service reads; a null event pointer is \<open>None\<close>.
\<close>

record esl_handle =
  sock :: int
  last_sr_reply :: string
  last_event :: "esl_event option"
  last_sr_event :: "esl_event option"
  last_ievent :: "esl_event option"
  info_event :: "esl_event option"
  connected :: bool

definition zero_handle :: esl_handle where
  "zero_handle = \<lparr>sock = 0, last_sr_reply = [], last_event = None, last_sr_event = None,
     last_ievent = None, info_event = None, connected = False\<rparr>"

text \<open>
  \<open>esl_send_recv\<close> is compiled elsewhere; its documentation says that the reply is placed in the
  handle's \<open>last_sr_event\<close> and \<open>last_sr_reply\<close>.  A model of it takes the handle and the command and
  gives the handle after the call, or the fault the call ends in.  Its first argument says whether
  the handle's \<open>last_sr_event\<close> is stale: a pointer copied from another handle, whose own later
  calls have put other replies in its place.  What the library then does is not documented, so
  nothing is assumed of it.
\<close>

type_synonym send_recv = "bool \<Rightarrow> esl_handle \<Rightarrow> string \<Rightarrow> fault + esl_handle"

text \<open>Log levels, as the \<open>ESL_LOG_LEVEL_*\<close> macros number them.\<close>

datatype log_level = EMERG | ALERT | CRIT | ERROR | WARNING | NOTICE | INFO | DEBUG

fun log_level_code :: "log_level \<Rightarrow> nat" where
  "log_level_code DEBUG = 7"
| "log_level_code INFO = 6"
| "log_level_code NOTICE = 5"
| "log_level_code WARNING = 4"
| "log_level_code ERROR = 3"
| "log_level_code CRIT = 2"
| "log_level_code ALERT = 1"
| "log_level_code EMERG = 0"

text \<open>
  What an operation does besides changing the service state.  \<open>Cout\<close> and \<open>Cerr\<close> carry the text
  written; \<open>EslLog\<close> the format and its string arguments; the \<open>Esl\<close> constructors are calls of the
  event-socket library, \<open>HttpRequest\<close> is one \<open>curl_easy_perform\<close> with the options set before it,
  \<open>Sql\<close> a statement executed in the
  transaction, \<open>WsWrite\<close> an asynchronous write started on a websocket with these bytes;
  \<open>Sleep\<close> counts microseconds.
\<close>

datatype http_request = HttpRequest
  (req_method: string) (req_url: string) (req_headers: "string list") (req_timeout: "int option")
  (req_postfields: string)

datatype effect =
    Cout string
  | Cerr string
  | EslLog log_level string "c_string list"
  | EslAttach
  | EslSendRecv string
  | EslExecute string c_string
  | EslFilter string c_string
  | EslEvents string
  | EslConnect string nat
  | EslListen string nat
  | EslDisconnect
  | Perform http_request
  | WsWrite string
  | SqlConnect string
  | Sql string
  | SqlCommit
  | SpawnThread string
  | Sleep nat

text \<open>
  \<open>esl_safe_strcasecmp\<close>: 1 (different) when either pointer is null, \<open>strcasecmp\<close> otherwise.
\<close>

definition esl_safe_strcasecmp0 :: "c_string \<Rightarrow> c_string \<Rightarrow> bool" where
  "esl_safe_strcasecmp0 s1 s2 =
     (case s1 of None \<Rightarrow> False
      | Some a \<Rightarrow> (case s2 of None \<Rightarrow> False | Some b \<Rightarrow> strcasecmp0 a b))"

end
