(* ===== verification/Websocket.thy ===== *)
theory Websocket
  imports Esl_Model
begin

text \<open>
  The websocket side (\<open>src/WebsocketSession.cpp\<close>, \<open>src/WebsocketServer.cpp\<close>).  Boost.Beast runs
  the asynchronous operations: the model keeps, per session, which operations are outstanding, and
  a completion is an event that carries the error code (\<open>None\<close> for success, otherwise its
  message) and, for a read, the bytes that were read.  Every handler of the two classes is one
  definition.
\<close>

type_synonym error_code = "string option"

section \<open>A session\<close>

text \<open>
  \<open>ws_writes\<close> are the messages of the writes that have not completed.  Beast allows one outstanding
  \<open>async_write\<close> per stream: a second one started before the first has completed fails an assertion
  of the library, or, where assertions are compiled out, leaves the stream in no defined state.
  \<open>ws_broken\<close> records that this has happened to the session's stream; nothing resets it.  The
  stream is given \<open>net::buffer(message)\<close>, which refers to the parameter of \<open>do_write\<close> and does not
  copy it: what the library reads from that memory after \<open>do_write\<close> has returned is not modelled,
  \<open>ws_writes\<close> and the effect \<open>WsWrite\<close> say which message a write was started with.
\<close>

record WebsocketSession =
  ws_accepting :: bool
  ws_reading :: bool
  ws_writes :: "string list"
  ws_broken :: bool
  ws_server_suffix :: "string option"
  rbuffer :: string

definition new_WebsocketSession :: WebsocketSession where
  "new_WebsocketSession = \<lparr>ws_accepting = False, ws_reading = False, ws_writes = [],
     ws_broken = False, ws_server_suffix = None, rbuffer = []\<rparr>"

definition session_do_accept :: "WebsocketSession \<Rightarrow> WebsocketSession" where
  "session_do_accept s =
     (let s = s\<lparr>ws_server_suffix := Some ''websocket-server-async''\<rparr> in s\<lparr>ws_accepting := True\<rparr>)"

definition session_run :: "WebsocketSession \<Rightarrow> WebsocketSession" where
  "session_run s = session_do_accept s"

definition session_do_write :: "string \<Rightarrow> WebsocketSession \<Rightarrow> WebsocketSession \<times> effect list" where
  "session_do_write message s =
     (s\<lparr>ws_writes := ws_writes s @ [message], ws_broken := ws_broken s \<or> ws_writes s \<noteq> []\<rparr>,
      [WsWrite message])"

definition session_fail :: "string \<Rightarrow> string \<Rightarrow> effect list" where
  "session_fail ec what = [Cerr (what @ '':'' @ ec @ [newline])]"

definition session_on_write :: "error_code \<Rightarrow> WebsocketSession \<Rightarrow> WebsocketSession \<times> effect list" where
  "session_on_write ec s = (case ec of Some e \<Rightarrow> (s, session_fail e ''write'') | None \<Rightarrow> (s, []))"

definition session_do_read :: "WebsocketSession \<Rightarrow> WebsocketSession \<times> effect list" where
  "session_do_read s = (s\<lparr>ws_reading := True\<rparr>, [Cout (''do_read()'' @ [newline])])"

definition session_on_accept :: "error_code \<Rightarrow> WebsocketSession \<Rightarrow> WebsocketSession \<times> effect list" where
  "session_on_accept ec s =
     (case ec of Some e \<Rightarrow> (s, session_fail e ''accept'') | None \<Rightarrow> session_do_read s)"

definition session_on_read :: "error_code \<Rightarrow> WebsocketSession \<Rightarrow> WebsocketSession \<times> effect list" where
  "session_on_read ec s =
     (case ec of
        Some e \<Rightarrow> (s, Cout (''on_read()'' @ [newline]) # session_fail e ''read'')
      | None \<Rightarrow>
          (let (s1, w) = session_do_write (rbuffer s) s;
               s2 = s1\<lparr>rbuffer := []\<rparr>;
               (s3, r) = session_do_read s2
           in (s3, [Cout (''on_read()'' @ [newline]),
                    Cout (''Received: '' @ rbuffer s @ [newline])] @ w @ r)))"

text \<open>
  Completions.  When an operation completes it is no longer outstanding; a completed read has
  appended what it read to \<open>rbuffer\<close>; writes complete in the order they were started.
\<close>

datatype ws_completion =
    AcceptDone error_code
  | ReadDone error_code string
  | WriteDone error_code

fun session_enabled :: "ws_completion \<Rightarrow> WebsocketSession \<Rightarrow> bool" where
  "session_enabled (AcceptDone ec) s = ws_accepting s"
| "session_enabled (ReadDone ec d) s = (ws_reading s \<and> (ec \<noteq> None \<longrightarrow> d = []))"
| "session_enabled (WriteDone ec) s = (ws_writes s \<noteq> [])"

fun session_step :: "ws_completion \<Rightarrow> WebsocketSession \<Rightarrow> WebsocketSession \<times> effect list" where
  "session_step (AcceptDone ec) s = session_on_accept ec (s\<lparr>ws_accepting := False\<rparr>)"
| "session_step (ReadDone ec d) s =
     session_on_read ec (s\<lparr>ws_reading := False, rbuffer := rbuffer s @ d\<rparr>)"
| "session_step (WriteDone ec) s = session_on_write ec (s\<lparr>ws_writes := tl (ws_writes s)\<rparr>)"

lemmas session_defs = session_do_accept_def session_run_def session_do_write_def
  session_fail_def session_on_write_def session_do_read_def session_on_accept_def
  session_on_read_def Let_def

text \<open>
  The invariant of a session: it never accepts and reads at once, its read buffer is empty
  between completions, and it has two writes outstanding only if the library's rule has been broken.
\<close>

definition session_inv :: "WebsocketSession \<Rightarrow> bool" where
  "session_inv s \<longleftrightarrow> \<not> (ws_accepting s \<and> ws_reading s) \<and> rbuffer s = [] \<and>
     (1 < length (ws_writes s) \<longrightarrow> ws_broken s)"

lemma session_inv_new: "session_inv (session_run new_WebsocketSession)"
  by (simp add: session_inv_def new_WebsocketSession_def session_defs)

lemma session_inv_do_write: "session_inv s \<Longrightarrow> session_inv (fst (session_do_write m s))"
  by (auto simp: session_inv_def session_defs list_all_iff)

lemma session_step_inv: "session_inv s \<Longrightarrow> session_enabled e s \<Longrightarrow> session_inv (fst (session_step e s))"
  by (cases e; cases "ws_writes s")
    (auto simp: session_inv_def session_defs list_all_iff split: option.splits)

interpretation sess: guarded_machine session_step session_enabled session_inv
  by unfold_locales (rule session_step_inv)

text \<open>What one step echoes: the message of a successful read, and nothing else.\<close>

fun is_write :: "effect \<Rightarrow> bool" where
  "is_write (WsWrite d) = True"
| "is_write _ = False"

fun echoed :: "ws_completion \<Rightarrow> effect list" where
  "echoed (ReadDone None d) = [WsWrite d]"
| "echoed _ = []"

lemma session_step_writes:
  "session_inv s \<Longrightarrow> session_enabled e s \<Longrightarrow> filter is_write (snd (session_step e s)) = echoed e"
  by (cases e rule: echoed.cases) (auto simp: session_inv_def session_defs split: option.splits)

section \<open>The server\<close>

text \<open>
  \<open>pending\<close> is the session bound to the outstanding \<open>acceptor_.async_accept\<close>.
\<close>

record WebsocketServer =
  m_listSessions :: "WebsocketSession list"
  pending :: "WebsocketSession option"

definition server_do_accept :: "WebsocketServer \<Rightarrow> WebsocketServer" where
  "server_do_accept srv = (let s = new_WebsocketSession in srv\<lparr>pending := Some s\<rparr>)"

text \<open>
  The constructor opens, configures, binds and listens, each of which may throw; \<open>opened\<close> is the
  first error, \<open>None\<close> when all four succeed.
\<close>

definition new_WebsocketServer :: "error_code \<Rightarrow> fault + WebsocketServer" where
  "new_WebsocketServer opened =
     (case opened of
        Some e \<Rightarrow> Inl (Exception e)
      | None \<Rightarrow> Inr (server_do_accept \<lparr>m_listSessions = [], pending = None\<rparr>))"

definition server_do_write :: "string \<Rightarrow> WebsocketServer \<Rightarrow> WebsocketServer \<times> effect list" where
  "server_do_write message srv =
     (let rs = map (session_do_write message) (m_listSessions srv)
      in (srv\<lparr>m_listSessions := map fst rs\<rparr>, concat (map snd rs)))"

definition server_on_accept ::
  "WebsocketSession \<Rightarrow> error_code \<Rightarrow> WebsocketServer \<Rightarrow> WebsocketServer \<times> effect list" where
  "server_on_accept session ec srv =
     (let srv = (case ec of
                   None \<Rightarrow> srv\<lparr>m_listSessions := m_listSessions srv @ [session_run session]\<rparr>
                 | Some _ \<Rightarrow> srv)
      in (server_do_accept srv, [Cout (''on_accept()'' @ [newline])]))"

datatype server_event =
    ConnectDone error_code
  | SessionDone nat ws_completion
  | Broadcast string

fun server_enabled :: "server_event \<Rightarrow> WebsocketServer \<Rightarrow> bool" where
  "server_enabled (ConnectDone ec) srv = (pending srv \<noteq> None)"
| "server_enabled (SessionDone i c) srv =
     (i < length (m_listSessions srv) \<and> session_enabled c (m_listSessions srv ! i))"
| "server_enabled (Broadcast m) srv = True"

fun server_step :: "server_event \<Rightarrow> WebsocketServer \<Rightarrow> WebsocketServer \<times> effect list" where
  "server_step (ConnectDone ec) srv =
     (case pending srv of None \<Rightarrow> (srv, []) | Some s \<Rightarrow> server_on_accept s ec srv)"
| "server_step (SessionDone i c) srv =
     (if i < length (m_listSessions srv)
      then (let (s, fx) = session_step c (m_listSessions srv ! i)
            in (srv\<lparr>m_listSessions := (m_listSessions srv)[i := s]\<rparr>, fx))
      else (srv, []))"
| "server_step (Broadcast m) srv = server_do_write m srv"

lemmas server_defs = server_do_accept_def server_do_write_def server_on_accept_def Let_def

text \<open>
  The invariant of the server: an accept is always outstanding, for a fresh session, and every
  session it has satisfies the session invariant.
\<close>

definition server_inv :: "WebsocketServer \<Rightarrow> bool" where
  "server_inv srv \<longleftrightarrow> pending srv = Some new_WebsocketSession \<and> list_all session_inv (m_listSessions srv)"

lemma server_inv_new: "new_WebsocketServer None = Inr srv \<Longrightarrow> server_inv srv"
  by (auto simp: new_WebsocketServer_def server_inv_def server_defs)

lemma server_do_write_inv: "server_inv srv \<Longrightarrow> server_inv (fst (server_do_write m srv))"
  by (auto simp: server_inv_def server_defs list_all_iff session_inv_do_write)

lemma list_all_update: "list_all P xs \<Longrightarrow> P x \<Longrightarrow> list_all P (xs[i := x])"
  by (auto simp: list_all_iff dest!: set_update_subset_insert [THEN subsetD])

lemma server_step_inv: "server_inv srv \<Longrightarrow> server_enabled e srv \<Longrightarrow> server_inv (fst (server_step e srv))"
proof (cases e)
  case (ConnectDone ec)
  assume "server_inv srv"
  then show ?thesis
    by (auto simp: ConnectDone server_inv_def server_defs session_inv_new split: option.splits)
next
  case (SessionDone i c)
  assume inv: "server_inv srv" and en: "server_enabled e srv"
  from inv en SessionDone have "session_inv (fst (session_step c (m_listSessions srv ! i)))"
    by (intro session_step_inv) (auto simp: server_inv_def list_all_length)
  with inv SessionDone en show ?thesis
    by (auto simp: server_inv_def Let_def split: prod.splits intro!: list_all_update)
next
  case (Broadcast m)
  assume "server_inv srv"
  with Broadcast show ?thesis by (simp add: server_do_write_inv)
qed

interpretation srv: guarded_machine server_step server_enabled server_inv
  by unfold_locales (rule server_step_inv)

text \<open>Sessions are never removed: the list only grows, by one for every successful connect.\<close>

fun connects :: "server_event \<Rightarrow> nat" where
  "connects (ConnectDone None) = 1"
| "connects _ = 0"

lemma server_step_length:
  "server_enabled e srv \<Longrightarrow>
     length (m_listSessions (fst (server_step e srv))) = length (m_listSessions srv) + connects e"
  by (cases e rule: connects.cases) (auto simp: server_defs split: option.splits prod.splits)

lemma server_run_length:
  "admissible server_enabled server_step es srv \<Longrightarrow>
     length (m_listSessions (run_events server_step es srv)) =
       length (m_listSessions srv) + sum_list (map connects es)"
  by (induction es arbitrary: srv) (auto simp: server_step_length)

text \<open>
  What an event starts and completes of the writes of session \<open>i\<close>, and the events after the connect
  that put session \<open>i\<close> (counted from the next free place of the list) on the list.
\<close>

fun started :: "nat \<Rightarrow> server_event \<Rightarrow> nat" where
  "started i (SessionDone j (ReadDone None d)) = (if j = i then 1 else 0)"
| "started i (Broadcast m) = 1"
| "started i e = 0"

fun completed :: "nat \<Rightarrow> server_event \<Rightarrow> nat" where
  "completed i (SessionDone j (WriteDone ec)) = (if j = i then 1 else 0)"
| "completed i e = 0"

fun joined :: "nat \<Rightarrow> server_event list \<Rightarrow> server_event list" where
  "joined i [] = []"
| "joined i (e # es) = (if connects e = 0 then joined i es else if i = 0 then es else joined (i - 1) es)"

text \<open>One event, as a session on the list sees it.\<close>

lemma server_step_writes:
  assumes "server_enabled e srv" and "i < length (m_listSessions srv)"
  shows "i < length (m_listSessions (fst (server_step e srv)))"
    and "completed i e \<le> length (ws_writes (m_listSessions srv ! i))"
    and "length (ws_writes (m_listSessions (fst (server_step e srv)) ! i)) + completed i e =
      length (ws_writes (m_listSessions srv ! i)) + started i e"
    and "ws_broken (m_listSessions (fst (server_step e srv)) ! i) \<longleftrightarrow>
      ws_broken (m_listSessions srv ! i) \<or> (started i e = 1 \<and> ws_writes (m_listSessions srv ! i) \<noteq> [])"
  using assms
  by (cases "(i, e)" rule: started.cases;
      auto simp: server_defs session_defs nth_append nth_list_update Suc_le_eq split: option.splits)+

lemma started_completed: "started i e = 0 \<or> started i e = 1 \<and> completed i e = 0"
  by (cases "(i, e)" rule: started.cases) auto

lemma server_run_listed:
  assumes "admissible server_enabled server_step es srv" and "server_inv srv" and "i < length (m_listSessions srv)"
  shows "ws_broken (m_listSessions (run_events server_step es srv) ! i) \<longleftrightarrow>
    ws_broken (m_listSessions srv ! i) \<or>
    (\<exists>n. sum_list (map (completed i) (take n es)) + 1 <
       sum_list (map (started i) (take n es)) + length (ws_writes (m_listSessions srv ! i)))"
  using assms
proof (induction es arbitrary: srv)
  case Nil
  then have "session_inv (m_listSessions srv ! i)" by (simp add: server_inv_def list_all_length)
  then show ?case by (auto simp: session_inv_def)
next
  case (Cons e es)
  let ?s = "m_listSessions srv ! i" and ?srv = "fst (server_step e srv)"
  let ?X = "\<lambda>k n. sum_list (map (completed i) (take n es)) + 1 < sum_list (map (started i) (take n es)) + k"
  from Cons.prems have en: "server_enabled e srv" and inv: "session_inv ?s"
    by (simp_all add: server_inv_def list_all_length)
  note W = server_step_writes [OF en Cons.prems(3)]
  have eq: "?X (length (ws_writes (m_listSessions ?srv ! i))) n \<longleftrightarrow>
      sum_list (map (completed i) (take (Suc n) (e # es))) + 1 <
      sum_list (map (started i) (take (Suc n) (e # es))) + length (ws_writes ?s)" for n
    using W(3) by simp linarith
  have "ws_broken (m_listSessions (run_events server_step (e # es) srv) ! i) \<longleftrightarrow>
      ws_broken (m_listSessions ?srv ! i) \<or> (\<exists>n. ?X (length (ws_writes (m_listSessions ?srv ! i))) n)"
    using Cons.IH [of ?srv] Cons.prems W(1) server_step_inv [OF Cons.prems(2) en] by simp
  also have "\<dots> \<longleftrightarrow> ws_broken ?s \<or> (\<exists>n. ?X (length (ws_writes (m_listSessions ?srv ! i))) n)"
  proof -
    have "?X (length (ws_writes (m_listSessions ?srv ! i))) 0" if "started i e = 1" "ws_writes ?s \<noteq> []"
      using that W(3) started_completed [of i e] by (cases "ws_writes ?s") auto
    with W(4) show ?thesis by blast
  qed
  also have "\<dots> \<longleftrightarrow> ws_broken ?s \<or> (\<exists>n. sum_list (map (completed i) (take n (e # es))) + 1 <
       sum_list (map (started i) (take n (e # es))) + length (ws_writes ?s))"
    (is "_ \<longleftrightarrow> _ \<or> (\<exists>n. ?Y n)")
  proof -
    have "?Y 0 \<Longrightarrow> ws_broken ?s" using inv by (simp add: session_inv_def)
    then have "(\<exists>n. ?Y n) \<longleftrightarrow> ?Y 0 \<or> (\<exists>n. ?Y (Suc n))" by (metis not0_implies_Suc)
    with \<open>?Y 0 \<Longrightarrow> ws_broken ?s\<close> eq show ?thesis by blast
  qed
  finally show ?case .
qed

lemma server_run_broken:
  assumes "admissible server_enabled server_step es srv" and "server_inv srv"
    and "length (m_listSessions srv) \<le> i" and "i < length (m_listSessions (run_events server_step es srv))"
  shows "ws_broken (m_listSessions (run_events server_step es srv) ! i) \<longleftrightarrow>
    (\<exists>n. sum_list (map (completed i) (take n (joined (i - length (m_listSessions srv)) es))) + 1 <
       sum_list (map (started i) (take n (joined (i - length (m_listSessions srv)) es))))"
  using assms
proof (induction es arbitrary: srv)
  case Nil
  then show ?case by simp
next
  case (Cons e es)
  let ?srv = "fst (server_step e srv)"
  from Cons.prems have en: "server_enabled e srv" and ad: "admissible server_enabled server_step es ?srv"
    and inv: "server_inv ?srv"
    using server_step_inv [of srv e] by simp_all
  note l = server_step_length [OF en]
  show ?case
  proof (cases "length (m_listSessions ?srv) \<le> i")
    case True
    with Cons.IH [OF ad inv True] Cons.prems l show ?thesis
      by (cases e rule: connects.cases) (auto simp: diff_Suc split: nat.splits)
  next
    case False
    with l Cons.prems(3) have e: "e = ConnectDone None" and i: "i = length (m_listSessions srv)"
      by (cases e rule: connects.cases; simp)+
    then have "m_listSessions ?srv ! i = session_run new_WebsocketSession"
      using Cons.prems(2) by (simp add: server_inv_def server_defs)
    with server_run_listed [OF ad inv, of i] False e i show ?thesis
      by (simp add: session_defs new_WebsocketSession_def)
  qed
qed

section \<open>Properties\<close>

text \<open>
  C18. Every session echoes: over any possible sequence of completions, the writes a session starts
  are exactly the messages of its successful reads, each once and in the order they were read,
  whatever the errors in between.
\<close>
theorem session_echoes:
  assumes "admissible session_enabled session_step es (session_run new_WebsocketSession)"
  shows "filter is_write (outputs session_step es (session_run new_WebsocketSession)) = concat (map echoed es)"
  using assms by (intro sess.outputs_collect session_step_writes session_inv_new)

lemma session_echoes_witness:
  "filter is_write (outputs session_step [AcceptDone None, ReadDone None ''hi'', WriteDone None, ReadDone None ''x'']
     (session_run new_WebsocketSession)) = [WsWrite ''hi'', WsWrite ''x'']"
  using session_echoes [of "[AcceptDone None, ReadDone None ''hi'', WriteDone None, ReadDone None ''x'']"]
  by (simp add: session_defs new_WebsocketSession_def)

text \<open>
  C19. When the code breaks Beast's rule of one outstanding write: over any run of the server from its
  construction, the stream of session \<open>i\<close> has had a write started while another was outstanding
  exactly if, at some moment after the session joined the list, the messages it had read plus the
  texts broadcast by \<open>answercall\<close> outnumbered its completed writes by two or more.  So a peer that
  sends a second message before its first echo is written breaks it, two \<open>answercall\<close>s in a row break
  every session, and the code has no guard in between.
\<close>
theorem overlapping_writes:
  assumes "new_WebsocketServer None = Inr srv" and "admissible server_enabled server_step es srv"
    and "i < length (m_listSessions (run_events server_step es srv))"
  shows "ws_broken (m_listSessions (run_events server_step es srv) ! i) \<longleftrightarrow>
    (\<exists>n. sum_list (map (completed i) (take n (joined i es))) + 1 < sum_list (map (started i) (take n (joined i es))))"
proof -
  have "m_listSessions srv = []"
    using assms(1) by (auto simp: new_WebsocketServer_def server_do_accept_def)
  with server_run_broken [OF assms(2) server_inv_new [OF assms(1)], of i] assms(3) show ?thesis by simp
qed

lemma overlapping_writes_witness:
  "\<exists>srv. new_WebsocketServer None = Inr srv \<and>
     ws_broken (m_listSessions (run_events server_step [ConnectDone None, Broadcast ''x'', Broadcast ''y''] srv) ! 0) \<and>
     \<not> ws_broken (m_listSessions (run_events server_step
         [ConnectDone None, Broadcast ''x'', SessionDone 0 (WriteDone None), Broadcast ''y''] srv) ! 0)"
proof -
  let ?a = "[ConnectDone None, Broadcast ''x'', Broadcast ''y'']"
  let ?b = "[ConnectDone None, Broadcast ''x'', SessionDone 0 (WriteDone None), Broadcast ''y'']"
  obtain srv where s: "new_WebsocketServer None = Inr srv" by (simp add: new_WebsocketServer_def)
  then have a: "admissible server_enabled server_step ?a srv" "0 < length (m_listSessions (run_events server_step ?a srv))"
    and b: "admissible server_enabled server_step ?b srv" "0 < length (m_listSessions (run_events server_step ?b srv))"
    by (auto simp: new_WebsocketServer_def server_defs session_defs new_WebsocketSession_def)
  have "\<exists>n. sum_list (map (completed 0) (take n (joined 0 ?a))) + 1 < sum_list (map (started 0) (take n (joined 0 ?a)))"
    by (rule exI [of _ 2]) simp
  moreover have "\<not> (\<exists>n. sum_list (map (completed 0) (take n (joined 0 ?b))) + 1 < sum_list (map (started 0) (take n (joined 0 ?b))))"
    by (auto simp: take_Cons split: nat.splits)
  ultimately show ?thesis using overlapping_writes [OF s a] overlapping_writes [OF s b] s by blast
qed

text \<open>
  C20. Sessions are never removed: after any run of the server the list holds one session for every
  successful connect since the start, in particular those whose connection has failed or closed, so
  it grows without bound.
\<close>
theorem sessions_accumulate:
  assumes "new_WebsocketServer None = Inr srv" and "admissible server_enabled server_step es srv"
  shows "length (m_listSessions (run_events server_step es srv)) = sum_list (map connects es)"
  using server_run_length [OF assms(2)] assms(1)
  by (auto simp: new_WebsocketServer_def server_do_accept_def)

lemma sessions_accumulate_witness:
  "\<exists>srv. new_WebsocketServer None = Inr srv \<and>
     length (m_listSessions (run_events server_step
       [ConnectDone None, SessionDone 0 (AcceptDone (Some ''eof'')), ConnectDone None] srv)) = 2"
proof -
  obtain srv where s: "new_WebsocketServer None = Inr srv" by (simp add: new_WebsocketServer_def)
  then have "admissible server_enabled server_step
      [ConnectDone None, SessionDone 0 (AcceptDone (Some ''eof'')), ConnectDone None] srv"
    by (auto simp: new_WebsocketServer_def server_defs session_defs)
  from sessions_accumulate [OF s this] s show ?thesis by auto
qed

end
