(* ===== verification/Service_State.thy ===== *)
theory Service_State
  imports Agent_Model Websocket
begin

text \<open>
  The state of the running service: the members of \<open>CallService\<close> (\<open>src/CallService.h\<close>), the
  globals of \<open>src/CallService.cpp\<close>, the store of agent objects its shared pointers refer to, and
  the process-wide output.  A \<open>std::shared_ptr<Agent>\<close> is an address in the store
  (\<open>None\<close> where the code has a null pointer); objects are never freed in the model, so an address
  stays valid, as a shared pointer keeps its object alive.  \<open>m_handle\<close> is a copy of the inbound
  thread's handle, made member by member: it shares the pointers, and \<open>m_handle_stale\<close> says whether
  the original has since replaced the reply that the copy's \<open>last_sr_event\<close> points to.
\<close>

record call_service =
  m_bRunning :: bool
  m_listAgent :: "nat list"
  m_handle :: esl_handle
  m_handle_stale :: bool
  m_queueEvent :: "CallEvent list"
  agents :: "Agent list"
  g_WebsocketServer :: "WebsocketServer option"
  cout_bad :: bool
  out :: "effect list"

text \<open>
  The constructor, run for the global \<open>g_cs\<close> before \<open>main\<close>: the lists are empty, the handle is
  zero because the object has static storage, and the websocket server does not exist yet.
\<close>

definition new_CallService :: call_service where
  "new_CallService = \<lparr>m_bRunning = False, m_listAgent = [], m_handle = zero_handle, m_handle_stale = False,
     m_queueEvent = [], agents = [], g_WebsocketServer = None, cout_bad = False, out = []\<rparr>"

section \<open>Output\<close>

text \<open>
  Once \<open>std::cout\<close> has gone bad it writes nothing more.  Inserting a null \<open>const char*\<close> makes
  it bad (libstdc++): what was inserted before it is still written.
\<close>

fun is_cout :: "effect \<Rightarrow> bool" where
  "is_cout (Cout s) = True"
| "is_cout _ = False"

definition emit :: "effect \<Rightarrow> call_service \<Rightarrow> call_service" where
  "emit e cs = (if cout_bad cs \<and> is_cout e then cs else cs\<lparr>out := out cs @ [e]\<rparr>)"

definition emits :: "effect list \<Rightarrow> call_service \<Rightarrow> call_service" where
  "emits es cs = fold emit es cs"

definition cout :: "c_string list \<Rightarrow> call_service \<Rightarrow> call_service" where
  "cout ps cs =
     (let cs' = emit (Cout (concat (map the (takeWhile (\<lambda>p. p \<noteq> None) ps)))) cs
      in if None \<in> set ps then cs'\<lparr>cout_bad := True\<rparr> else cs')"

text \<open>\<open>cout << s << std::endl\<close> for non-null strings.\<close>

definition cout_line :: "string list \<Rightarrow> call_service \<Rightarrow> call_service" where
  "cout_line ss cs = cout (map Some (ss @ [[newline]])) cs"

lemma emit_frame [simp, cs_frame]:
  "m_bRunning (emit e cs) = m_bRunning cs" "m_listAgent (emit e cs) = m_listAgent cs"
  "m_handle (emit e cs) = m_handle cs" "m_queueEvent (emit e cs) = m_queueEvent cs"
  "agents (emit e cs) = agents cs" "g_WebsocketServer (emit e cs) = g_WebsocketServer cs"
  "cout_bad (emit e cs) = cout_bad cs" "m_handle_stale (emit e cs) = m_handle_stale cs"
  by (simp_all add: emit_def)

lemma emits_frame [simp, cs_frame]:
  "m_bRunning (emits es cs) = m_bRunning cs" "m_listAgent (emits es cs) = m_listAgent cs"
  "m_handle (emits es cs) = m_handle cs" "m_queueEvent (emits es cs) = m_queueEvent cs"
  "agents (emits es cs) = agents cs" "g_WebsocketServer (emits es cs) = g_WebsocketServer cs"
  "cout_bad (emits es cs) = cout_bad cs" "m_handle_stale (emits es cs) = m_handle_stale cs"
  by (induction es arbitrary: cs) (simp_all add: emits_def)

lemma cout_frame [simp, cs_frame]:
  "m_bRunning (cout ps cs) = m_bRunning cs" "m_listAgent (cout ps cs) = m_listAgent cs"
  "m_handle (cout ps cs) = m_handle cs" "m_queueEvent (cout ps cs) = m_queueEvent cs"
  "agents (cout ps cs) = agents cs" "g_WebsocketServer (cout ps cs) = g_WebsocketServer cs"
  "m_handle_stale (cout ps cs) = m_handle_stale cs"
  by (simp_all add: cout_def Let_def)

lemma cout_line_frame [simp, cs_frame]:
  "m_bRunning (cout_line ss cs) = m_bRunning cs" "m_listAgent (cout_line ss cs) = m_listAgent cs"
  "m_handle (cout_line ss cs) = m_handle cs" "m_queueEvent (cout_line ss cs) = m_queueEvent cs"
  "agents (cout_line ss cs) = agents cs"
  "g_WebsocketServer (cout_line ss cs) = g_WebsocketServer cs"
  "cout_bad (cout_line ss cs) = cout_bad cs" "m_handle_stale (cout_line ss cs) = m_handle_stale cs"
  by (auto simp: cout_line_def cout_def Let_def)

text \<open>What an operation added to the output, for the effects that are not prints.\<close>

definition calls :: "call_service \<Rightarrow> effect list" where
  "calls cs = filter (\<lambda>e. \<not> is_cout e) (out cs)"

lemma calls_emit [simp]: "calls (emit e cs) = (if is_cout e then calls cs else calls cs @ [e])"
  by (simp add: calls_def emit_def)

lemma calls_emits [simp]: "calls (emits es cs) = calls cs @ filter (\<lambda>e. \<not> is_cout e) es"
  by (induction es arbitrary: cs) (simp_all add: emits_def)

lemma calls_cout [simp]: "calls (cout ps cs) = calls cs"
  by (simp add: calls_def cout_def emit_def Let_def)

lemma calls_cout_line [simp]: "calls (cout_line ss cs) = calls cs"
  by (simp add: cout_line_def)

section \<open>The store of agents\<close>

definition deref :: "call_service \<Rightarrow> nat \<Rightarrow> Agent" where
  "deref cs p = agents cs ! p"

definition upd :: "nat \<Rightarrow> (Agent \<Rightarrow> Agent) \<Rightarrow> call_service \<Rightarrow> call_service" where
  "upd p f cs = cs\<lparr>agents := (agents cs)[p := f (agents cs ! p)]\<rparr>"

text \<open>\<open>std::make_shared<Agent>()\<close>.\<close>

definition make_shared :: "call_service \<Rightarrow> nat \<times> call_service" where
  "make_shared cs = (length (agents cs), cs\<lparr>agents := agents cs @ [new_Agent]\<rparr>)"

lemma upd_frame [simp, cs_frame]:
  "m_bRunning (upd p f cs) = m_bRunning cs" "m_listAgent (upd p f cs) = m_listAgent cs"
  "m_handle (upd p f cs) = m_handle cs" "m_queueEvent (upd p f cs) = m_queueEvent cs"
  "g_WebsocketServer (upd p f cs) = g_WebsocketServer cs" "cout_bad (upd p f cs) = cout_bad cs"
  "out (upd p f cs) = out cs" "calls (upd p f cs) = calls cs"
  "length (agents (upd p f cs)) = length (agents cs)"
  by (simp_all add: upd_def calls_def)

lemma deref_upd: "p < length (agents cs) \<Longrightarrow> deref (upd p f cs) q = (if q = p then f (deref cs p) else deref cs q)"
  by (simp add: deref_def upd_def)

lemma deref_emit [simp]:
  "deref (emit e cs) = deref cs" "deref (emits es cs) = deref cs" "deref (cout ps cs) = deref cs"
  "deref (cout_line ss cs) = deref cs"
  by (simp_all add: deref_def fun_eq_iff)

lemma deref_setter [simp]:
  "deref (cs\<lparr>m_listAgent := l\<rparr>) = deref cs" "deref (cs\<lparr>m_bRunning := b\<rparr>) = deref cs"
  "deref (cs\<lparr>m_handle := h\<rparr>) = deref cs" "deref (cs\<lparr>m_handle_stale := b\<rparr>) = deref cs" "deref (cs\<lparr>m_queueEvent := q\<rparr>) = deref cs"
  "deref (cs\<lparr>g_WebsocketServer := w\<rparr>) = deref cs"
  by (simp_all add: deref_def fun_eq_iff)

end
