(* ===== verification/Agent_Registry.thy ===== *)
theory Agent_Registry
  imports Service_State
begin

text \<open>
  The agent list and the operations that change it.  \<open>roster\<close> is the list of the agent objects
  themselves, in list order; \<open>registry_ok\<close> is the invariant (every pointer of the list is valid
  and no two listed agents have the same number); \<open>directory\<close> is the abstract view, a finite map
  from numbers to agents.  What the request handlers rely on of these operations is the locale of
  \<open>Agent_Directory\<close>.
\<close>

section \<open>The list and its invariant\<close>

definition roster :: "call_service \<Rightarrow> Agent list" where
  "roster cs = map (deref cs) (m_listAgent cs)"

definition registry_ok :: "call_service \<Rightarrow> bool" where
  "registry_ok cs \<longleftrightarrow>
     list_all (\<lambda>p. p < length (agents cs)) (m_listAgent cs) \<and> distinct (map getDn (roster cs))"

definition directory :: "call_service \<Rightarrow> string \<Rightarrow> Agent option" where
  "directory cs dn = lookup_by getDn (roster cs) dn"

text \<open>\<open>std::find_if\<close> over the agent list for the agent with a number.\<close>

definition find_dn :: "string \<Rightarrow> call_service \<Rightarrow> nat option" where
  "find_dn dn cs = find_if (\<lambda>p. getDn (deref cs p) = dn) (m_listAgent cs)"

lemma length_roster [simp]: "length (roster cs) = length (m_listAgent cs)"
  by (simp add: roster_def)

lemma roster_nth: "i < length (m_listAgent cs) \<Longrightarrow> roster cs ! i = deref cs (m_listAgent cs ! i)"
  by (simp add: roster_def)

lemma find_dn_roster: "find_dn dn cs = find_if (\<lambda>a. getDn a = dn) (roster cs)"
  by (simp add: find_dn_def roster_def find_if_map)

lemma find_dn_SomeD:
  "find_dn dn cs = Some i \<Longrightarrow> i < length (m_listAgent cs) \<and> getDn (roster cs ! i) = dn"
  by (auto simp: find_dn_roster dest: find_if_SomeD)

lemma directory_find:
  "directory cs dn = (case find_dn dn cs of None \<Rightarrow> None | Some i \<Rightarrow> Some (roster cs ! i))"
  by (auto simp: directory_def find_dn_roster lookup_by_def split: option.splits)

lemma registry_ok_distinct: "registry_ok cs \<Longrightarrow> distinct (m_listAgent cs)"
  by (simp add: registry_ok_def roster_def distinct_map)

lemma registry_ok_valid: "registry_ok cs \<Longrightarrow> i < length (m_listAgent cs) \<Longrightarrow> m_listAgent cs ! i < length (agents cs)"
  by (simp add: registry_ok_def list_all_length)

lemma roster_upd:
  assumes "registry_ok cs" and "i < length (m_listAgent cs)"
  shows "roster (upd (m_listAgent cs ! i) f cs) = (roster cs)[i := f (roster cs ! i)]"
proof (rule nth_equalityI)
  fix j
  assume "j < length (roster (upd (m_listAgent cs ! i) f cs))"
  then have j: "j < length (m_listAgent cs)" by simp
  with assms have "m_listAgent cs ! j = m_listAgent cs ! i \<longleftrightarrow> j = i"
    by (simp add: nth_eq_iff_index_eq registry_ok_distinct)
  with assms j show "roster (upd (m_listAgent cs ! i) f cs) ! j = (roster cs)[i := f (roster cs ! i)] ! j"
    by (auto simp: roster_nth deref_upd registry_ok_valid)
qed simp

text \<open>Updating one listed agent without changing its number keeps the invariant.\<close>

lemma registry_ok_upd:
  assumes "registry_ok cs" and "i < length (m_listAgent cs)" and "getDn (f (roster cs ! i)) = getDn (roster cs ! i)"
  shows "registry_ok (upd (m_listAgent cs ! i) f cs)"
proof -
  have "map getDn ((roster cs)[i := f (roster cs ! i)]) = map getDn (roster cs)"
    using assms(2,3) by (simp add: map_update) (metis length_map length_roster list_update_id nth_map)
  then show ?thesis
    using assms by (simp add: registry_ok_def roster_upd)
qed

lemma directory_upd:
  assumes "registry_ok cs" and "find_dn dn cs = Some i" and "\<And>a. getDn (f a) = getDn a"
  shows "directory (upd (m_listAgent cs ! i) f cs) = (directory cs)(dn := map_option f (directory cs dn))"
proof (rule ext)
  fix k
  from find_dn_SomeD [OF assms(2)]
  have i: "i < length (m_listAgent cs)" and dn: "getDn (roster cs ! i) = dn" by auto
  have d: "directory cs dn = Some (roster cs ! i)"
    using assms(2) by (simp add: directory_find)
  show "directory (upd (m_listAgent cs ! i) f cs) k = ((directory cs)(dn := map_option f (directory cs dn))) k"
    using assms(1) i dn d unfolding directory_def
    by (subst roster_upd) (auto simp: lookup_by_update registry_ok_def assms(3))
qed

text \<open>
  Operations that touch neither the list nor the store keep the roster, and so the invariant and
  the directory.
\<close>

lemma roster_cong:
  assumes "m_listAgent cs' = m_listAgent cs" and "agents cs' = agents cs"
  shows "roster cs' = roster cs \<and> registry_ok cs' = registry_ok cs \<and> directory cs' = directory cs"
proof -
  from assms(2) have "deref cs' = deref cs" by (simp add: deref_def fun_eq_iff)
  with assms have "roster cs' = roster cs" by (simp only: roster_def)
  with assms show ?thesis by (simp add: registry_ok_def directory_def [abs_def])
qed

lemma roster_frame [simp, cs_frame]:
  "roster (emit e cs) = roster cs" "roster (emits es cs) = roster cs" "roster (cout ps cs) = roster cs"
  "roster (cout_line ss cs) = roster cs"
  "registry_ok (emit e cs) = registry_ok cs" "registry_ok (emits es cs) = registry_ok cs"
  "registry_ok (cout ps cs) = registry_ok cs" "registry_ok (cout_line ss cs) = registry_ok cs"
  "directory (emit e cs) = directory cs" "directory (emits es cs) = directory cs"
  "directory (cout ps cs) = directory cs" "directory (cout_line ss cs) = directory cs"
  using roster_cong [of "emit e cs" cs] roster_cong [of "emits es cs" cs] roster_cong [of "cout ps cs" cs]
    roster_cong [of "cout_line ss cs" cs] by simp_all

section \<open>Prints\<close>

text \<open>\<open>CallService::printAgent\<close> and the two loops of the request handlers.\<close>

definition printAgent :: "nat \<Rightarrow> call_service \<Rightarrow> call_service" where
  "printAgent p cs =
     (let a = deref cs p;
          state = (if getPolling a = True then ''True'' else ''False'')
      in cout_line [''dn:'', getDn a, '' uuid:'', getUUID a, '' Polling:'', c_str state,
                    '' status:'', dec (status_value (getAgentStatus a))] cs)"

definition print_agents :: "call_service \<Rightarrow> call_service" where
  "print_agents cs =
     fold (\<lambda>p cs. cout_line [''dn:'', getDn (deref cs p), '' agent:'', getAgent (deref cs p)] cs)
       (m_listAgent cs) cs"

lemma printAgent_frame [simp, cs_frame]:
  "m_bRunning (printAgent p cs) = m_bRunning cs" "m_listAgent (printAgent p cs) = m_listAgent cs"
  "m_handle (printAgent p cs) = m_handle cs" "m_queueEvent (printAgent p cs) = m_queueEvent cs"
  "agents (printAgent p cs) = agents cs" "g_WebsocketServer (printAgent p cs) = g_WebsocketServer cs"
  "cout_bad (printAgent p cs) = cout_bad cs" "calls (printAgent p cs) = calls cs"
  "deref (printAgent p cs) = deref cs" "roster (printAgent p cs) = roster cs"
  "registry_ok (printAgent p cs) = registry_ok cs" "directory (printAgent p cs) = directory cs"
  by (simp_all add: printAgent_def Let_def)

lemma fold_print_frame:
  fixes ps :: "nat list"
  defines "pr \<equiv> \<lambda>p cs. cout_line [''dn:'', getDn (deref cs p), '' agent:'', getAgent (deref cs p)] cs"
  shows "m_bRunning (fold pr ps cs) = m_bRunning cs \<and> m_listAgent (fold pr ps cs) = m_listAgent cs \<and>
    m_handle (fold pr ps cs) = m_handle cs \<and> m_queueEvent (fold pr ps cs) = m_queueEvent cs \<and>
    agents (fold pr ps cs) = agents cs \<and> g_WebsocketServer (fold pr ps cs) = g_WebsocketServer cs \<and>
    cout_bad (fold pr ps cs) = cout_bad cs \<and> calls (fold pr ps cs) = calls cs"
  by (induction ps arbitrary: cs) (simp_all add: pr_def)

lemma print_agents_frame [simp, cs_frame]:
  "m_bRunning (print_agents cs) = m_bRunning cs" "m_listAgent (print_agents cs) = m_listAgent cs"
  "m_handle (print_agents cs) = m_handle cs" "m_queueEvent (print_agents cs) = m_queueEvent cs"
  "agents (print_agents cs) = agents cs" "g_WebsocketServer (print_agents cs) = g_WebsocketServer cs"
  "cout_bad (print_agents cs) = cout_bad cs" "calls (print_agents cs) = calls cs"
  by (simp_all add: print_agents_def fold_print_frame)

lemma print_agents_roster [simp, cs_frame]:
  "roster (print_agents cs) = roster cs" "registry_ok (print_agents cs) = registry_ok cs"
  "directory (print_agents cs) = directory cs"
  using roster_cong [of "print_agents cs" cs] by simp_all

end
