(* ===== verification/Agent_Directory.thy ===== *)
theory Agent_Directory
  imports Agent_Registry
begin

text \<open>
  The changes the request handlers of \<open>CRestfulServer::do_session\<close> make to the agent list: login,
  logout and the three status changes, each written as the handler writes it (a temporary agent
  object is made for the search, the first listed agent with its number is found, and that agent
  is changed, erased, or the temporary one appended).  The locale states what they mean for the
  abstract directory; the interpretation discharges it for the code's list.
\<close>

section \<open>The handlers' list operations\<close>

definition agent_login :: "string \<Rightarrow> string \<Rightarrow> call_service \<Rightarrow> call_service" where
  "agent_login dn agent cs =
     (let (pAgent, cs) = make_shared cs;
          cs = upd pAgent (setDn dn) cs;
          cs = upd pAgent (setAgent agent) cs;
          cs = upd pAgent (setPolling False) cs;
          cs = upd pAgent (setAgentStatus Ready) cs;
          cs = (case find_dn (getDn (deref cs pAgent)) cs of
                  Some i \<Rightarrow>
                    (let p = m_listAgent cs ! i;
                         cs = upd p (setAgent agent) cs;
                         cs = upd p (setPolling False) cs
                     in upd p (setAgentStatus Ready) cs)
                | None \<Rightarrow> cs\<lparr>m_listAgent := m_listAgent cs @ [pAgent]\<rparr>)
      in print_agents cs)"

text \<open>The Boolean says whether the agent was found: it decides the response.\<close>

definition agent_logout :: "string \<Rightarrow> call_service \<Rightarrow> bool \<times> call_service" where
  "agent_logout dn cs =
     (let (pAgent, cs) = make_shared cs;
          cs = upd pAgent (setDn dn) cs
      in case find_dn (getDn (deref cs pAgent)) cs of
           Some i \<Rightarrow> (True, print_agents (cs\<lparr>m_listAgent := erase i (m_listAgent cs)\<rparr>))
         | None \<Rightarrow> (False, print_agents cs))"

definition agent_status :: "AgentStatus_t \<Rightarrow> string \<Rightarrow> call_service \<Rightarrow> bool \<times> call_service" where
  "agent_status st dn cs =
     (let (pAgent, cs) = make_shared cs;
          cs = upd pAgent (setDn dn) cs
      in case find_dn (getDn (deref cs pAgent)) cs of
           Some i \<Rightarrow> (let p = m_listAgent cs ! i in (True, upd p (setAgentStatus st) cs))
         | None \<Rightarrow> (False, cs))"

section \<open>Their effect on the roster\<close>

abbreviation with_temp :: "Agent \<Rightarrow> call_service \<Rightarrow> call_service" where
  "with_temp a cs \<equiv> cs\<lparr>agents := agents cs @ [a]\<rparr>"

lemma upd_fresh [simp]: "upd (length (agents cs)) f (with_temp a cs) = with_temp (f a) cs"
  by (simp add: upd_def)

lemma deref_fresh [simp]:
  "deref (with_temp a cs) (length (agents cs)) = a"
  "p < length (agents cs) \<Longrightarrow> deref (with_temp a cs) p = deref cs p"
  by (simp_all add: deref_def nth_append)

lemma make_shared_eq: "make_shared cs = (length (agents cs), with_temp new_Agent cs)"
  by (simp add: make_shared_def)

lemma roster_with_temp: "registry_ok cs \<Longrightarrow> roster (with_temp a cs) = roster cs"
  by (auto simp: roster_def registry_ok_def list_all_iff)

lemma registry_ok_with_temp: "registry_ok cs \<Longrightarrow> registry_ok (with_temp a cs)"
  using roster_with_temp [of cs a] by (auto simp: registry_ok_def list_all_iff less_SucI)

lemma directory_with_temp: "registry_ok cs \<Longrightarrow> directory (with_temp a cs) = directory cs"
  by (simp add: directory_def [abs_def] roster_with_temp)

lemma find_dn_with_temp: "registry_ok cs \<Longrightarrow> find_dn dn (with_temp a cs) = find_dn dn cs"
  by (simp add: find_dn_roster roster_with_temp)

lemmas with_temp_simps = roster_with_temp registry_ok_with_temp directory_with_temp find_dn_with_temp
  make_shared_eq Let_def

text \<open>Appending a fresh agent whose number is not listed.\<close>

lemma push_back:
  assumes ok: "registry_ok cs" and new: "directory cs (getDn a) = None"
  defines "cs' \<equiv> (with_temp a cs)\<lparr>m_listAgent := m_listAgent cs @ [length (agents cs)]\<rparr>"
  shows "roster cs' = roster cs @ [a]" and "registry_ok cs'"
    and "directory cs' = (directory cs)(getDn a \<mapsto> a)"
proof -
  have "roster cs' = map (deref (with_temp a cs)) (m_listAgent cs) @ [a]"
    by (simp add: cs'_def roster_def)
  then show r: "roster cs' = roster cs @ [a]"
    using roster_with_temp [OF ok] by (simp add: roster_def)
  have "getDn a \<notin> getDn ` set (roster cs)"
    using new by (simp add: directory_def lookup_by_None)
  with ok r show "registry_ok cs'"
    by (auto simp: registry_ok_def cs'_def list_all_iff less_SucI)
  show "directory cs' = (directory cs)(getDn a \<mapsto> a)"
    using new by (auto simp: directory_def r lookup_by_snoc fun_eq_iff split: option.splits)
qed

text \<open>Erasing a listed agent.\<close>

lemma erase_agent:
  assumes ok: "registry_ok cs" and i: "find_dn dn cs = Some i"
  defines "cs' \<equiv> cs\<lparr>m_listAgent := erase i (m_listAgent cs)\<rparr>"
  shows "roster cs' = erase i (roster cs)" and "registry_ok cs'"
    and "directory cs' = (directory cs)(dn := None)"
proof -
  from find_dn_SomeD [OF i] have len: "i < length (roster cs)" and dn: "getDn (roster cs ! i) = dn"
    by auto
  show r: "roster cs' = erase i (roster cs)"
    by (simp add: cs'_def roster_def map_erase)
  show "registry_ok cs'"
    using ok set_erase_subset [of i "m_listAgent cs"]
    by (auto simp: registry_ok_def r map_erase distinct_erase) (auto simp: cs'_def list_all_iff)
  show "directory cs' = (directory cs)(dn := None)"
    using ok len dn by (auto simp: directory_def r lookup_by_erase registry_ok_def fun_eq_iff)
qed

text \<open>Changing the found agent by several setters in a row.\<close>

lemma upd_upd: "p < length (agents cs) \<Longrightarrow> upd p g (upd p f cs) = upd p (\<lambda>a. g (f a)) cs"
  by (simp add: upd_def)

section \<open>The interface of the request handlers\<close>

text \<open>
  What a login makes of the entry for its number: an existing agent keeps its call identifier,
  a new one starts without.
\<close>

definition logged_in :: "string \<Rightarrow> string \<Rightarrow> Agent option \<Rightarrow> Agent" where
  "logged_in dn agent old =
     (case old of
        Some a \<Rightarrow> setAgentStatus Ready (setPolling False (setAgent agent a))
      | None \<Rightarrow> setAgentStatus Ready (setPolling False (setAgent agent (setDn dn new_Agent))))"

datatype dir_op = Login string string | Logout string | Status AgentStatus_t string

fun op_dn :: "dir_op \<Rightarrow> string" where
  "op_dn (Login dn agent) = dn"
| "op_dn (Logout dn) = dn"
| "op_dn (Status st dn) = dn"

text \<open>The specification of the operations on the abstract directory.\<close>

fun spec_op :: "dir_op \<Rightarrow> (string \<Rightarrow> Agent option) \<Rightarrow> (string \<Rightarrow> Agent option)" where
  "spec_op (Login dn agent) m = m(dn := Some (logged_in dn agent (m dn)))"
| "spec_op (Logout dn) m = m(dn := None)"
| "spec_op (Status st dn) m = m(dn := map_option (setAgentStatus st) (m dn))"

fun spec_found :: "dir_op \<Rightarrow> (string \<Rightarrow> Agent option) \<Rightarrow> bool" where
  "spec_found (Login dn agent) m = True"
| "spec_found (Logout dn) m = (m dn \<noteq> None)"
| "spec_found (Status st dn) m = (m dn \<noteq> None)"

locale agent_directory =
  fixes invar :: "'s \<Rightarrow> bool"
    and lookup :: "'s \<Rightarrow> string \<Rightarrow> Agent option"
    and perform :: "dir_op \<Rightarrow> 's \<Rightarrow> bool \<times> 's"
  assumes invar_perform: "invar s \<Longrightarrow> invar (snd (perform x s))"
    and lookup_perform: "invar s \<Longrightarrow> lookup (snd (perform x s)) = spec_op x (lookup s)"
    and found_perform: "invar s \<Longrightarrow> fst (perform x s) = spec_found x (lookup s)"
begin

lemma fold_invar: "invar s \<Longrightarrow> invar (fold (\<lambda>x s. snd (perform x s)) xs s)"
  by (induction xs arbitrary: s) (auto simp: invar_perform)

lemma fold_lookup:
  "invar s \<Longrightarrow> lookup (fold (\<lambda>x s. snd (perform x s)) xs s) = fold spec_op xs (lookup s)"
  by (induction xs arbitrary: s) (auto simp: invar_perform lookup_perform)

lemma logout_absent:
  assumes "invar s"
  shows "lookup (snd (perform (Logout dn) s)) dn = None"
    and "fst (perform x (snd (perform (Logout (op_dn x)) s))) = (case x of Login _ _ \<Rightarrow> True | _ \<Rightarrow> False)"
  using assms by (simp_all add: lookup_perform found_perform invar_perform split: dir_op.splits)

end

text \<open>
  Requests about other numbers do not matter to an agent: its entry after any sequence of requests
  is its entry after the requests that name it.
\<close>

lemma spec_op_other: "op_dn x \<noteq> dn \<Longrightarrow> spec_op x m dn = m dn"
  by (cases x) auto

lemma spec_op_local: "op_dn x = dn \<Longrightarrow> m dn = m' dn \<Longrightarrow> spec_op x m dn = spec_op x m' dn"
  by (cases x) auto

lemma spec_ops_independent:
  "m dn = m' dn \<Longrightarrow> fold spec_op xs m dn = fold spec_op (filter (\<lambda>x. op_dn x = dn) xs) m' dn"
proof (induction xs arbitrary: m m')
  case Nil
  then show ?case by simp
next
  case (Cons x xs)
  show ?case
  proof (cases "op_dn x = dn")
    case True
    with Cons.prems have "spec_op x m dn = spec_op x m' dn" by (intro spec_op_local)
    with True Cons.IH [of "spec_op x m" "spec_op x m'"] show ?thesis by simp
  next
    case False
    with Cons.prems have "spec_op x m dn = m' dn" by (simp add: spec_op_other)
    with False Cons.IH [of "spec_op x m" m'] show ?thesis by simp
  qed
qed

fun perform_op :: "dir_op \<Rightarrow> call_service \<Rightarrow> bool \<times> call_service" where
  "perform_op (Login dn agent) cs = (True, agent_login dn agent cs)"
| "perform_op (Logout dn) cs = agent_logout dn cs"
| "perform_op (Status st dn) cs = agent_status st dn cs"

text \<open>The list operations implement the interface.\<close>

lemma login_refines:
  assumes ok: "registry_ok cs"
  shows "registry_ok (agent_login dn agent cs) \<and>
    directory (agent_login dn agent cs) = spec_op (Login dn agent) (directory cs)"
proof (cases "find_dn dn cs")
  case None
  let ?a = "setAgentStatus Ready (setPolling False (setAgent agent (setDn dn new_Agent)))"
  from None have d: "directory cs dn = None" by (simp add: directory_find)
  with push_back [OF ok, of ?a] None ok show ?thesis
    by (simp add: agent_login_def with_temp_simps logged_in_def)
next
  case (Some i)
  let ?a = "setAgentStatus Ready (setPolling False (setAgent agent (setDn dn new_Agent)))"
  let ?f = "\<lambda>a. setAgentStatus Ready (setPolling False (setAgent agent a))"
  let ?t = "with_temp ?a cs"
  from ok have okt: "registry_ok ?t" by (rule registry_ok_with_temp)
  from Some ok have it: "find_dn dn ?t = Some i" by (simp add: find_dn_with_temp)
  from find_dn_SomeD [OF it] have i: "i < length (m_listAgent ?t)" by blast
  have p: "m_listAgent ?t ! i < length (agents ?t)" using okt i by (rule registry_ok_valid)
  have "agent_login dn agent cs = print_agents (upd (m_listAgent ?t ! i) ?f ?t)"
    using it p by (simp add: agent_login_def make_shared_eq Let_def upd_upd)
  moreover have "registry_ok (upd (m_listAgent ?t ! i) ?f ?t)"
    using okt i by (rule registry_ok_upd) simp
  moreover have "directory (upd (m_listAgent ?t ! i) ?f ?t) = (directory ?t)(dn := map_option ?f (directory ?t dn))"
    using okt it by (rule directory_upd) simp
  moreover have "directory cs dn = Some (roster cs ! i)" using Some by (simp add: directory_find)
  ultimately show ?thesis
    using ok by (simp add: directory_with_temp logged_in_def)
qed

lemma logout_refines:
  assumes ok: "registry_ok cs"
  shows "registry_ok (snd (agent_logout dn cs)) \<and>
    directory (snd (agent_logout dn cs)) = spec_op (Logout dn) (directory cs) \<and>
    fst (agent_logout dn cs) = spec_found (Logout dn) (directory cs)"
proof (cases "find_dn dn cs")
  case None
  then have d: "directory cs dn = None" by (simp add: directory_find)
  then have "(directory cs)(dn := None) = directory cs" by auto
  with None ok d show ?thesis by (simp add: agent_logout_def with_temp_simps)
next
  case (Some i)
  let ?t = "with_temp (setDn dn new_Agent) cs"
  from ok have okt: "registry_ok ?t" by (rule registry_ok_with_temp)
  from Some ok have it: "find_dn dn ?t = Some i" by (simp add: find_dn_with_temp)
  from erase_agent [OF okt it] it ok Some show ?thesis
    by (simp add: agent_logout_def make_shared_eq Let_def directory_with_temp directory_find)
qed

lemma status_refines:
  assumes ok: "registry_ok cs"
  shows "registry_ok (snd (agent_status st dn cs)) \<and>
    directory (snd (agent_status st dn cs)) = spec_op (Status st dn) (directory cs) \<and>
    fst (agent_status st dn cs) = spec_found (Status st dn) (directory cs)"
proof (cases "find_dn dn cs")
  case None
  then have d: "directory cs dn = None" by (simp add: directory_find)
  then have "(directory cs)(dn := None) = directory cs" by auto
  with None ok d show ?thesis by (simp add: agent_status_def with_temp_simps)
next
  case (Some i)
  let ?t = "with_temp (setDn dn new_Agent) cs"
  from ok have okt: "registry_ok ?t" by (rule registry_ok_with_temp)
  from Some ok have it: "find_dn dn ?t = Some i" by (simp add: find_dn_with_temp)
  from find_dn_SomeD [OF it] have i: "i < length (m_listAgent ?t)" by blast
  have "registry_ok (upd (m_listAgent ?t ! i) (setAgentStatus st) ?t)"
    using okt i by (rule registry_ok_upd) simp
  moreover have "directory (upd (m_listAgent ?t ! i) (setAgentStatus st) ?t) =
      (directory ?t)(dn := map_option (setAgentStatus st) (directory ?t dn))"
    using okt it by (rule directory_upd) simp
  ultimately show ?thesis
    using it ok Some by (simp add: agent_status_def make_shared_eq Let_def directory_with_temp directory_find)
qed

interpretation dir: agent_directory registry_ok directory perform_op
proof unfold_locales
  fix cs x
  assume ok: "registry_ok cs"
  show "registry_ok (snd (perform_op x cs))"
    using ok by (cases x) (simp_all add: login_refines logout_refines status_refines)
  show "directory (snd (perform_op x cs)) = spec_op x (directory cs)"
    using ok by (cases x) (simp_all only: perform_op.simps snd_conv login_refines logout_refines status_refines)
  show "fst (perform_op x cs) = spec_found x (directory cs)"
    using ok by (cases x) (simp_all add: logout_refines status_refines)
qed

lemma registry_ok_new [simp]: "registry_ok new_CallService"
  by (simp add: registry_ok_def roster_def new_CallService_def)

lemma directory_new [simp]: "directory new_CallService = (\<lambda>dn. None)"
  by (simp add: directory_def [abs_def] roster_def new_CallService_def fun_eq_iff)

lemma list_ops_roster:
  assumes ok: "registry_ok cs"
  shows "roster (agent_login dn agent cs) =
      (case find_dn dn cs of
         None \<Rightarrow> roster cs @ [logged_in dn agent None]
       | Some i \<Rightarrow> (roster cs)[i := logged_in dn agent (Some (roster cs ! i))])" (is ?login)
    and "roster (snd (agent_logout dn cs)) =
      (case find_dn dn cs of None \<Rightarrow> roster cs | Some i \<Rightarrow> erase i (roster cs))" (is ?logout)
    and "roster (snd (agent_status st dn cs)) =
      (case find_dn dn cs of
         None \<Rightarrow> roster cs | Some i \<Rightarrow> (roster cs)[i := setAgentStatus st (roster cs ! i)])" (is ?status)
proof -
  have "?login \<and> ?logout \<and> ?status"
  proof (cases "find_dn dn cs")
    case None
    then have "directory cs (getDn (logged_in dn agent None)) = None"
      by (simp add: directory_find logged_in_def)
    from push_back(1) [OF ok this] None ok show ?thesis
      by (simp add: agent_login_def agent_logout_def agent_status_def with_temp_simps logged_in_def)
  next
    case (Some i)
    let ?a = "setAgentStatus Ready (setPolling False (setAgent agent (setDn dn new_Agent)))"
    let ?b = "setDn dn new_Agent"
    have ta: "registry_ok (with_temp ?a cs)" "find_dn dn (with_temp ?a cs) = Some i"
      and tb: "registry_ok (with_temp ?b cs)" "find_dn dn (with_temp ?b cs) = Some i"
      using ok Some by (simp_all add: registry_ok_with_temp find_dn_with_temp)
    from find_dn_SomeD [OF Some] have i: "i < length (m_listAgent cs)" by blast
    then have ia: "i < length (m_listAgent (with_temp ?a cs))" and ib: "i < length (m_listAgent (with_temp ?b cs))" by simp_all
    show ?thesis
      using Some ok ta tb registry_ok_valid [OF ta(1) ia] roster_upd [OF ta(1) ia] roster_upd [OF tb(1) ib] erase_agent(1) [OF tb]
      by (simp add: agent_login_def agent_logout_def agent_status_def make_shared_eq Let_def upd_upd
          roster_with_temp logged_in_def)
  qed
  then show ?login ?logout ?status by blast+
qed

section \<open>Properties\<close>

text \<open>
  C15. What the agent operations do to the list, in its order (the order in which calls are routed):
  a login of a new number appends, of a listed one updates in place and keeps the call identifier;
  a logout removes exactly the first agent with the number; a status change updates it in place; an
  unknown number leaves the list as it is.
\<close>
theorem agent_ops_roster:
  assumes ok: "registry_ok cs"
  shows "roster (agent_login dn agent cs) =
      (case find_dn dn cs of
         None \<Rightarrow> roster cs @ [logged_in dn agent None]
       | Some i \<Rightarrow> (roster cs)[i := logged_in dn agent (Some (roster cs ! i))]) \<and>
    roster (snd (agent_logout dn cs)) =
      (case find_dn dn cs of None \<Rightarrow> roster cs | Some i \<Rightarrow> erase i (roster cs)) \<and>
    roster (snd (agent_status st dn cs)) =
      (case find_dn dn cs of
         None \<Rightarrow> roster cs | Some i \<Rightarrow> (roster cs)[i := setAgentStatus st (roster cs ! i)])"
  using list_ops_roster [OF ok] by blast

lemma agent_ops_roster_witness:
  "roster (agent_login ''1001'' ''7'' new_CallService) = [logged_in ''1001'' ''7'' None]"
  using agent_ops_roster [OF registry_ok_new, of "''1001''" "''7''"]
  by (simp add: find_dn_def) (simp add: roster_def new_CallService_def)

text \<open>
  C16. Login then logout is a round trip: for a number that is not logged in, logging in and then
  out finds the agent and restores the directory, whatever the agent name.
\<close>
theorem login_logout_roundtrip:
  assumes ok: "registry_ok cs" and new: "directory cs dn = None"
  shows "fst (agent_logout dn (agent_login dn agent cs)) \<and>
    directory (snd (agent_logout dn (agent_login dn agent cs))) = directory cs"
proof -
  from login_refines [OF ok, of dn agent] have "registry_ok (agent_login dn agent cs)"
    and "directory (agent_login dn agent cs) = (directory cs)(dn \<mapsto> logged_in dn agent None)"
    using new by simp_all
  with logout_refines [of "agent_login dn agent cs" dn] new show ?thesis by auto
qed

lemma login_logout_roundtrip_witness:
  "fst (agent_logout ''1001'' (agent_login ''1001'' ''7'' new_CallService))"
  using login_logout_roundtrip [OF registry_ok_new, of "''1001''" "''7''"] by simp

end
