(* ===== verification/Call_Control.thy ===== *)
theory Call_Control
  imports Agent_Directory
begin

text \<open>
  The call operations and the choice of an agent (\<open>src/CallService.cpp\<close>: \<open>makecall\<close>,
  \<open>answercall\<close>, \<open>hangupcall\<close>, \<open>reset_agents\<close>, \<open>get_available_agent\<close>).  The choice is
  specified on the roster, as a function of the list of agents alone, and the code's loops over
  the shared pointers are shown to implement it; what callers observe over many calls
  (round-robin service, starvation) is then proved about that specification.
\<close>

section \<open>Call operations\<close>

text \<open>The reply of the last command is logged if it has a body.\<close>

definition log_sr_body :: "esl_handle \<Rightarrow> call_service \<Rightarrow> call_service" where
  "log_sr_body h cs =
     (case last_sr_event h of
        None \<Rightarrow> cs
      | Some ev \<Rightarrow>
          (case body ev of None \<Rightarrow> cs | Some b \<Rightarrow> emit (EslLog INFO (''%s'' @ [newline]) [Some b]) cs))"

lemma log_sr_body_fields [simp]:
  "m_bRunning (log_sr_body h cs) = m_bRunning cs" "m_listAgent (log_sr_body h cs) = m_listAgent cs"
  "m_queueEvent (log_sr_body h cs) = m_queueEvent cs" "agents (log_sr_body h cs) = agents cs"
  "g_WebsocketServer (log_sr_body h cs) = g_WebsocketServer cs"
  "m_handle (log_sr_body h cs) = m_handle cs" "m_handle_stale (log_sr_body h cs) = m_handle_stale cs"
  by (simp_all add: log_sr_body_def split: option.split)

text \<open>
  \<open>makecall\<close> sends on \<open>m_handle\<close>, the copy of the inbound thread's handle, with whatever pointer to
  a reply it holds; a fault of \<open>esl_send_recv\<close> is a fault of \<open>makecall\<close>.  After the call the reply in
  the handle is its own.  \<open>answercall\<close> starts a write on every websocket session, and fails Beast's
  assertion if one of the sessions has a write outstanding.
\<close>

definition makecall :: "send_recv \<Rightarrow> string \<Rightarrow> string \<Rightarrow> call_service \<Rightarrow> fault + int \<times> call_service" where
  "makecall send_recv dn dst cs =
     (case find_dn dn cs of
        None \<Rightarrow> Inr (-1, cs)
      | Some i \<Rightarrow>
          (let command = ''api uuid_answer '' @ getUUID (deref cs (m_listAgent cs ! i));
               cs = emit (EslSendRecv (c_str command)) cs
           in and_then (send_recv (m_handle_stale cs) (m_handle cs) (c_str command)) (\<lambda>h.
              Inr (0, log_sr_body h (cs\<lparr>m_handle := h, m_handle_stale := False\<rparr>)))))"

definition answercall :: "string \<Rightarrow> call_service \<Rightarrow> fault + int \<times> call_service" where
  "answercall dn cs =
     (case g_WebsocketServer cs of
        None \<Rightarrow> Inr (0, cs)
      | Some srv \<Rightarrow>
          if list_ex (\<lambda>s. ws_writes s \<noteq> []) (m_listSessions srv) then Inl (AssertionFailure ''async_write'')
          else (let (srv', fx) = server_do_write ''answercall'' srv
                in Inr (0, emits fx (cs\<lparr>g_WebsocketServer := Some srv'\<rparr>))))"

definition hangupcall :: "string \<Rightarrow> call_service \<Rightarrow> int \<times> call_service" where
  "hangupcall dn cs = (0, cs)"

lemma makecall_frame:
  assumes "makecall sr dn dst cs = Inr (r, cs')"
  shows "m_bRunning cs' = m_bRunning cs" "m_listAgent cs' = m_listAgent cs"
    "m_queueEvent cs' = m_queueEvent cs" "agents cs' = agents cs"
    "g_WebsocketServer cs' = g_WebsocketServer cs"
  using assms
  by (auto simp: makecall_def and_then_Inr Let_def split: option.splits)

lemma answercall_frame:
  assumes "answercall dn cs = Inr (r, cs')"
  shows "m_bRunning cs' = m_bRunning cs" "m_listAgent cs' = m_listAgent cs"
    "m_handle cs' = m_handle cs" "m_queueEvent cs' = m_queueEvent cs" "agents cs' = agents cs"
  using assms
  by (auto simp: answercall_def Let_def split: option.splits prod.splits if_splits)

lemma hangupcall_id [simp]: "hangupcall dn cs = (0, cs)"
  by (simp add: hangupcall_def)

lemma call_ops_roster:
  "makecall sr dn dst cs = Inr (r, cs') \<Longrightarrow>
     roster cs' = roster cs \<and> registry_ok cs' = registry_ok cs \<and> directory cs' = directory cs"
  "answercall dn cs = Inr (r, cs') \<Longrightarrow>
     roster cs' = roster cs \<and> registry_ok cs' = registry_ok cs \<and> directory cs' = directory cs"
  using makecall_frame [of sr dn dst cs r cs'] answercall_frame [of dn cs r cs'] roster_cong [of cs' cs]
  by simp_all

text \<open>When they fault.\<close>

lemma makecall_Inl:
  "makecall sr dn dst cs = Inl f \<longleftrightarrow>
     (\<exists>a. directory cs dn = Some a \<and>
        sr (m_handle_stale cs) (m_handle cs) (c_str (''api uuid_answer '' @ getUUID a)) = Inl f)"
proof (cases "find_dn dn cs")
  case None
  then show ?thesis by (simp add: makecall_def directory_find)
next
  case (Some i)
  with find_dn_SomeD [OF Some] show ?thesis
    by (simp add: makecall_def directory_find roster_nth and_then_Inl Let_def)
qed

definition write_outstanding :: "call_service \<Rightarrow> bool" where
  "write_outstanding cs \<longleftrightarrow>
     (case g_WebsocketServer cs of
        None \<Rightarrow> False | Some srv \<Rightarrow> list_ex (\<lambda>s. ws_writes s \<noteq> []) (m_listSessions srv))"

lemma answercall_Inl:
  "answercall dn cs = Inl f \<longleftrightarrow> write_outstanding cs \<and> f = AssertionFailure ''async_write''"
  by (auto simp: answercall_def write_outstanding_def Let_def split: option.splits prod.splits)

section \<open>Choosing an agent\<close>

definition reset_agents :: "nat option \<Rightarrow> call_service \<Rightarrow> fault + call_service" where
  "reset_agents pAgent cs =
     (case pAgent of
        None \<Rightarrow> Inl (NullDereference ''reset_agents: pAgent_'')
      | Some p \<Rightarrow> Inr (upd p (setPolling False) cs))"

text \<open>\<open>std::for_each\<close> over the list, clearing every polling flag.\<close>

definition clear_polling :: "call_service \<Rightarrow> call_service" where
  "clear_polling cs = fold (\<lambda>p. upd p (setPolling False)) (m_listAgent cs) cs"

text \<open>
  The loop of \<open>get_available_agent\<close>: print each agent, take the first that is not polled and
  ready, and stop there.
\<close>

fun take_ready :: "nat list \<Rightarrow> call_service \<Rightarrow> nat option \<times> call_service" where
  "take_ready [] cs = (None, cs)"
| "take_ready (p # ps) cs =
     (let cs = printAgent p cs
      in if getPolling (deref cs p) = False \<and> getAgentStatus (deref cs p) = Ready
         then (Some p, upd p (setPolling True) cs)
         else take_ready ps cs)"

definition get_available_agent :: "call_service \<Rightarrow> nat option \<times> call_service" where
  "get_available_agent cs =
     (let cs = (case find_if (\<lambda>p. getPolling (deref cs p) = False) (m_listAgent cs) of
                  None \<Rightarrow> clear_polling cs
                | Some _ \<Rightarrow> cs)
      in take_ready (m_listAgent cs) cs)"

text \<open>The same choice, on the list of agents.\<close>

definition eligible :: "Agent \<Rightarrow> bool" where
  "eligible a \<longleftrightarrow> getPolling a = False \<and> getAgentStatus a = Ready"

definition refreshed :: "Agent list \<Rightarrow> Agent list" where
  "refreshed as = (if list_all getPolling as then map (setPolling False) as else as)"

definition route :: "Agent list \<Rightarrow> nat option \<times> Agent list" where
  "route as =
     (case find_if eligible (refreshed as) of
        None \<Rightarrow> (None, refreshed as)
      | Some i \<Rightarrow> (Some i, (refreshed as)[i := setPolling True (refreshed as ! i)]))"

lemma agents_upd: "agents (upd p f cs) = (agents cs)[p := f (agents cs ! p)]"
  by (simp add: upd_def)

lemma fold_upd:
  assumes "distinct ps" and "list_all (\<lambda>p. p < length (agents cs)) ps"
  shows "agents (fold (\<lambda>p. upd p f) ps cs) =
      map (\<lambda>q. if q \<in> set ps then f (agents cs ! q) else agents cs ! q) [0..<length (agents cs)]"
    and "m_listAgent (fold (\<lambda>p. upd p f) ps cs) = m_listAgent cs"
  using assms
proof (induction ps arbitrary: cs)
  case Nil
  { case 1 show ?case by (simp add: map_nth) }
  { case 2 show ?case by simp }
next
  case (Cons p ps)
  { case 1
    then have "agents (fold (\<lambda>p. upd p f) ps (upd p f cs)) =
      map (\<lambda>q. if q \<in> set ps then f (agents (upd p f cs) ! q) else agents (upd p f cs) ! q)
        [0..<length (agents (upd p f cs))]"
      by (intro Cons.IH) auto
    with 1 show ?case by (auto simp: agents_upd nth_list_update intro!: map_cong) }
  { case 2
    then have "m_listAgent (fold (\<lambda>p. upd p f) ps (upd p f cs)) = m_listAgent (upd p f cs)"
      by (intro Cons.IH) auto
    then show ?case by simp }
qed

lemma clear_polling_roster:
  assumes ok: "registry_ok cs"
  shows "roster (clear_polling cs) = map (setPolling False) (roster cs)"
    and "m_listAgent (clear_polling cs) = m_listAgent cs"
    and "registry_ok (clear_polling cs)"
proof -
  from ok have v: "list_all (\<lambda>p. p < length (agents cs)) (m_listAgent cs)"
    by (simp add: registry_ok_def)
  note F = fold_upd [OF registry_ok_distinct [OF ok] v, of "setPolling False"]
  show l: "m_listAgent (clear_polling cs) = m_listAgent cs"
    by (simp add: clear_polling_def F)
  show r: "roster (clear_polling cs) = map (setPolling False) (roster cs)"
    using v by (auto simp: roster_def l deref_def clear_polling_def F list_all_iff)
  have "map getDn (map (setPolling False) (roster cs)) = map getDn (roster cs)" by (simp add: comp_def)
  then show "registry_ok (clear_polling cs)"
    using ok v by (simp add: registry_ok_def l r) (simp add: clear_polling_def F list_all_iff)
qed

lemma take_ready_spec:
  "take_ready ps cs =
     (case find_if (\<lambda>p. eligible (deref cs p)) ps of
        None \<Rightarrow> (None, fold printAgent ps cs)
      | Some i \<Rightarrow> (Some (ps ! i), upd (ps ! i) (setPolling True) (fold printAgent (take (Suc i) ps) cs)))"
  by (induction ps arbitrary: cs) (auto simp: eligible_def split: option.splits)

lemma fold_printAgent [simp]:
  "roster (fold printAgent ps cs) = roster cs" "registry_ok (fold printAgent ps cs) = registry_ok cs"
  "m_listAgent (fold printAgent ps cs) = m_listAgent cs" "agents (fold printAgent ps cs) = agents cs"
  "m_bRunning (fold printAgent ps cs) = m_bRunning cs"
  "m_handle (fold printAgent ps cs) = m_handle cs"
  "m_queueEvent (fold printAgent ps cs) = m_queueEvent cs"
  "g_WebsocketServer (fold printAgent ps cs) = g_WebsocketServer cs"
  "calls (fold printAgent ps cs) = calls cs"
  by (induction ps arbitrary: cs) simp_all

lemma take_ready_roster:
  assumes ok: "registry_ok cs"
  shows "fst (take_ready (m_listAgent cs) cs) = map_option (nth (m_listAgent cs)) (find_if eligible (roster cs)) \<and>
    roster (snd (take_ready (m_listAgent cs) cs)) =
      (case find_if eligible (roster cs) of
         None \<Rightarrow> roster cs | Some i \<Rightarrow> (roster cs)[i := setPolling True (roster cs ! i)]) \<and>
    registry_ok (snd (take_ready (m_listAgent cs) cs)) \<and>
    m_listAgent (snd (take_ready (m_listAgent cs) cs)) = m_listAgent cs"
proof -
  have f: "find_if (\<lambda>p. eligible (deref cs p)) (m_listAgent cs) = find_if eligible (roster cs)"
    by (simp add: roster_def find_if_map)
  show ?thesis
  proof (cases "find_if eligible (roster cs)")
    case None
    with f ok show ?thesis by (simp add: take_ready_spec)
  next
    case (Some i)
    let ?cs = "fold printAgent (take (Suc i) (m_listAgent cs)) cs"
    from Some have i: "i < length (m_listAgent ?cs)" by (auto dest: find_if_SomeD)
    have ok': "registry_ok ?cs" using ok by simp
    from roster_upd [OF ok' i, of "setPolling True"] registry_ok_upd [OF ok' i, of "setPolling True"] Some f
    show ?thesis by (simp add: take_ready_spec)
  qed
qed

lemma get_available_agent_route:
  assumes ok: "registry_ok cs"
  shows "fst (get_available_agent cs) = map_option (nth (m_listAgent cs)) (fst (route (roster cs))) \<and>
    roster (snd (get_available_agent cs)) = snd (route (roster cs)) \<and>
    registry_ok (snd (get_available_agent cs)) \<and>
    m_listAgent (snd (get_available_agent cs)) = m_listAgent cs"
proof -
  have f: "find_if (\<lambda>p. getPolling (deref cs p) = False) (m_listAgent cs) = find_if (\<lambda>a. \<not> getPolling a) (roster cs)"
    by (simp add: roster_def find_if_map)
  show ?thesis
  proof (cases "list_all getPolling (roster cs)")
    case True
    then have "find_if (\<lambda>a. \<not> getPolling a) (roster cs) = None" by (simp add: find_if_None list_all_iff)
    with f True take_ready_roster [OF clear_polling_roster(3) [OF ok]] clear_polling_roster [OF ok]
    show ?thesis
      by (simp add: get_available_agent_def Let_def route_def refreshed_def split: option.splits)
  next
    case False
    then have "find_if (\<lambda>a. \<not> getPolling a) (roster cs) \<noteq> None" by (simp add: find_if_None list_all_iff)
    with f False take_ready_roster [OF ok] show ?thesis
      by (auto simp: get_available_agent_def Let_def route_def refreshed_def split: option.splits)
  qed
qed

section \<open>What the choice does over many calls\<close>

text \<open>A run of \<open>n\<close> choices: whom each took, and the list afterwards.\<close>

fun routes :: "nat \<Rightarrow> Agent list \<Rightarrow> nat option list \<times> Agent list" where
  "routes 0 as = ([], as)"
| "routes (Suc n) as =
     (let (r, as) = route as; (rs, as) = routes n as in (r # rs, as))"

text \<open>The list with the first \<open>k\<close> agents flagged as polled.\<close>

definition polled_upto :: "nat \<Rightarrow> Agent list \<Rightarrow> Agent list" where
  "polled_upto k as = map (\<lambda>(i, a). setPolling (i < k) a) (enumerate 0 as)"

lemma length_polled_upto [simp]: "length (polled_upto k as) = length as"
  by (simp add: polled_upto_def)

lemma polled_upto_nth: "i < length as \<Longrightarrow> polled_upto k as ! i = setPolling (i < k) (as ! i)"
  by (simp add: polled_upto_def nth_enumerate_eq)

lemma polled_upto_full: "length as \<le> k \<Longrightarrow> list_all getPolling (polled_upto k as)"
  by (simp add: list_all_length polled_upto_nth)

lemma setPolling_twice [simp]: "setPolling b (setPolling c a) = setPolling b a"
  by (simp add: setPolling_def)

lemma refreshed_polled_upto:
  "k < length as \<Longrightarrow> refreshed (polled_upto k as) = polled_upto k as"
  "length as \<le> k \<Longrightarrow> refreshed (polled_upto k as) = polled_upto 0 as"
proof -
  assume k: "k < length as"
  then have "\<not> getPolling (polled_upto k as ! k)" by (simp add: polled_upto_nth)
  with k have "\<not> list_all getPolling (polled_upto k as)" by (auto simp: list_all_length)
  then show "refreshed (polled_upto k as) = polled_upto k as" by (simp add: refreshed_def)
next
  assume "length as \<le> k"
  then have "refreshed (polled_upto k as) = map (setPolling False) (polled_upto k as)"
    by (simp add: refreshed_def polled_upto_full)
  also have "\<dots> = polled_upto 0 as"
    by (rule nth_equalityI) (simp_all add: polled_upto_nth)
  finally show "refreshed (polled_upto k as) = polled_upto 0 as" .
qed

lemma find_if_first:
  "i < length xs \<Longrightarrow> P (xs ! i) \<Longrightarrow> (\<And>j. j < i \<Longrightarrow> \<not> P (xs ! j)) \<Longrightarrow> find_if P xs = Some i"
proof (cases "find_if P xs")
  case None
  assume "i < length xs" "P (xs ! i)"
  with None show ?thesis by (auto simp: find_if_None)
next
  case (Some j)
  assume "i < length xs" "P (xs ! i)" "\<And>j. j < i \<Longrightarrow> \<not> P (xs ! j)"
  with find_if_SomeD [OF Some] show ?thesis using Some by (metis linorder_neqE_nat)
qed

lemma route_polled_upto:
  assumes ready: "list_all (\<lambda>a. getAgentStatus a = Ready) as" and k: "k < length as"
  shows "route (polled_upto k as) = (Some k, polled_upto (Suc k) as)"
proof -
  from ready k have "find_if eligible (polled_upto k as) = Some k"
    by (intro find_if_first) (auto simp: eligible_def polled_upto_nth list_all_length)
  moreover have "(polled_upto k as)[k := setPolling True (polled_upto k as ! k)] = polled_upto (Suc k) as"
    using k by (intro nth_equalityI) (auto simp: polled_upto_nth nth_list_update less_Suc_eq)
  ultimately show ?thesis using k by (simp add: route_def refreshed_polled_upto)
qed

lemma route_polled_wrap:
  assumes ready: "list_all (\<lambda>a. getAgentStatus a = Ready) as" and ne: "as \<noteq> []"
  shows "route (polled_upto (length as) as) = (Some 0, polled_upto 1 as)"
proof -
  have "refreshed (polled_upto (length as) as) = refreshed (polled_upto 0 as)"
    using ne by (simp add: refreshed_polled_upto)
  then have "route (polled_upto (length as) as) = route (polled_upto 0 as)"
    by (simp only: route_def)
  then show ?thesis using route_polled_upto [OF ready, of 0] ne by simp
qed

text \<open>With every agent ready, the choices walk the list in order, over and over.\<close>

lemma routes_round_robin:
  assumes ready: "list_all (\<lambda>a. getAgentStatus a = Ready) as" and ne: "as \<noteq> []"
  shows "k \<le> length as \<Longrightarrow>
    fst (routes n (polled_upto k as)) = map (\<lambda>i. Some ((k + i) mod length as)) [0..<n]"
proof (induction n arbitrary: k)
  case 0
  then show ?case by simp
next
  case (Suc n)
  have split: "[0..<Suc n] = 0 # map Suc [0..<n]" by (simp add: upt_conv_Cons map_Suc_upt del: upt_Suc)
  show ?case
  proof (cases "k = length as")
    case True
    with Suc.IH [of 1] ne route_polled_wrap [OF ready ne] show ?thesis
      by (simp add: split Let_def case_prod_beta Suc_le_eq del: upt_Suc)
  next
    case False
    with Suc.prems have k: "k < length as" by simp
    with Suc.IH [of "Suc k"] route_polled_upto [OF ready k] show ?thesis
      by (simp add: split Let_def case_prod_beta del: upt_Suc)
  qed
qed

text \<open>
  Starvation: while an agent that is neither polled nor ready is listed, the flags are never
  cleared, so once the ready agents are all polled no call is routed at all.
\<close>

lemma route_blocked:
  assumes "a \<in> set as" "\<not> getPolling a" and "list_all (\<lambda>a. getPolling a \<or> getAgentStatus a \<noteq> Ready) as"
  shows "route as = (None, as)"
proof -
  from assms(1,2) have r: "refreshed as = as" by (auto simp: refreshed_def list_all_iff)
  moreover from assms(3) have "find_if eligible as = None"
    by (auto simp: find_if_None eligible_def list_all_iff)
  ultimately show ?thesis by (simp add: route_def)
qed

lemma routes_blocked:
  assumes "route as = (None, as)"
  shows "routes n as = (replicate n None, as)"
  using assms by (induction n) simp_all

text \<open>When a choice takes nobody.\<close>

lemma route_None_iff:
  "fst (route as) = None \<longleftrightarrow>
     (if list_all getPolling as then list_all (\<lambda>a. getAgentStatus a \<noteq> Ready) as
      else list_all (\<lambda>a. getPolling a \<or> getAgentStatus a \<noteq> Ready) as)"
proof -
  have "fst (route as) = None \<longleftrightarrow> find_if eligible (refreshed as) = None"
    by (simp add: route_def split: option.splits)
  then show ?thesis
    by (auto simp: find_if_None refreshed_def eligible_def list_all_iff)
qed

text \<open>Whom a choice takes, and what it changes.\<close>

lemma route_SomeD:
  assumes "fst (route as) = Some i"
  shows "i < length as" and "getAgentStatus (as ! i) = Ready"
    and "\<And>j. j < i \<Longrightarrow> getAgentStatus (as ! j) = Ready \<Longrightarrow> getPolling (as ! j) \<and> \<not> list_all getPolling as"
    and "snd (route as) = (refreshed as)[i := setPolling True (refreshed as ! i)]"
proof -
  from assms have f: "find_if eligible (refreshed as) = Some i"
    by (auto simp: route_def split: option.splits)
  have l: "length (refreshed as) = length as" by (simp add: refreshed_def)
  have st: "\<And>j. j < length as \<Longrightarrow> getAgentStatus (refreshed as ! j) = getAgentStatus (as ! j)"
    by (simp add: refreshed_def)
  from find_if_SomeD [OF f] l show i: "i < length as" by simp
  from find_if_SomeD [OF f] st [OF i] show "getAgentStatus (as ! i) = Ready"
    by (simp add: eligible_def)
  from f show "snd (route as) = (refreshed as)[i := setPolling True (refreshed as ! i)]"
    by (simp add: route_def)
  fix j
  assume j: "j < i" and r: "getAgentStatus (as ! j) = Ready"
  from find_if_SomeD [OF f] j have "\<not> eligible (refreshed as ! j)" by blast
  with r st [of j] i j have "getPolling (refreshed as ! j)" by (simp add: eligible_def)
  with i j show "getPolling (as ! j) \<and> \<not> list_all getPolling as"
    by (auto simp: refreshed_def split: if_splits)
qed

section \<open>Choices over the service state\<close>

text \<open>A run of \<open>n\<close> calls of \<open>get_available_agent\<close>.\<close>

fun picks :: "nat \<Rightarrow> call_service \<Rightarrow> nat option list \<times> call_service" where
  "picks 0 cs = ([], cs)"
| "picks (Suc n) cs =
     (let (r, cs) = get_available_agent cs; (rs, cs) = picks n cs in (r # rs, cs))"

lemma picks_routes:
  "registry_ok cs \<Longrightarrow>
     fst (picks n cs) = map (map_option (nth (m_listAgent cs))) (fst (routes n (roster cs))) \<and>
     roster (snd (picks n cs)) = snd (routes n (roster cs)) \<and> registry_ok (snd (picks n cs))"
proof (induction n arbitrary: cs)
  case 0
  then show ?case by simp
next
  case (Suc n)
  from get_available_agent_route [OF Suc.prems] Suc.IH [of "snd (get_available_agent cs)"]
  show ?case by (simp add: Let_def case_prod_beta)
qed

text \<open>Sample states for the witnesses: two agents who have logged in, the second on leave.\<close>

definition two_agents :: call_service where
  "two_agents = agent_login ''1002'' ''b'' (agent_login ''1001'' ''a'' new_CallService)"

lemma two_agents:
  "registry_ok two_agents" "roster two_agents = [logged_in ''1001'' ''a'' None, logged_in ''1002'' ''b'' None]"
proof -
  let ?one = "agent_login ''1001'' ''a'' new_CallService"
  have ok: "registry_ok ?one" by (simp add: login_refines)
  then show "registry_ok two_agents" by (simp add: two_agents_def login_refines)
  have n: "roster new_CallService = []" by (simp add: roster_def new_CallService_def)
  then have "find_dn ''1001'' new_CallService = None" by (simp add: find_dn_roster)
  with n have one: "roster ?one = [logged_in ''1001'' ''a'' None]"
    using list_ops_roster(1) [OF registry_ok_new, of "''1001''" "''a''"] by simp
  then have "find_dn ''1002'' ?one = None" by (simp add: find_dn_roster logged_in_def)
  with one show "roster two_agents = [logged_in ''1001'' ''a'' None, logged_in ''1002'' ''b'' None]"
    using list_ops_roster(1) [OF ok, of "''1002''" "''b''"] by (simp add: two_agents_def)
qed

section \<open>Properties\<close>

text \<open>
  C3. \<open>get_available_agent\<close> over the shared pointers implements the choice on the agent list: it
  returns the first agent that is not polled and ready after the flags have been cleared when all of
  them were set, sets that agent's flag, and changes nothing else in the list or its order.
\<close>
theorem get_available_agent_refines:
  assumes "registry_ok cs"
  shows "fst (get_available_agent cs) = map_option (nth (m_listAgent cs)) (fst (route (roster cs))) \<and>
    roster (snd (get_available_agent cs)) = snd (route (roster cs)) \<and>
    m_listAgent (snd (get_available_agent cs)) = m_listAgent cs \<and>
    registry_ok (snd (get_available_agent cs))"
  using get_available_agent_route [OF assms] by simp

lemma get_available_agent_refines_witness:
  "fst (get_available_agent two_agents) = Some (m_listAgent two_agents ! 0)"
  using get_available_agent_refines [OF two_agents(1)]
  by (simp add: two_agents(2) route_def refreshed_def eligible_def logged_in_def)

text \<open>
  C7. Whom a call gets: an agent that \<open>get_available_agent\<close> returns is listed and ready, and every
  ready agent before it in the list had been given a call already in the current round; afterwards
  exactly its own flag has been added to the flags (which were cleared if all were set).
\<close>
theorem get_available_agent_sound:
  assumes ok: "registry_ok cs" and r: "get_available_agent cs = (Some p, cs')"
  shows "\<exists>i < length (m_listAgent cs). p = m_listAgent cs ! i \<and> getAgentStatus (deref cs p) = Ready \<and>
    list_all (\<lambda>j. getAgentStatus (roster cs ! j) = Ready \<longrightarrow> getPolling (roster cs ! j) \<and> \<not> list_all getPolling (roster cs)) [0..<i] \<and>
    roster cs' = (refreshed (roster cs))[i := setPolling True (refreshed (roster cs) ! i)]"
proof -
  note G = get_available_agent_route [OF ok]
  from G r have s: "roster cs' = snd (route (roster cs))" by simp
  from G r have "map_option (nth (m_listAgent cs)) (fst (route (roster cs))) = Some p" by simp
  then obtain i where i: "fst (route (roster cs)) = Some i" and p: "p = m_listAgent cs ! i" by auto
  note R = route_SomeD [OF i]
  from R(1) have l: "i < length (m_listAgent cs)" by simp
  with R(2) p have "getAgentStatus (deref cs p) = Ready" by (simp add: roster_nth)
  with l p s R(3,4) show ?thesis by (auto simp: list_all_iff)
qed

lemma get_available_agent_sound_witness:
  "getAgentStatus (deref two_agents (m_listAgent two_agents ! 0)) = Ready"
proof -
  have "get_available_agent two_agents = (Some (m_listAgent two_agents ! 0), snd (get_available_agent two_agents))"
    using get_available_agent_route [OF two_agents(1)]
    by (simp add: prod_eq_iff two_agents(2) route_def refreshed_def eligible_def logged_in_def)
  from get_available_agent_sound [OF two_agents(1) this] show ?thesis by blast
qed

text \<open>
  When a call finds nobody: exactly when no agent is ready (if every flag is set, or the list is
  empty) or when every ready agent has its flag set (if some flag is not set).
\<close>
lemma get_available_agent_none:
  assumes "registry_ok cs"
  shows "fst (get_available_agent cs) = None \<longleftrightarrow>
    (if list_all getPolling (roster cs) then list_all (\<lambda>a. getAgentStatus a \<noteq> Ready) (roster cs)
     else list_all (\<lambda>a. getAgentStatus a = Ready \<longrightarrow> getPolling a) (roster cs))"
proof -
  have "(\<lambda>a. getAgentStatus a = Ready \<longrightarrow> getPolling a) = (\<lambda>a. getPolling a \<or> getAgentStatus a \<noteq> Ready)" by auto
  then show ?thesis
    using get_available_agent_route [OF assms] route_None_iff [of "roster cs"] by simp
qed

lemma get_available_agent_none_witness: "fst (get_available_agent new_CallService) = None"
  using get_available_agent_none [OF registry_ok_new] by (simp add: roster_def new_CallService_def)

text \<open>
  C8. Fair distribution: when all listed agents are ready and none has its flag set, successive
  choices serve the agents in list order, over and over, for any number of calls.
\<close>
theorem round_robin:
  assumes ok: "registry_ok cs" and ready: "list_all (\<lambda>a. getAgentStatus a = Ready \<and> \<not> getPolling a) (roster cs)"
    and ne: "m_listAgent cs \<noteq> []"
  shows "fst (picks n cs) = map (\<lambda>i. Some (m_listAgent cs ! (i mod length (m_listAgent cs)))) [0..<n]"
proof -
  have p: "polled_upto 0 (roster cs) = roster cs"
    using ready by (intro nth_equalityI) (auto simp: polled_upto_nth list_all_length agent_eqI)
  from ready have r: "list_all (\<lambda>a. getAgentStatus a = Ready) (roster cs)" by (simp add: list_all_iff)
  from ne have "roster cs \<noteq> []" by (simp add: roster_def)
  from routes_round_robin [OF r this, of 0 n] p picks_routes [OF ok, of n] show ?thesis by simp
qed

lemma round_robin_witness:
  "fst (picks 3 two_agents) =
     [Some (m_listAgent two_agents ! 0), Some (m_listAgent two_agents ! 1), Some (m_listAgent two_agents ! 0)]"
proof -
  have l: "length (m_listAgent two_agents) = 2" by (simp flip: length_roster add: two_agents(2))
  then have "m_listAgent two_agents \<noteq> []" by auto
  from round_robin [OF two_agents(1) _ this, of 3] show ?thesis
    by (simp add: two_agents(2) l logged_in_def upt_rec numeral_3_eq_3 mod_Suc)
qed

text \<open>
  C9. Starvation: as long as the list holds an agent that is not ready and has no flag, the flags are
  never cleared, so once every ready agent has had a call, no further call is routed to anyone,
  however many choices are made and however many agents are ready.
\<close>
theorem blocked_by_idle_agent:
  assumes ok: "registry_ok cs"
    and a: "a \<in> set (roster cs)" "\<not> getPolling a"
    and all: "list_all (\<lambda>a. getAgentStatus a = Ready \<longrightarrow> getPolling a) (roster cs)"
  shows "fst (picks n cs) = replicate n None \<and> roster (snd (picks n cs)) = roster cs"
proof -
  from all have "list_all (\<lambda>a. getPolling a \<or> getAgentStatus a \<noteq> Ready) (roster cs)"
    by (auto simp: list_all_iff)
  from routes_blocked [OF route_blocked [OF a this], of n] picks_routes [OF ok, of n]
  show ?thesis by (simp add: map_replicate_const)
qed

lemma blocked_by_idle_agent_witness:
  "fst (picks 5 (snd (get_available_agent (snd (agent_status leave ''1002'' two_agents))))) = replicate 5 None"
proof -
  let ?cs = "snd (agent_status leave ''1002'' two_agents)"
  let ?b = "setAgentStatus leave (logged_in ''1002'' ''b'' None)"
  have ok: "registry_ok ?cs" using status_refines [OF two_agents(1)] by blast
  have "find_dn ''1002'' two_agents = Some 1"
    by (simp add: find_dn_roster two_agents(2) logged_in_def)
  then have "roster ?cs = [logged_in ''1001'' ''a'' None, ?b]"
    using list_ops_roster(3) [OF two_agents(1), of leave "''1002''"] by (simp add: two_agents(2))
  then have r: "roster (snd (get_available_agent ?cs)) = [setPolling True (logged_in ''1001'' ''a'' None), ?b]"
    using get_available_agent_route [OF ok] by (simp add: route_def refreshed_def eligible_def logged_in_def)
  have ok': "registry_ok (snd (get_available_agent ?cs))" using get_available_agent_route [OF ok] by blast
  have "?b \<in> set (roster (snd (get_available_agent ?cs)))" by (simp add: r)
  from blocked_by_idle_agent [OF ok' this, of 5] show ?thesis by (simp add: r logged_in_def)
qed

text \<open>
  \<open>makecall\<close>: with an unknown number nothing happens and -1 is returned; with a listed one the
  answer command for the agent's call identifier is sent on the inbound handle, the handle keeps the
  reply, whose body is logged if there is one, and 0 is returned, unless sending faults.  The called
  party \<open>dst\<close> plays no part, and neither the agents nor the other components change.
\<close>
lemma makecall_effect:
  "makecall send_recv dn dst cs =
     (case directory cs dn of
        None \<Rightarrow> Inr (-1, cs)
      | Some a \<Rightarrow>
          (let cmd = c_str (''api uuid_answer '' @ getUUID a)
           in and_then (send_recv (m_handle_stale cs) (m_handle cs) cmd) (\<lambda>h.
              let reply = (case last_sr_event h of
                             None \<Rightarrow> []
                           | Some ev \<Rightarrow> (case body ev of
                               None \<Rightarrow> [] | Some b \<Rightarrow> [EslLog INFO (''%s'' @ [newline]) [Some b]]))
              in Inr (0, cs\<lparr>m_handle := h, m_handle_stale := False,
                           out := out cs @ [EslSendRecv cmd] @ reply\<rparr>))))"
proof (cases "find_dn dn cs")
  case None
  then show ?thesis by (simp add: makecall_def directory_find)
next
  case (Some i)
  then have a: "directory cs dn = Some (deref cs (m_listAgent cs ! i))"
    using find_dn_SomeD [OF Some] by (simp add: directory_find roster_nth)
  let ?cmd = "c_str (''api uuid_answer '' @ getUUID (deref cs (m_listAgent cs ! i)))"
  show ?thesis
    by (cases "send_recv (m_handle_stale cs) (m_handle cs) ?cmd")
      (simp_all add: makecall_def Some a Let_def emit_def log_sr_body_def split: option.split)
qed

text \<open>
  \<open>answercall\<close> ignores its number: when the websocket server exists it starts one write of the
  text answercall on every session ever accepted, in order, and returns 0; that leaves a write
  outstanding on each, so a second \<open>answercall\<close> before a session's write has completed faults.
\<close>
lemma answercall_broadcasts:
  assumes "answercall dn cs = Inr (r, cs')"
  shows "r = 0 \<and>
   calls cs' = calls cs @
     (case g_WebsocketServer cs of
        None \<Rightarrow> [] | Some srv \<Rightarrow> replicate (length (m_listSessions srv)) (WsWrite ''answercall'')) \<and>
   map_option (\<lambda>srv. map ws_writes (m_listSessions srv)) (g_WebsocketServer cs') =
     map_option (\<lambda>srv. replicate (length (m_listSessions srv)) [''answercall'']) (g_WebsocketServer cs)"
proof (cases "g_WebsocketServer cs")
  case None
  with assms show ?thesis by (simp add: answercall_def)
next
  case (Some srv)
  have w: "\<And>l. filter (\<lambda>e. \<not> is_cout e) (concat (map (snd \<circ> session_do_write ''answercall'') l)) =
      replicate (length l) (WsWrite ''answercall'')"
    by (induct_tac l) (simp_all add: session_defs)
  have m: "\<not> list_ex (\<lambda>s. ws_writes s \<noteq> []) l \<Longrightarrow>
      map (ws_writes \<circ> fst \<circ> session_do_write ''answercall'') l = replicate (length l) [''answercall'']" for l
    by (induction l) (simp_all add: session_defs)
  have "calls (cs\<lparr>g_WebsocketServer := w\<rparr>) = calls cs" for w by (simp add: calls_def)
  with Some w m assms show ?thesis
    by (auto simp: answercall_def server_do_write_def Let_def comp_assoc split: if_splits)
qed

end
