(* ===== verification/Rest_Server.thy ===== *)
theory Rest_Server
  imports Call_Control
begin

text \<open>
  The HTTP interface (\<open>src/CRestfulServer.cpp\<close>): the two body parsers and \<open>do_session\<close>, which
  serves one request.  Boost.Beast and RapidJSON are not part of the sources: a request and a
  response are records of the parts the code uses, and \<open>parse\<close>, a parameter, is RapidJSON's view of
  a body, of which the code observes whether it parsed, whether it is an object, and an object's
  members in order.  \<open>res0\<close>, a parameter, is the default-constructed response.
\<close>

section \<open>Requests, responses, documents\<close>

datatype verb = Verb_get | Verb_post | Verb_put | Verb_delete | Verb_other string

datatype http_status = Http_ok | Http_bad_request | Http_not_acceptable | Http_not_implemented

record http_req =
  req_verb :: verb
  req_target :: string
  req_version :: nat
  req_body :: string

record http_resp =
  rs_status :: http_status
  rs_version :: nat
  rs_content_type :: c_string
  rs_body :: string
  rs_prepared :: bool

definition response :: "http_status \<Rightarrow> nat \<Rightarrow> http_resp" where
  "response st v =
     \<lparr>rs_status = st, rs_version = v, rs_content_type = None, rs_body = [], rs_prepared = False\<rparr>"

datatype json_value = JString string | JOther

datatype json_doc = ParseError | NonObject | Object "(string \<times> json_value) list"

text \<open>
  \<open>doc.HasMember(n) && doc[n].IsString()\<close> and \<open>doc[n].GetString()\<close>: the first member with the
  name, when it is a string; \<open>GetString\<close> is a C string.  \<open>HasMember\<close> requires an object and
  asserts it.
\<close>

definition string_member :: "string \<Rightarrow> json_doc \<Rightarrow> fault + string option" where
  "string_member n doc =
     (case doc of
        Object ms \<Rightarrow> Inr (case map_of ms n of Some (JString s) \<Rightarrow> Some (c_str s) | _ \<Rightarrow> None)
      | _ \<Rightarrow> Inl (AssertionFailure ''IsObject()''))"

definition body_not_acceptable :: string where
  \<open>body_not_acceptable = ''{"code":-1,"msg": "Data not acceptable."}''\<close>

definition body_success :: string where
  \<open>body_success = ''{"code": 0,"msg":"success."}''\<close>

definition body_dn_not_found :: string where
  \<open>body_dn_not_found = ''{"code":-1,"msg": "Dn Not Found."}''\<close>

definition body_users :: string where
  \<open>body_users = ''{"users": ["Alice", "Bob"]}''\<close>

definition body_get_not_found :: string where
  \<open>body_get_not_found = ''{"code":-1,"msg": "Method Not Found."}''\<close>

definition body_post_not_found :: string where
  \<open>body_post_not_found = ''{"code":-1,"msg": "Method Not Found"}''\<close>

section \<open>The body parsers\<close>

text \<open>
  Both parsers return whether they accepted, and what they left in their reference parameters.
\<close>

definition parseCalldata ::
  "(string \<Rightarrow> json_doc) \<Rightarrow> http_req \<Rightarrow> string \<Rightarrow> string \<Rightarrow> http_resp \<Rightarrow>
     fault + (bool \<times> string \<times> string \<times> http_resp)" where
  "parseCalldata parse req dn dst res =
     (let doc = parse (c_str (req_body req));
          reject = (response Http_not_acceptable (req_version req))\<lparr>rs_body := body_not_acceptable\<rparr>
      in if doc = ParseError then Inr (False, dn, dst, reject)
         else and_then (string_member ''dn'' doc) (\<lambda>m.
              let dn = (case m of Some s \<Rightarrow> s | None \<Rightarrow> dn)
              in and_then (string_member ''callee'' doc) (\<lambda>m.
              let dst = (case m of Some s \<Rightarrow> s | None \<Rightarrow> dst)
              in if dn = [] \<and> dst = [] then Inr (False, dn, dst, reject)
                 else Inr (True, dn, dst, res))))"

definition parseAgent ::
  "(string \<Rightarrow> json_doc) \<Rightarrow> http_req \<Rightarrow> string \<Rightarrow> string \<Rightarrow> http_resp \<Rightarrow>
     fault + (bool \<times> string \<times> string \<times> http_resp)" where
  "parseAgent parse req dn agent res =
     (let doc = parse (c_str (req_body req));
          reject = (response Http_not_acceptable (req_version req))\<lparr>rs_body := body_not_acceptable\<rparr>
      in if doc = ParseError then Inr (False, dn, agent, reject)
         else and_then (string_member ''dn'' doc) (\<lambda>m.
              let dn = (case m of Some s \<Rightarrow> s | None \<Rightarrow> dn)
              in and_then (string_member ''agent'' doc) (\<lambda>m.
              let agent = (case m of Some s \<Rightarrow> s | None \<Rightarrow> agent);
                  agent = (if agent = [] then ''9'' @ dn else agent)
              in if dn = [] \<and> agent = [] then Inr (False, dn, agent, reject)
                 else Inr (True, dn, agent, res))))"

section \<open>Serving one request\<close>

text \<open>Each route returns the response object and the service state.\<close>

definition reply :: "http_req \<Rightarrow> bool \<Rightarrow> http_resp" where
  "reply req found =
     (if found then (response Http_ok (req_version req))\<lparr>rs_body := body_success\<rparr>
      else (response Http_bad_request (req_version req))\<lparr>rs_body := body_dn_not_found\<rparr>)"

definition route_login ::
  "(string \<Rightarrow> json_doc) \<Rightarrow> http_req \<Rightarrow> http_resp \<Rightarrow> call_service \<Rightarrow> fault + http_resp \<times> call_service" where
  "route_login parse req res cs =
     and_then (parseAgent parse req [] [] res) (\<lambda>(ok, dn, agent, res).
       if ok then Inr (reply req True, agent_login dn agent cs) else Inr (res, cs))"

definition route_logout ::
  "(string \<Rightarrow> json_doc) \<Rightarrow> http_req \<Rightarrow> http_resp \<Rightarrow> call_service \<Rightarrow> fault + http_resp \<times> call_service" where
  "route_logout parse req res cs =
     and_then (parseAgent parse req [] [] res) (\<lambda>(ok, dn, agent, res).
       if ok then (let (found, cs) = agent_logout dn cs in Inr (reply req found, cs)) else Inr (res, cs))"

definition route_ready ::
  "(string \<Rightarrow> json_doc) \<Rightarrow> http_req \<Rightarrow> http_resp \<Rightarrow> call_service \<Rightarrow> fault + http_resp \<times> call_service" where
  "route_ready parse req res cs =
     and_then (parseAgent parse req [] [] res) (\<lambda>(ok, dn, agent, res).
       if ok then (let (found, cs) = agent_status Ready dn cs in Inr (reply req found, cs)) else Inr (res, cs))"

definition route_notReady ::
  "(string \<Rightarrow> json_doc) \<Rightarrow> http_req \<Rightarrow> http_resp \<Rightarrow> call_service \<Rightarrow> fault + http_resp \<times> call_service" where
  "route_notReady parse req res cs =
     and_then (parseAgent parse req [] [] res) (\<lambda>(ok, dn, agent, res).
       if ok then (let (found, cs) = agent_status notReady dn cs in Inr (reply req found, cs)) else Inr (res, cs))"

definition route_leave ::
  "(string \<Rightarrow> json_doc) \<Rightarrow> http_req \<Rightarrow> http_resp \<Rightarrow> call_service \<Rightarrow> fault + http_resp \<times> call_service" where
  "route_leave parse req res cs =
     and_then (parseAgent parse req [] [] res) (\<lambda>(ok, dn, agent, res).
       if ok then (let (found, cs) = agent_status leave dn cs in Inr (reply req found, cs)) else Inr (res, cs))"

text \<open>The call routes ignore what the call operation returns.\<close>

definition route_makecall ::
  "(string \<Rightarrow> json_doc) \<Rightarrow> send_recv \<Rightarrow> http_req \<Rightarrow> http_resp \<Rightarrow> call_service \<Rightarrow>
     fault + http_resp \<times> call_service" where
  "route_makecall parse send_recv req res cs =
     and_then (parseCalldata parse req [] [] res) (\<lambda>(ok, dn, obj, res).
       if ok then and_then (makecall send_recv dn obj cs) (\<lambda>(ret, cs). Inr (res, cs)) else Inr (res, cs))"

definition route_answer ::
  "(string \<Rightarrow> json_doc) \<Rightarrow> http_req \<Rightarrow> http_resp \<Rightarrow> call_service \<Rightarrow> fault + http_resp \<times> call_service" where
  "route_answer parse req res cs =
     and_then (parseAgent parse req [] [] res) (\<lambda>(ok, dn, agent, res).
       if ok then and_then (answercall dn cs) (\<lambda>(ret, cs). Inr (res, cs)) else Inr (res, cs))"

definition route_hangup ::
  "(string \<Rightarrow> json_doc) \<Rightarrow> http_req \<Rightarrow> http_resp \<Rightarrow> call_service \<Rightarrow> fault + http_resp \<times> call_service" where
  "route_hangup parse req res cs =
     and_then (parseAgent parse req [] [] res) (\<lambda>(ok, dn, agent, res).
       if ok then Inr (res, snd (hangupcall dn cs)) else Inr (res, cs))"

definition serve_post ::
  "(string \<Rightarrow> json_doc) \<Rightarrow> send_recv \<Rightarrow> http_req \<Rightarrow> http_resp \<Rightarrow> call_service \<Rightarrow>
     fault + http_resp \<times> call_service" where
  "serve_post parse send_recv req res cs =
     (if req_target req = ''/agent/login'' then route_login parse req res cs
      else if req_target req = ''/agent/logout'' then route_logout parse req res cs
      else if req_target req = ''/agent/ready'' then route_ready parse req res cs
      else if req_target req = ''/agent/notReady'' then route_notReady parse req res cs
      else if req_target req = ''/agent/leave'' then route_leave parse req res cs
      else if req_target req = ''/call/makecall'' then route_makecall parse send_recv req res cs
      else if req_target req = ''/call/answer'' then route_answer parse req res cs
      else if req_target req = ''/call/hangup'' then route_hangup parse req res cs
      else Inr ((response Http_bad_request (req_version req))
                  \<lparr>rs_content_type := Some ''application/json'', rs_body := body_post_not_found\<rparr>, cs))"

definition serve ::
  "(string \<Rightarrow> json_doc) \<Rightarrow> send_recv \<Rightarrow> http_req \<Rightarrow> http_resp \<Rightarrow> call_service \<Rightarrow>
     fault + http_resp \<times> call_service" where
  "serve parse send_recv req res cs =
     (case req_verb req of
        Verb_get \<Rightarrow>
          if req_target req = ''/users''
          then Inr ((response Http_ok (req_version req))\<lparr>rs_body := body_users\<rparr>, cs)
          else Inr ((response Http_bad_request (req_version req))\<lparr>rs_body := body_get_not_found\<rparr>, cs)
      | Verb_post \<Rightarrow> serve_post parse send_recv req res cs
      | Verb_put \<Rightarrow> Inr (res, cs)
      | Verb_delete \<Rightarrow> Inr (res, cs)
      | Verb_other _ \<Rightarrow> Inr (response Http_not_implemented (req_version req), cs))"

text \<open>
  One session: \<open>received\<close> is what \<open>http::read\<close> delivers, an error code or a request; \<open>sent\<close> is the
  error \<open>http::write\<close> throws, if any.  The exception handler prints it; a failed assertion is not
  an exception and leaves as a fault.
\<close>

definition do_session ::
  "(string \<Rightarrow> json_doc) \<Rightarrow> send_recv \<Rightarrow> http_resp \<Rightarrow> string + http_req \<Rightarrow> error_code \<Rightarrow>
     call_service \<Rightarrow> fault + http_resp option \<times> call_service" where
  "do_session parse send_recv res0 received sent cs =
     (let cs = cout_line [''hello from CallService''] cs;
          res = res0\<lparr>rs_content_type := Some ''application/json''\<rparr>
      in case received of
           Inl ec \<Rightarrow> Inr (None, cs)
         | Inr req \<Rightarrow>
             and_then (serve parse send_recv req res cs) (\<lambda>(res, cs).
               let res = res\<lparr>rs_prepared := True\<rparr>
               in case sent of
                    None \<Rightarrow> Inr (Some res, cs)
                  | Some what \<Rightarrow> Inr (None, cout_line [what] cs)))"

text \<open>
  \<open>CRestfulServer::runner\<close> accepts connections for ever and serves each in its own thread; the
  model serves the sessions one after the other in the order in which they are scheduled.  A fault
  ends the process.
\<close>

fun run_sessions ::
  "(string \<Rightarrow> json_doc) \<Rightarrow> send_recv \<Rightarrow> http_resp \<Rightarrow>
     ((string + http_req) \<times> error_code) list \<Rightarrow> call_service \<Rightarrow> fault + call_service" where
  "run_sessions parse send_recv res0 [] cs = Inr cs"
| "run_sessions parse send_recv res0 ((received, sent) # xs) cs =
     and_then (do_session parse send_recv res0 received sent cs)
       (\<lambda>(r, cs). run_sessions parse send_recv res0 xs cs)"

section \<open>What the parsers accept\<close>

fun member_or :: "string \<Rightarrow> (string \<times> json_value) list \<Rightarrow> string \<Rightarrow> string" where
  "member_or n ms d = (case map_of ms n of Some (JString s) \<Rightarrow> c_str s | _ \<Rightarrow> d)"

lemma string_member_Object:
  "string_member n (Object ms) =
     Inr (case map_of ms n of Some (JString s) \<Rightarrow> Some (c_str s) | _ \<Rightarrow> None)"
  by (simp add: string_member_def)

lemma parseAgent_Object:
  assumes "parse (c_str (req_body req)) = Object ms"
  shows "parseAgent parse req dn agent res =
    Inr (True, member_or ''dn'' ms dn,
         (if member_or ''agent'' ms agent = [] then ''9'' @ member_or ''dn'' ms dn
          else member_or ''agent'' ms agent), res)"
  using assms
  by (auto simp: parseAgent_def Let_def string_member_Object split: option.splits json_value.splits)

lemma parseAgent_ParseError:
  assumes "parse (c_str (req_body req)) = ParseError"
  shows "parseAgent parse req dn agent res =
    Inr (False, dn, agent, (response Http_not_acceptable (req_version req))\<lparr>rs_body := body_not_acceptable\<rparr>)"
  using assms by (simp add: parseAgent_def)

lemma parseAgent_NonObject:
  assumes "parse (c_str (req_body req)) = NonObject"
  shows "parseAgent parse req dn agent res = Inl (AssertionFailure ''IsObject()'')"
  using assms by (simp add: parseAgent_def string_member_def)

lemma parseCalldata_Object:
  assumes "parse (c_str (req_body req)) = Object ms"
  shows "parseCalldata parse req dn dst res =
    (if member_or ''dn'' ms dn = [] \<and> member_or ''callee'' ms dst = []
     then Inr (False, [], [], (response Http_not_acceptable (req_version req))\<lparr>rs_body := body_not_acceptable\<rparr>)
     else Inr (True, member_or ''dn'' ms dn, member_or ''callee'' ms dst, res))"
  using assms
  by (auto simp: parseCalldata_def Let_def string_member_Object split: option.splits json_value.splits)

lemma parseCalldata_ParseError:
  assumes "parse (c_str (req_body req)) = ParseError"
  shows "parseCalldata parse req dn dst res =
    Inr (False, dn, dst, (response Http_not_acceptable (req_version req))\<lparr>rs_body := body_not_acceptable\<rparr>)"
  using assms by (simp add: parseCalldata_def)

lemma parseCalldata_NonObject:
  assumes "parse (c_str (req_body req)) = NonObject"
  shows "parseCalldata parse req dn dst res = Inl (AssertionFailure ''IsObject()'')"
  using assms by (simp add: parseCalldata_def string_member_def)

lemmas parse_simps = parseAgent_Object parseAgent_ParseError parseAgent_NonObject
  parseCalldata_Object parseCalldata_ParseError parseCalldata_NonObject

section \<open>The requests as operations on the directory\<close>

text \<open>The directory operation a request asks for, if it asks for one.\<close>

definition agent_op :: "string \<Rightarrow> string \<Rightarrow> string \<Rightarrow> dir_op option" where
  "agent_op target dn agent =
     (if target = ''/agent/login'' then Some (Login dn agent)
      else if target = ''/agent/logout'' then Some (Logout dn)
      else if target = ''/agent/ready'' then Some (Status Ready dn)
      else if target = ''/agent/notReady'' then Some (Status notReady dn)
      else if target = ''/agent/leave'' then Some (Status leave dn)
      else None)"

definition request_op :: "(string \<Rightarrow> json_doc) \<Rightarrow> http_req \<Rightarrow> dir_op option" where
  "request_op parse req =
     (case parse (c_str (req_body req)) of
        Object ms \<Rightarrow>
          if req_verb req = Verb_post
          then (let dn = member_or ''dn'' ms []; agent = member_or ''agent'' ms []
                in agent_op (req_target req) dn (if agent = [] then ''9'' @ dn else agent))
          else None
      | _ \<Rightarrow> None)"

definition spec_request :: "dir_op option \<Rightarrow> (string \<Rightarrow> Agent option) \<Rightarrow> (string \<Rightarrow> Agent option)" where
  "spec_request x m = (case x of None \<Rightarrow> m | Some x \<Rightarrow> spec_op x m)"

text \<open>The targets whose handlers parse the body.\<close>

definition parsed_targets :: "string list" where
  "parsed_targets = [''/agent/login'', ''/agent/logout'', ''/agent/ready'', ''/agent/notReady'',
     ''/agent/leave'', ''/call/makecall'', ''/call/answer'', ''/call/hangup'']"

lemmas route_defs = route_login_def route_logout_def route_ready_def route_notReady_def
  route_leave_def route_makecall_def route_answer_def route_hangup_def

lemma serve_post_agent_op:
  assumes p: "parse (c_str (req_body req)) = Object ms"
    and x: "agent_op (req_target req) (member_or ''dn'' ms [])
      (if member_or ''agent'' ms [] = [] then ''9'' @ member_or ''dn'' ms [] else member_or ''agent'' ms []) = Some x"
  shows "serve_post parse sr req res cs = Inr (reply req (fst (perform_op x cs)), snd (perform_op x cs))"
  using x unfolding agent_op_def serve_post_def
  by (auto simp: route_defs parseAgent_Object [of parse req ms, OF p] case_prod_beta simp del: member_or.simps
      split: if_splits)

lemma serve_post_other:
  assumes p: "parse (c_str (req_body req)) = Object ms"
    and x: "agent_op (req_target req) dn agent = None" and s: "serve_post parse sr req res cs = Inr (r, cs')"
  shows "registry_ok cs' = registry_ok cs \<and> directory cs' = directory cs"
  using x s unfolding agent_op_def serve_post_def
  by (auto simp: route_defs parseAgent_Object [of parse req ms, OF p] parseCalldata_Object [of parse req ms, OF p]
      and_then_Inr simp del: member_or.simps dest!: call_ops_roster split: if_splits)

text \<open>When a route that does not act on the directory faults.\<close>

definition call_fault :: "send_recv \<Rightarrow> string \<Rightarrow> (string \<times> json_value) list \<Rightarrow> call_service \<Rightarrow> fault \<Rightarrow> bool" where
  "call_fault sr target ms cs f \<longleftrightarrow>
     target = ''/call/makecall'' \<and> (member_or ''dn'' ms [] \<noteq> [] \<or> member_or ''callee'' ms [] \<noteq> []) \<and>
       (\<exists>a. directory cs (member_or ''dn'' ms []) = Some a \<and>
          sr (m_handle_stale cs) (m_handle cs) (c_str (''api uuid_answer '' @ getUUID a)) = Inl f) \<or>
     target = ''/call/answer'' \<and> write_outstanding cs \<and> f = AssertionFailure ''async_write''"

lemma serve_post_other_fault:
  assumes p: "parse (c_str (req_body req)) = Object ms"
    and x: "agent_op (req_target req) dn agent = None"
  shows "serve_post parse sr req res cs = Inl f \<longleftrightarrow> call_fault sr (req_target req) ms cs f"
  using x unfolding agent_op_def serve_post_def call_fault_def
  by (auto simp: route_defs parseAgent_Object [of parse req ms, OF p] parseCalldata_Object [of parse req ms, OF p]
      and_then_Inl makecall_Inl answercall_Inl case_prod_beta simp del: member_or.simps split: if_splits)

lemma serve_post_ParseError:
  assumes p: "parse (c_str (req_body req)) = ParseError"
  shows "\<exists>r. serve_post parse sr req res cs = Inr (r, cs)"
  unfolding serve_post_def
  by (auto simp: route_defs parseAgent_ParseError [of parse req, OF p] parseCalldata_ParseError [of parse req, OF p])

lemma serve_post_NonObject:
  assumes p: "parse (c_str (req_body req)) = NonObject"
  shows "serve_post parse sr req res cs =
    (if req_target req \<in> set parsed_targets then Inl (AssertionFailure ''IsObject()'')
     else Inr ((response Http_bad_request (req_version req))
                  \<lparr>rs_content_type := Some ''application/json'', rs_body := body_post_not_found\<rparr>, cs))"
  unfolding serve_post_def parsed_targets_def
  by (simp add: route_defs parseAgent_NonObject [of parse req, OF p] parseCalldata_NonObject [of parse req, OF p])

section \<open>The sessions implement the directory's requests\<close>

lemma reply_agent_op:
  assumes ok: "registry_ok cs"
  shows "registry_ok (snd (perform_op x cs))" "directory (snd (perform_op x cs)) = spec_op x (directory cs)"
  using dir.invar_perform [OF ok] dir.lookup_perform [OF ok] by simp_all

lemma serve_refines:
  assumes ok: "registry_ok cs" and s: "serve parse sr req res cs = Inr (r, cs')"
  shows "registry_ok cs' \<and> directory cs' = spec_request (request_op parse req) (directory cs)"
proof (cases "req_verb req = Verb_post")
  case False
  with s ok show ?thesis
    by (auto simp: serve_def request_op_def spec_request_def split: verb.splits if_splits json_doc.splits)
next
  case True
  with s have s: "serve_post parse sr req res cs = Inr (r, cs')" by (simp add: serve_def)
  show ?thesis
  proof (cases "parse (c_str (req_body req))")
    case ParseError
    with serve_post_ParseError [of parse req sr res cs] s ok show ?thesis
      by (auto simp: request_op_def spec_request_def)
  next
    case NonObject
    with serve_post_NonObject [of parse req sr res cs] s ok show ?thesis
      by (auto simp: request_op_def spec_request_def split: if_splits)
  next
    case (Object ms)
    let ?dn = "member_or ''dn'' ms []" and ?ag = "member_or ''agent'' ms []"
    let ?x = "agent_op (req_target req) ?dn (if ?ag = [] then ''9'' @ ?dn else ?ag)"
    have rq: "request_op parse req = ?x"
      using Object True by (simp add: request_op_def Let_def del: member_or.simps)
    show ?thesis
    proof (cases ?x)
      case None
      with serve_post_other [of parse req ms, OF Object None, of sr res cs] s ok rq show ?thesis
        by (auto simp: spec_request_def simp del: member_or.simps)
    next
      case (Some x)
      with serve_post_agent_op [of parse req ms, OF Object Some, of sr res cs] s rq reply_agent_op [OF ok, of x]
      show ?thesis by (auto simp: spec_request_def simp del: member_or.simps)
    qed
  qed
qed

lemma do_session_Inr:
  assumes ok: "registry_ok cs" and s: "do_session parse sr res0 received sent cs = Inr (r, cs')"
  shows "registry_ok cs' \<and> directory cs' =
    (case received of Inl _ \<Rightarrow> directory cs | Inr req \<Rightarrow> spec_request (request_op parse req) (directory cs))"
proof (cases received)
  case (Inl ec)
  with s ok show ?thesis by (auto simp: do_session_def)
next
  case (Inr req)
  let ?cs = "cout_line [''hello from CallService''] cs"
  let ?res = "res0\<lparr>rs_content_type := Some ''application/json''\<rparr>"
  from s Inr obtain r1 cs1 where s1: "serve parse sr req ?res ?cs = Inr (r1, cs1)"
    and c: "cs' = cs1 \<or> (\<exists>w. cs' = cout_line [w] cs1)"
    by (auto simp: do_session_def and_then_Inr split: option.splits)
  from serve_refines [OF _ s1] ok Inr c show ?thesis by auto
qed


text \<open>The directory operations of a list of sessions, in order.\<close>

definition session_op :: "(string \<Rightarrow> json_doc) \<Rightarrow> (string + http_req) \<times> error_code \<Rightarrow> dir_op option" where
  "session_op parse x = (case fst x of Inl _ \<Rightarrow> None | Inr req \<Rightarrow> request_op parse req)"

lemma do_session_op:
  assumes "registry_ok cs" and "do_session parse sr res0 (fst x) sent cs = Inr (r, cs')"
  shows "registry_ok cs' \<and> directory cs' = spec_request (session_op parse x) (directory cs)"
  using do_session_Inr [OF assms] by (simp add: session_op_def spec_request_def split: sum.splits)

lemma run_sessions_fold:
  "registry_ok cs \<Longrightarrow> run_sessions parse sr res0 xs cs = Inr cs' \<Longrightarrow>
     registry_ok cs' \<and> directory cs' = fold (\<lambda>x. spec_request (session_op parse x)) xs (directory cs)"
proof (induction xs arbitrary: cs)
  case Nil
  then show ?case by simp
next
  case (Cons x xs)
  obtain rc sent where x: "x = (rc, sent)" by (cases x)
  from Cons.prems(2) x obtain r cs1 where s: "do_session parse sr res0 rc sent cs = Inr (r, cs1)"
    and rest: "run_sessions parse sr res0 xs cs1 = Inr cs'"
    by (auto simp: and_then_Inr)
  from do_session_op [OF Cons.prems(1), of parse sr res0 x sent r cs1] s x
  have "registry_ok cs1" "directory cs1 = spec_request (session_op parse x) (directory cs)" by simp_all
  with Cons.IH [OF _ rest] show ?case by simp
qed

lemma fold_spec_request:
  "fold (\<lambda>x. spec_request (f x)) xs m = fold spec_op (List.map_filter f xs) m"
  by (induction xs arbitrary: m) (auto simp: spec_request_def List.map_filter_simps split: option.splits)

text \<open>When a request faults, and with what.\<close>

definition request_fault :: "(string \<Rightarrow> json_doc) \<Rightarrow> send_recv \<Rightarrow> http_req \<Rightarrow> call_service \<Rightarrow> fault \<Rightarrow> bool" where
  "request_fault parse sr req cs f \<longleftrightarrow> req_verb req = Verb_post \<and>
     (case parse (c_str (req_body req)) of
        ParseError \<Rightarrow> False
      | NonObject \<Rightarrow> req_target req \<in> set parsed_targets \<and> f = AssertionFailure ''IsObject()''
      | Object ms \<Rightarrow> call_fault sr (req_target req) ms cs f)"

lemma serve_Inl:
  "serve parse sr req res cs = Inl f \<longleftrightarrow> request_fault parse sr req cs f"
proof (cases "req_verb req = Verb_post")
  case False
  then show ?thesis by (auto simp: serve_def request_fault_def split: verb.splits)
next
  case True
  then have e: "serve parse sr req res cs = serve_post parse sr req res cs" by (simp add: serve_def)
  show ?thesis
  proof (cases "parse (c_str (req_body req))")
    case ParseError
    with serve_post_ParseError [of parse req sr res cs] show ?thesis by (auto simp: e request_fault_def)
  next
    case n: NonObject
    then show ?thesis using True by (auto simp: e request_fault_def serve_post_NonObject [of parse req, OF n])
  next
    case (Object ms)
    let ?x = "agent_op (req_target req) (member_or ''dn'' ms [])
       (if member_or ''agent'' ms [] = [] then ''9'' @ member_or ''dn'' ms [] else member_or ''agent'' ms [])"
    show ?thesis
    proof (cases ?x)
      case None
      with serve_post_other_fault [of parse req ms, OF Object None, of sr res cs f] True Object show ?thesis
        by (simp add: e request_fault_def)
    next
      case (Some x)
      then have "\<not> call_fault sr (req_target req) ms cs f" by (auto simp: call_fault_def agent_op_def)
      with serve_post_agent_op [of parse req ms, OF Object Some, of sr res cs] Object show ?thesis
        by (simp add: e request_fault_def)
    qed
  qed
qed

lemma request_fault_cout_line [simp]:
  "request_fault parse sr req (cout_line ss cs) f = request_fault parse sr req cs f"
  by (simp add: request_fault_def call_fault_def write_outstanding_def split: json_doc.split)

lemma do_session_Inl:
  "do_session parse sr res0 (Inr req) sent cs = Inl f \<longleftrightarrow> request_fault parse sr req cs f"
  by (auto simp: do_session_def and_then_Inl serve_Inl split: option.splits)

section \<open>Properties\<close>

text \<open>Sample data for the witnesses: a parser that knows two bodies, a request and a response.\<close>

definition sample_parse :: "string \<Rightarrow> json_doc" where
  "sample_parse b =
     (if b = ''1001'' then Object [(''dn'', JString ''1001''), (''agent'', JString ''7'')]
      else if b = ''[]'' then NonObject else ParseError)"

definition sample_req :: "string \<Rightarrow> http_req" where
  "sample_req target = \<lparr>req_verb = Verb_post, req_target = target, req_version = 11, req_body = ''1001''\<rparr>"

definition sample_res :: http_resp where
  "sample_res = response Http_ok 11"

lemmas sample_defs = sample_parse_def sample_req_def sample_res_def

lemma sample_request_op: "request_op sample_parse (sample_req ''/agent/login'') = Some (Login ''1001'' ''7'')"
  by (simp add: sample_defs request_op_def agent_op_def c_str_def)

lemma sample_session_total:
  assumes "t = ''/agent/login'' \<or> t = ''/agent/logout''"
  shows "\<exists>cs'. run_sessions sample_parse sr sample_res [(Inr (sample_req t), None)] cs = Inr cs'"
proof -
  have "\<not> (\<exists>f. do_session sample_parse sr sample_res (Inr (sample_req t)) None cs = Inl f)"
    using assms
    by (simp add: do_session_Inl request_fault_def) (auto simp: sample_defs c_str_def call_fault_def)
  then show ?thesis
    by (cases "do_session sample_parse sr sample_res (Inr (sample_req t)) None cs") auto
qed

text \<open>
  C2. The HTTP interface implements the agent directory: any sequence of HTTP sessions that ends
  without a fault keeps the invariant of the agent list (valid pointers, distinct numbers), and
  leaves the directory as the specified operations do, those that the requests' targets and bodies
  ask for, in order; sessions that fail to be read, requests of other verbs and targets and bodies
  that do not parse change nothing.
\<close>
theorem run_sessions_refine:
  assumes "registry_ok cs" and "run_sessions parse sr res0 xs cs = Inr cs'"
  shows "registry_ok cs' \<and> directory cs' = fold spec_op (List.map_filter (session_op parse) xs) (directory cs)"
  using run_sessions_fold [OF assms] by (simp add: fold_spec_request)

lemma run_sessions_refine_witness:
  "\<exists>cs'. run_sessions sample_parse (\<lambda>stale h cmd. Inr h) sample_res [(Inr (sample_req ''/agent/login''), None)] new_CallService = Inr cs' \<and>
     registry_ok cs' \<and> directory cs' = spec_op (Login ''1001'' ''7'') (directory new_CallService)"
proof -
  obtain cs' where r: "run_sessions sample_parse (\<lambda>stale h cmd. Inr h) sample_res [(Inr (sample_req ''/agent/login''), None)] new_CallService = Inr cs'"
    using sample_session_total by blast
  from run_sessions_refine [OF registry_ok_new r] r show ?thesis
    by (auto simp: List.map_filter_simps session_op_def sample_request_op simp del: run_sessions.simps)
qed

text \<open>
  C14. Requests are independent per number: after any sequence of HTTP sessions the entry of a number
  is what the operations on that number alone make of its old entry; requests about other numbers
  do not matter to it, in whatever order they come in between.
\<close>
theorem sessions_independent:
  assumes "registry_ok cs" and "run_sessions parse sr res0 xs cs = Inr cs'"
  shows "directory cs' dn =
    fold spec_op (filter (\<lambda>x. op_dn x = dn) (List.map_filter (session_op parse) xs)) (directory cs) dn"
proof -
  from run_sessions_fold [OF assms]
  have "directory cs' dn = fold spec_op (List.map_filter (session_op parse) xs) (directory cs) dn"
    by (simp add: fold_spec_request)
  also note spec_ops_independent [OF refl]
  finally show ?thesis .
qed

lemma sessions_independent_witness:
  "\<exists>cs'. run_sessions sample_parse (\<lambda>stale h cmd. Inr h) sample_res [(Inr (sample_req ''/agent/login''), None)] new_CallService = Inr cs' \<and>
     directory cs' ''1002'' = directory new_CallService ''1002''"
proof -
  obtain cs' where r: "run_sessions sample_parse (\<lambda>stale h cmd. Inr h) sample_res [(Inr (sample_req ''/agent/login''), None)] new_CallService = Inr cs'"
    using sample_session_total by blast
  from sessions_independent [OF registry_ok_new r, of "''1002''"] r show ?thesis
    by (auto simp: List.map_filter_simps session_op_def sample_request_op simp del: run_sessions.simps)
qed

text \<open>
  C13. The faults of an HTTP session, each with its cause: a POST to one of the eight routes that parse
  a body, with a body that is JSON but not an object, fails RapidJSON's assertion; a POST to
  /call/makecall that is accepted (a number or a callee is given) and whose number is logged in ends
  in whatever fault \<open>esl_send_recv\<close> has on the service's copy of the inbound handle, with its reply
  pointer stale or not (it is stale once the inbound connection is up, see
  \<open>inbound_handle_stale\<close> in \<open>Startup\<close>); an accepted POST to /call/answer fails Beast's assertion when
  some websocket session still has a write outstanding.  Every other session ends normally, whatever
  was received and whether or not the response could be sent.  Not part of the session: what the
  websocket thread later reads through the buffers of the writes that /call/answer started, whose
  string has been destroyed by then.
\<close>
theorem do_session_faults:
  "do_session parse sr res0 received sent cs = Inl f \<longleftrightarrow>
   (\<exists>req. received = Inr req \<and> req_verb req = Verb_post \<and>
      (case parse (c_str (req_body req)) of
         ParseError \<Rightarrow> False
       | NonObject \<Rightarrow> req_target req \<in> set parsed_targets \<and> f = AssertionFailure ''IsObject()''
       | Object ms \<Rightarrow>
           req_target req = ''/call/makecall'' \<and> 0 < length (member_or ''dn'' ms [] @ member_or ''callee'' ms []) \<and>
             (\<exists>a. directory cs (member_or ''dn'' ms []) = Some a \<and>
                sr (m_handle_stale cs) (m_handle cs) (c_str (''api uuid_answer '' @ getUUID a)) = Inl f) \<or>
           req_target req = ''/call/answer'' \<and>
             (\<exists>srv. g_WebsocketServer cs = Some srv \<and> list_ex (\<lambda>s. 0 < length (ws_writes s)) (m_listSessions srv)) \<and>
             f = AssertionFailure ''async_write''))"
proof (cases received)
  case (Inl ec)
  then show ?thesis by (simp add: do_session_def)
next
  case (Inr req)
  have "write_outstanding cs \<longleftrightarrow>
      (\<exists>srv. g_WebsocketServer cs = Some srv \<and> list_ex (\<lambda>s. 0 < length (ws_writes s)) (m_listSessions srv))"
    by (simp add: write_outstanding_def split: option.split)
  with Inr show ?thesis
    by (simp add: do_session_Inl request_fault_def call_fault_def del: member_or.simps split: json_doc.split)
qed

text \<open>
  C12. The answer to an agent request: when the request asks for a directory operation, the session
  answers 200 with the success body if the operation applies (always for a login, for the others if
  the number is logged in), and 400 with the not-found body if not; the directory is changed
  accordingly.
\<close>
theorem agent_request_answer:
  assumes ok: "registry_ok cs" and x: "request_op parse req = Some x"
  shows "\<exists>cs'. do_session parse sr res0 (Inr req) None cs =
      Inr (Some ((reply req (spec_found x (directory cs)))\<lparr>rs_prepared := True\<rparr>), cs') \<and>
    registry_ok cs' \<and> directory cs' = spec_op x (directory cs)"
proof -
  obtain ms where p: "parse (c_str (req_body req)) = Object ms" and v: "req_verb req = Verb_post"
    and a: "agent_op (req_target req) (member_or ''dn'' ms [])
      (if member_or ''agent'' ms [] = [] then ''9'' @ member_or ''dn'' ms [] else member_or ''agent'' ms []) = Some x"
    using x by (auto simp: request_op_def Let_def simp del: member_or.simps split: json_doc.splits if_splits)
  let ?cs = "cout_line [''hello from CallService''] cs"
  from serve_post_agent_op [of parse req ms, OF p a] v
  have s: "serve parse sr req (res0\<lparr>rs_content_type := Some ''application/json''\<rparr>) ?cs =
      Inr (reply req (fst (perform_op x ?cs)), snd (perform_op x ?cs))"
    by (simp add: serve_def)
  have ok': "registry_ok ?cs" using ok by simp
  from s dir.found_perform [OF ok', of x] dir.invar_perform [OF ok', of x] dir.lookup_perform [OF ok', of x]
  show ?thesis by (simp add: do_session_def)
qed

lemma agent_request_answer_witness:
  "\<exists>cs'. do_session sample_parse (\<lambda>stale h cmd. Inr h) sample_res (Inr (sample_req ''/agent/logout'')) None new_CallService =
      Inr (Some ((reply (sample_req ''/agent/logout'') False)\<lparr>rs_prepared := True\<rparr>), cs')"
proof -
  have x: "request_op sample_parse (sample_req ''/agent/logout'') = Some (Logout ''1001'')"
    by (simp add: sample_defs request_op_def agent_op_def c_str_def)
  have "spec_found (Logout ''1001'') (directory new_CallService) = False"
    by simp
  with agent_request_answer [OF registry_ok_new x, of "\<lambda>stale h cmd. Inr h" sample_res] show ?thesis by auto
qed

text \<open>
  What \<open>parseAgent\<close> accepts: every JSON object, even one without a number or with an empty one
  (its test for two empty fields never succeeds, because a missing agent is set to 9 followed by the
  number before the test); only text that is not JSON is rejected, with a 406 answer.
\<close>
lemma parseAgent_accepts:
  "parseAgent parse req [] [] res =
     (case parse (c_str (req_body req)) of
        ParseError \<Rightarrow>
          Inr (False, [], [], (response Http_not_acceptable (req_version req))\<lparr>rs_body := body_not_acceptable\<rparr>)
      | NonObject \<Rightarrow> Inl (AssertionFailure ''IsObject()'')
      | Object ms \<Rightarrow>
          Inr (True, member_or ''dn'' ms [],
               (if member_or ''agent'' ms [] = [] then ''9'' @ member_or ''dn'' ms [] else member_or ''agent'' ms []), res))"
  by (cases "parse (c_str (req_body req))")
    (simp_all add: parse_simps [of parse req] del: member_or.simps)

end
