(* ===== verification/Acd.thy ===== *)
theory Acd
  imports Call_Control
begin

text \<open>
  The two callbacks of the outbound event socket (\<open>src/CallService.cpp\<close>): \<open>acd_callback\<close>, which
  distributes an incoming call to an agent and is the one the service listens with, and
  \<open>callbackfun\<close>, its predecessor.  Each is a prologue, a loop whose body is one receive, and an
  epilogue.  What a receive returns, the status and the handle with its events, is an input; the
  loops consume a list of inputs and say whether they ended or wait for the next one.
\<close>

text \<open>
  A header of an event the handle may not have: the library call on a null event is a fault.
\<close>

definition header_of :: "esl_event option \<Rightarrow> string \<Rightarrow> fault + c_string" where
  "header_of ev h =
     (case ev of
        None \<Rightarrow> Inl (NullDereference h)
      | Some e \<Rightarrow> Inr (esl_event_get_header e h))"

definition dec_int :: "int \<Rightarrow> string" where
  "dec_int i = (if i < 0 then ''-'' @ dec (nat (- i)) else dec (nat i))"

definition log_info :: "string \<Rightarrow> c_string list \<Rightarrow> call_service \<Rightarrow> call_service" where
  "log_info fmt args cs = emit (EslLog INFO (fmt @ [newline]) args) cs"

lemma log_info_frame [simp, cs_frame]:
  "m_listAgent (log_info f a cs) = m_listAgent cs" "agents (log_info f a cs) = agents cs"
  "m_bRunning (log_info f a cs) = m_bRunning cs" "m_handle (log_info f a cs) = m_handle cs"
  "m_queueEvent (log_info f a cs) = m_queueEvent cs"
  "g_WebsocketServer (log_info f a cs) = g_WebsocketServer cs"
  "roster (log_info f a cs) = roster cs" "registry_ok (log_info f a cs) = registry_ok cs"
  "directory (log_info f a cs) = directory cs"
  by (simp_all add: log_info_def)

section \<open>Distributing a call\<close>

text \<open>
  The local variables of \<open>acd_callback\<close> that live across iterations: the agent pointer and the
  caller's name and number.
\<close>

record acd_call =
  acd_pAgent :: "nat option"
  acd_cid_name :: c_string
  acd_cid_number :: c_string

text \<open>The UTF-8 bytes of the announcement spoken to the caller.\<close>

definition announcement :: string where
  "announcement = map char_of
     [0xE6, 0x82, 0xA8, 0xE5, 0xA5, 0xBD, 0xEF, 0xBC, 0x8C, 0xE6, 0xAC, 0xA2, 0xE8, 0xBF, 0x8E,
      0xE8, 0x87, 0xB4, 0xE7, 0x94, 0xB5, 0xEF, 0xBC, 0x8C, 0xE7, 0x94, 0xB5, 0xE8, 0xAF, 0x9D,
      0xE6, 0x8E, 0xA5, 0xE9, 0x80, 0x9A, 0xE4, 0xB8, 0xAD, 0xEF, 0xBC, 0x8C, 0xE8, 0xAF, 0xB7,
      0xE7, 0xA8, 0x8D, 0xE5, 0x90, 0x8E :: nat]"

text \<open>
  The prologue, from the attached handle to the music on hold.  Its handle is its own, so its reply
  pointer is not stale; each \<open>esl_send_recv\<close> may fault, otherwise its reply is logged.
\<close>

definition acd_start ::
  "send_recv \<Rightarrow> esl_handle \<Rightarrow> call_service \<Rightarrow> fault + acd_call \<times> call_service" where
  "acd_start send_recv h cs =
     (let cs = emit EslAttach cs;
          cs = log_info ''Connected! %d'' [Some (dec_int (sock h))] cs
      in and_then (header_of (info_event h) ''Caller-Caller-ID-Name'') (\<lambda>cid_name.
         and_then (header_of (info_event h) ''Caller-Caller-ID-Number'') (\<lambda>cid_number.
         let cs = log_info ''New call from %s<%s>'' [cid_name, cid_number] cs;
             cs = emit (EslSendRecv ''myevent'') cs
         in and_then (send_recv False h ''myevent'') (\<lambda>h.
         let cs = log_info ''%s'' [Some (last_sr_reply h)] cs;
             cs = emit (EslSendRecv ''linger 5'') cs
         in and_then (send_recv False h ''linger 5'') (\<lambda>h.
         let cs = log_info ''%s'' [Some (last_sr_reply h)] cs;
             cs = emits [EslExecute ''answer'' None,
                         EslExecute ''set'' (Some ''tts_engine=tts_commandline''),
                         EslExecute ''set'' (Some ''tts_voice=Ting-ting''),
                         EslExecute ''set'' (Some ''continue_on_fail=true''),
                         EslExecute ''set'' (Some ''hangup_after_bridge=true''),
                         EslExecute ''speak'' (Some announcement),
                         Sleep 1000000,
                         EslExecute ''playback'' (Some ''local_stream://moh'')] cs
         in Inr (\<lparr>acd_pAgent = None, acd_cid_name = cid_name, acd_cid_number = cid_number\<rparr>, cs))))))"

text \<open>
  The event of a received plain event message.  The result says whether the loop goes on
  (\<open>goto end\<close> leaves it).
\<close>

definition acd_bridge :: "c_string \<Rightarrow> acd_call \<Rightarrow> call_service \<Rightarrow> fault + bool \<times> acd_call \<times> call_service" where
  "acd_bridge uuid c cs =
     and_then (case acd_pAgent c of
                 None \<Rightarrow> Inr cs
               | Some p \<Rightarrow> and_then (std_string uuid) (\<lambda>u. Inr (upd p (setUUID u) cs)))
       (\<lambda>cs. Inr (True, c, log_info ''Bridged to:%s'' [uuid] cs))"

definition acd_hangup :: "acd_call \<Rightarrow> call_service \<Rightarrow> fault + bool \<times> acd_call \<times> call_service" where
  "acd_hangup c cs =
     and_then (case acd_pAgent c of
                 None \<Rightarrow> Inr (c, cs)
               | Some p \<Rightarrow> and_then (reset_agents (Some p) cs) (\<lambda>cs. Inr (c\<lparr>acd_pAgent := None\<rparr>, cs)))
       (\<lambda>(c, cs). Inr (False, c,
          log_info ''Caller:%s<%s> Hangup'' [acd_cid_name c, acd_cid_number c] cs))"

text \<open>\<open>strcmp\<close> on a null pointer is a fault.\<close>

definition strcmp0 :: "c_string \<Rightarrow> string \<Rightarrow> fault + bool" where
  "strcmp0 a b = (case a of None \<Rightarrow> Inl (NullDereference ''strcmp'') | Some s \<Rightarrow> Inr (s = b))"

definition acd_execute_complete ::
  "esl_event \<Rightarrow> acd_call \<Rightarrow> call_service \<Rightarrow> fault + bool \<times> acd_call \<times> call_service" where
  "acd_execute_complete ev c cs =
     and_then (strcmp0 (esl_event_get_header ev ''Application'') ''bridge'') (\<lambda>is_bridge.
     and_then
       (if is_bridge then
          (let disposition = esl_event_get_header ev ''variable_originate_disposition'';
               cs = log_info ''dispostion: %s'' [disposition] cs
           in and_then (strcmp0 disposition ''CALL_REJETED'') (\<lambda>rejected.
              and_then (strcmp0 disposition ''USER_BUSY'') (\<lambda>is_busy.
                if rejected \<or> is_busy
                then and_then (reset_agents (acd_pAgent c) cs) (\<lambda>cs. Inr (c\<lparr>acd_pAgent := None\<rparr>, cs))
                else Inr (c, cs))))
        else Inr (c, cs))
       (\<lambda>(c, cs).
          and_then (case acd_pAgent c of None \<Rightarrow> Inr cs | Some p \<Rightarrow> reset_agents (Some p) cs) (\<lambda>cs.
            Inr (True, c,
              log_info ''CSPBX Caller:%s<%s> Hangup'' [acd_cid_name c, acd_cid_number c] cs))))"

definition acd_event :: "esl_event \<Rightarrow> acd_call \<Rightarrow> call_service \<Rightarrow> fault + bool \<times> acd_call \<times> call_service" where
  "acd_event ev c cs =
     (let uuid = esl_event_get_header ev ''Other-Leg-Unique-ID''
      in if event_id ev = ESL_EVENT_CHANNEL_BRIDGE then acd_bridge uuid c cs
         else if event_id ev = ESL_EVENT_CHANNEL_HANGUP_COMPLETE then acd_hangup c cs
         else if event_id ev = ESL_EVENT_CHANNEL_EXECUTE_COMPLETE then acd_execute_complete ev c cs
         else Inr (True, c, cs))"

text \<open>
  One iteration, after \<open>esl_recv_timed\<close> returned \<open>st\<close> and left the handle \<open>h\<close>.  A time-out
  (\<open>ESL_BREAK\<close>) looks for an agent; with one, the call is bridged and the loop left.  The flag
  returned is whether the loop goes on, so it also tests the loop's condition.
\<close>

definition loop_on :: "esl_status_t \<Rightarrow> bool" where
  "loop_on st \<longleftrightarrow> st = ESL_SUCCESS \<or> st = ESL_BREAK"

definition acd_recv ::
  "esl_status_t \<Rightarrow> esl_handle \<Rightarrow> acd_call \<Rightarrow> call_service \<Rightarrow> fault + bool \<times> acd_call \<times> call_service" where
  "acd_recv st h c cs =
     (if st = ESL_BREAK then
        (let (pAgent, cs) = get_available_agent cs;
             c = c\<lparr>acd_pAgent := pAgent\<rparr>
         in case pAgent of
              None \<Rightarrow> Inr (True, c, cs)
            | Some p \<Rightarrow>
                (let routedAgent = ''user/'' @ getDn (deref cs p);
                     cs = emit (EslExecute ''break'' None) cs;
                     cs = emit (EslExecute ''bridge'' (Some (c_str routedAgent))) cs;
                     cs = log_info ''Calling to:%s'' [Some (c_str routedAgent)] cs
                 in Inr (False, c, cs)))
      else
        and_then (header_of (last_event h) ''content-type'') (\<lambda>type.
          if (case type of None \<Rightarrow> False | Some t \<Rightarrow> strcasecmp0 t ''text/event-plain'') then
            (case last_ievent h of
               None \<Rightarrow> Inl (NullDereference ''handle.last_ievent'')
             | Some ev \<Rightarrow>
                 and_then (acd_event ev c cs) (\<lambda>(go, c, cs). Inr (go \<and> loop_on st, c, cs)))
          else Inr (loop_on st, c, cs)))"

definition acd_end :: "int \<Rightarrow> call_service \<Rightarrow> call_service" where
  "acd_end sk cs = emit EslDisconnect (log_info ''Disconnectd!%d'' [Some (dec_int sk)] cs)"

type_synonym recv_input = "esl_status_t \<times> esl_handle"

text \<open>The flag of the result is whether the callback has ended.\<close>

fun acd_loop ::
  "int \<Rightarrow> recv_input list \<Rightarrow> acd_call \<Rightarrow> call_service \<Rightarrow> fault + bool \<times> acd_call \<times> call_service" where
  "acd_loop sk [] c cs = Inr (False, c, cs)"
| "acd_loop sk ((st, h) # xs) c cs =
     and_then (acd_recv st h c cs) (\<lambda>(go, c, cs).
       if go then acd_loop sk xs c cs else Inr (True, c, acd_end sk cs))"

definition acd_callback ::
  "send_recv \<Rightarrow> esl_handle \<Rightarrow> recv_input list \<Rightarrow> call_service \<Rightarrow>
     fault + bool \<times> acd_call \<times> call_service" where
  "acd_callback send_recv h xs cs =
     and_then (acd_start send_recv h cs) (\<lambda>(c, cs). acd_loop (sock h) xs c cs)"

section \<open>What one iteration does\<close>

fun_cases acd_loop_ConsE: "acd_loop sk (x # xs) c cs = Inr r"

text \<open>
  A call that has no agent keeps none through every event: only a time-out assigns one, and then
  the loop is left.
\<close>

lemma acd_bridge_None:
  "acd_pAgent c = None \<Longrightarrow> acd_bridge uuid c cs = Inr (True, c, log_info ''Bridged to:%s'' [uuid] cs)"
  by (simp add: acd_bridge_def)

lemma acd_hangup_None:
  "acd_pAgent c = None \<Longrightarrow>
     acd_hangup c cs = Inr (False, c, log_info ''Caller:%s<%s> Hangup'' [acd_cid_name c, acd_cid_number c] cs)"
  by (simp add: acd_hangup_def)

text \<open>
  Without an agent the completion of a bridge that was rejected or busy dereferences the null
  pointer; every other completion is logged.
\<close>

lemma acd_execute_complete_None:
  assumes "acd_pAgent c = None"
  shows "acd_execute_complete ev c cs =
    (let hangup = log_info ''CSPBX Caller:%s<%s> Hangup'' [acd_cid_name c, acd_cid_number c];
         disposition = esl_event_get_header ev ''variable_originate_disposition'';
         noted = log_info ''dispostion: %s'' [disposition] cs
     in case esl_event_get_header ev ''Application'' of
          None \<Rightarrow> Inl (NullDereference ''strcmp'')
        | Some app \<Rightarrow>
            if app \<noteq> ''bridge'' then Inr (True, c, hangup cs)
            else (case disposition of
                    None \<Rightarrow> Inl (NullDereference ''strcmp'')
                  | Some d \<Rightarrow>
                      if d = ''CALL_REJETED'' \<or> d = ''USER_BUSY''
                      then Inl (NullDereference ''reset_agents: pAgent_'')
                      else Inr (True, c, hangup noted)))"
  using assms
  by (simp add: acd_execute_complete_def strcmp0_def reset_agents_def Let_def split: option.split)

lemma acd_event_None:
  assumes n: "acd_pAgent c = None" and ev: "acd_event ev c cs = Inr (go, c', cs')"
  shows "c' = c \<and> roster cs' = roster cs \<and> m_listAgent cs' = m_listAgent cs \<and> registry_ok cs' = registry_ok cs"
  using ev
  by (auto simp: acd_event_def acd_bridge_None [OF n] acd_hangup_None [OF n] acd_execute_complete_None [OF n] Let_def
      split: if_splits option.splits)

lemma acd_recv_not_break:
  assumes "st \<noteq> ESL_BREAK" and "acd_pAgent c = None" and "acd_recv st h c cs = Inr (go, c', cs')"
  shows "c' = c \<and> roster cs' = roster cs \<and> m_listAgent cs' = m_listAgent cs \<and> registry_ok cs' = registry_ok cs"
  using assms
  by (auto simp: acd_recv_def and_then_Inr dest: acd_event_None split: if_splits option.splits)

lemma acd_recv_break:
  assumes ok: "registry_ok cs" and r: "acd_recv ESL_BREAK h c cs = Inr (go, c', cs')"
  shows "roster cs' = snd (route (roster cs)) \<and> registry_ok cs' \<and> m_listAgent cs' = m_listAgent cs \<and>
    (case fst (route (roster cs)) of
       None \<Rightarrow> go \<and> acd_pAgent c' = None \<and> calls cs' = calls (snd (get_available_agent cs))
     | Some i \<Rightarrow> \<not> go \<and> acd_pAgent c' = Some (m_listAgent cs ! i))"
  using get_available_agent_route [OF ok] r
  by (auto simp: acd_recv_def Let_def split: option.splits prod.splits)

text \<open>Whatever the input, the invariant is kept and the loop goes on only without an agent.\<close>

lemma acd_recv_inv:
  assumes "registry_ok cs" and "acd_pAgent c = None" and "acd_recv st h c cs = Inr (go, c', cs')"
  shows "registry_ok cs' \<and> m_listAgent cs' = m_listAgent cs \<and> (go \<longrightarrow> acd_pAgent c' = None)"
proof (cases "st = ESL_BREAK")
  case True
  with acd_recv_break [OF assms(1), of h c go c' cs'] assms(3) show ?thesis
    by (auto split: option.splits)
next
  case False
  with acd_recv_not_break [OF False assms(2,3)] assms(1,2) show ?thesis by simp
qed

text \<open>The numbers and the statuses of the agents are never changed by a call.\<close>

definition persona :: "Agent \<Rightarrow> string \<times> string \<times> string \<times> AgentStatus_t" where
  "persona a = (getDn a, getAgent a, getUUID a, getAgentStatus a)"

lemma persona_setPolling [simp]: "persona (setPolling b a) = persona a"
  by (simp add: persona_def)

lemma persona_comp [simp]: "persona \<circ> setPolling b = persona"
  by (simp add: fun_eq_iff)

lemma route_persona: "map persona (snd (route as)) = map persona as"
proof -
  have r: "map persona (refreshed as) = map persona as" by (simp add: refreshed_def)
  show ?thesis
  proof (cases "find_if eligible (refreshed as)")
    case None
    with r show ?thesis by (simp add: route_def)
  next
    case (Some i)
    then have "i < length (refreshed as)" by (auto dest: find_if_SomeD)
    with Some r show ?thesis
      by (simp add: route_def map_update) (metis length_map list_update_id nth_map)
  qed
qed

lemma acd_loop_inv:
  "registry_ok cs \<Longrightarrow> acd_pAgent c = None \<Longrightarrow> acd_loop sk xs c cs = Inr (ended, c', cs') \<Longrightarrow>
     registry_ok cs' \<and> m_listAgent cs' = m_listAgent cs \<and>
     map persona (roster cs') = map persona (roster cs) \<and> (\<not> ended \<longrightarrow> acd_pAgent c' = None)"
proof (induction xs arbitrary: c cs)
  case Nil
  then show ?case by simp
next
  case (Cons x xs)
  obtain st h where x: "x = (st, h)" by (cases x)
  from Cons.prems(3) x obtain go c1 cs1 where r: "acd_recv st h c cs = Inr (go, c1, cs1)"
    and rest: "(if go then acd_loop sk xs c1 cs1 else Inr (True, c1, acd_end sk cs1)) = Inr (ended, c', cs')"
    by (auto simp: and_then_Inr)
  have p: "map persona (roster cs1) = map persona (roster cs)"
  proof (cases "st = ESL_BREAK")
    case True
    with acd_recv_break [OF Cons.prems(1), of h c go c1 cs1] r show ?thesis by (simp add: route_persona)
  next
    case False
    with acd_recv_not_break [OF False Cons.prems(2) r] show ?thesis by simp
  qed
  from acd_recv_inv [OF Cons.prems(1,2) r] have i: "registry_ok cs1" "m_listAgent cs1 = m_listAgent cs"
    "go \<Longrightarrow> acd_pAgent c1 = None" by auto
  show ?case
  proof (cases go)
    case True
    with Cons.IH [OF i(1) i(3)] rest i p show ?thesis by simp
  next
    case False
    with rest i p show ?thesis by (auto simp: acd_end_def)
  qed
qed

section \<open>The earlier callback\<close>

text \<open>
  \<open>callbackfun\<close>: the prologue bridges the call to the first agent that is not polled, whatever its
  status; then, when every agent is polled, the flags are cleared.
\<close>

fun bridge_first :: "nat list \<Rightarrow> call_service \<Rightarrow> call_service" where
  "bridge_first [] cs = cs"
| "bridge_first (p # ps) cs =
     (if getPolling (deref cs p) = False
      then (let cs = upd p (setPolling True) cs;
                routeAgent = ''user/'' @ getDn (deref cs p)
            in emit (EslExecute ''bridge'' (Some (c_str routeAgent))) cs)
      else bridge_first ps cs)"

definition callbackfun_start :: "esl_handle \<Rightarrow> call_service \<Rightarrow> fault + call_service" where
  "callbackfun_start h cs =
     (let cs = emit EslAttach cs;
          cs = log_info ''Connected! %d'' [Some (dec_int (sock h))] cs
      in and_then (header_of (info_event h) ''caller-unique-id'') (\<lambda>uid.
         let cs = emits [EslFilter ''unique-id'' uid,
                         EslEvents (''SESSION_HEARTBEAT CHANNEL_ANSWER CHANNEL_ORIGINATE CHANNEL_PROGRESS CHANNEL_HANGUP '' @
                           ''CHANNEL_BRIDGE CHANNEL_UNBRIDGE CHANNEL_OUTGOING CHANNEL_EXECUTE CHANNEL_EXECUTE_COMPLETE DTMF CUSTOM conference::maintenance''),
                         EslSendRecv ''linger'',
                         EslExecute ''answer'' None,
                         EslExecute ''playback'' (Some ''/usr/local/freeswitch/sound/welcome.wav'')] cs;
             cs = bridge_first (m_listAgent cs) cs
         in case find_if (\<lambda>p. getPolling (deref cs p) = False) (m_listAgent cs) of
              None \<Rightarrow> Inr (clear_polling cs)
            | Some _ \<Rightarrow> Inr cs))"

text \<open>
  The loop's variables \<open>done\<close> and \<open>exp\<close> as one: \<open>None\<close> while not done, and the expiry time once
  a linger notice was received.  An input carries the time at which it is processed.
\<close>

definition callbackfun_recv ::
  "esl_status_t \<Rightarrow> esl_handle \<Rightarrow> int \<Rightarrow> int option \<Rightarrow> call_service \<Rightarrow> fault + bool \<times> int option \<times> call_service" where
  "callbackfun_recv st h now expiry cs =
     (if st = ESL_FAIL then Inr (False, expiry, cs)
      else case expiry of
        Some t \<Rightarrow> Inr (\<not> now \<ge> t, expiry, cs)
      | None \<Rightarrow>
          if st = ESL_SUCCESS then
            and_then (header_of (last_event h) ''content-type'') (\<lambda>type.
              if (case type of None \<Rightarrow> False | Some t \<Rightarrow> strcasecmp0 t ''text/disconnect-notice'') then
                and_then (header_of (last_event h) ''content-disposition'') (\<lambda>dispo.
                  let cs = log_info ''Got a disconnection notice dispostion: [%s]''
                             [Some (case dispo of Some d \<Rightarrow> d | None \<Rightarrow> [])] cs
                  in if dispo = Some ''linger''
                     then Inr (True, Some (now + 5), log_info ''Waiting 5 seconds for any remaining events.'' [] cs)
                     else Inr (True, None, cs))
              else Inr (True, None, cs))
          else Inr (True, None, cs))"

fun callbackfun_loop ::
  "int \<Rightarrow> (esl_status_t \<times> esl_handle \<times> int) list \<Rightarrow> int option \<Rightarrow> call_service \<Rightarrow>
     fault + bool \<times> int option \<times> call_service" where
  "callbackfun_loop sk [] expiry cs = Inr (False, expiry, cs)"
| "callbackfun_loop sk ((st, h, now) # xs) expiry cs =
     and_then (callbackfun_recv st h now expiry cs) (\<lambda>(go, expiry, cs).
       if go then callbackfun_loop sk xs expiry cs else Inr (True, expiry, acd_end sk cs))"

definition callbackfun ::
  "esl_handle \<Rightarrow> (esl_status_t \<times> esl_handle \<times> int) list \<Rightarrow> call_service \<Rightarrow> fault + bool \<times> int option \<times> call_service" where
  "callbackfun h xs cs = and_then (callbackfun_start h cs) (callbackfun_loop (sock h) xs None)"

text \<open>Once lingering, the loop ends at the first input that fails or comes after the expiry time.\<close>

lemma callbackfun_lingers:
  assumes "\<forall>(st, h, now) \<in> set xs. st \<noteq> ESL_FAIL \<and> now < t"
  shows "callbackfun_loop sk (xs @ (st, h, now) # ys) (Some t) cs =
    (if st = ESL_FAIL \<or> now \<ge> t then Inr (True, Some t, acd_end sk cs)
     else callbackfun_loop sk ys (Some t) cs)"
  using assms by (induction xs) (auto simp: callbackfun_recv_def)

text \<open>The prologue neither touches the agents nor gives the call one.\<close>

lemma acd_start_Inr:
  "acd_start sr h cs = Inr (c, cs') \<Longrightarrow>
     acd_pAgent c = None \<and> roster cs' = roster cs \<and> registry_ok cs' = registry_ok cs \<and>
     m_listAgent cs' = m_listAgent cs"
  by (auto simp: acd_start_def and_then_Inr Let_def)

lemma acd_start_total:
  "info_event h = Some ev \<Longrightarrow>
     \<exists>c cs'. acd_start (\<lambda>stale h cmd. Inr h) h cs = Inr (c, cs') \<and> acd_pAgent c = None"
  by (simp add: acd_start_def header_of_def Let_def)

text \<open>Sample handles for the witnesses.\<close>

definition sample_event :: "esl_event_types_t \<Rightarrow> (string \<rightharpoonup> string) \<Rightarrow> esl_event" where
  "sample_event i hs = \<lparr>event_id = i, headers = hs, body = None\<rparr>"

definition plain_handle :: "esl_event \<Rightarrow> esl_handle" where
  "plain_handle ev = zero_handle\<lparr>last_event := Some (sample_event 0 [''content-type'' \<mapsto> ''text/event-plain'']),
     last_ievent := Some ev, info_event := Some ev, connected := True\<rparr>"

lemma plain_handle_header [simp]:
  "header_of (last_event (plain_handle ev)) ''content-type'' = Inr (Some ''text/event-plain'')"
  "last_ievent (plain_handle ev) = Some ev" "info_event (plain_handle ev) = Some ev"
  by (simp_all add: plain_handle_def header_of_def sample_event_def esl_event_get_header_def)

section \<open>Properties\<close>

text \<open>
  C5. What a call may do to the agents: whatever is received and however it ends, a call of
  \<open>acd_callback\<close> that ends without a fault leaves the agent list, its invariant and every agent's
  number, name, call identifier and status as they were (so only polling flags can change), and as
  long as its loop runs the call has no agent.
\<close>
theorem acd_callback_agents:
  assumes "registry_ok cs" and "acd_callback sr h xs cs = Inr (ended, c, cs')"
  shows "registry_ok cs' \<and> m_listAgent cs' = m_listAgent cs \<and>
    map persona (roster cs') = map persona (roster cs) \<and> (if ended then True else acd_pAgent c = None)"
proof -
  obtain c0 cs0 where s: "acd_start sr h cs = Inr (c0, cs0)" and l: "acd_loop (sock h) xs c0 cs0 = Inr (ended, c, cs')"
    using assms(2) by (auto simp: acd_callback_def and_then_Inr)
  from acd_start_Inr [OF s] acd_loop_inv [OF _ _ l] assms(1) show ?thesis by auto
qed

lemma acd_callback_agents_witness:
  "\<exists>ended c cs'. acd_callback (\<lambda>stale h cmd. Inr h) (plain_handle (sample_event 0 Map.empty)) [(ESL_FAIL, plain_handle (sample_event 0 Map.empty))] two_agents =
     Inr (ended, c, cs') \<and> map persona (roster cs') = map persona (roster two_agents)"
proof -
  let ?h = "plain_handle (sample_event 0 Map.empty)"
  obtain c0 cs0 where s: "acd_start (\<lambda>stale h cmd. Inr h) ?h two_agents = Inr (c0, cs0)" "acd_pAgent c0 = None"
    using acd_start_total [of ?h] by fastforce
  then have "\<exists>c cs'. acd_callback (\<lambda>stale h cmd. Inr h) ?h [(ESL_FAIL, ?h)] two_agents = Inr (True, c, cs')"
    by (simp add: acd_callback_def acd_recv_def strcasecmp0_def acd_event_def sample_event_def loop_on_def)
  then obtain c cs' where r: "acd_callback (\<lambda>stale h cmd. Inr h) ?h [(ESL_FAIL, ?h)] two_agents = Inr (True, c, cs')" by blast
  from acd_callback_agents [OF two_agents(1) r] r show ?thesis by blast
qed

text \<open>
  C6. How a call is distributed: at the first time-out at which the choice takes an agent, the call
  stops the music, bridges to that agent's number and disconnects at once, so no event after it is
  handled; the agent keeps its polling flag, and nothing else has happened to the agents than the
  choice itself.
\<close>
theorem acd_distributes:
  assumes ok: "registry_ok cs" and i: "fst (route (roster cs)) = Some i"
  shows "\<exists>c' cs'. acd_loop sk ((ESL_BREAK, h) # xs) c cs = Inr (True, c', cs') \<and>
    acd_pAgent c' = Some (m_listAgent cs ! i) \<and> roster cs' = snd (route (roster cs)) \<and>
    getPolling (deref cs' (m_listAgent cs ! i)) \<and>
    calls cs' = calls (snd (get_available_agent cs)) @
      (let dest = c_str (''user/'' @ getDn (roster cs ! i))
       in [EslExecute ''break'' None, EslExecute ''bridge'' (Some dest),
           EslLog INFO (''Calling to:%s'' @ [newline]) [Some dest],
           EslLog INFO (''Disconnectd!%d'' @ [newline]) [Some (dec_int sk)], EslDisconnect])"
proof -
  let ?p = "m_listAgent cs ! i"
  obtain pa cs1 where g': "get_available_agent cs = (pa, cs1)" by (cases "get_available_agent cs")
  with get_available_agent_route [OF ok] i
  have g: "get_available_agent cs = (Some ?p, cs1)" and s: "roster cs1 = snd (route (roster cs))"
    and m: "m_listAgent cs1 = m_listAgent cs" by simp_all
  from route_SomeD(1,4) [OF i] have l: "i < length (m_listAgent cs)"
    and r: "roster cs1 = (refreshed (roster cs))[i := setPolling True (refreshed (roster cs) ! i)]"
    using s by simp_all
  have lr: "length (refreshed (roster cs)) = length (m_listAgent cs)" by (simp add: refreshed_def)
  have d: "deref cs1 ?p = setPolling True (refreshed (roster cs) ! i)"
    using r l lr m roster_nth [of i cs1] by simp
  have dn: "getDn (deref cs1 ?p) = getDn (roster cs ! i)"
    using l by (simp add: d) (simp add: refreshed_def)
  have pol: "getPolling (deref cs1 ?p)" by (simp add: d)
  have "\<And>cs'. deref (log_info f a cs') = deref cs'" for f a by (simp add: log_info_def)
  with pol have pol': "getPolling (deref (acd_end sk (log_info f a (emit e (emit e' cs1)))) ?p)" for f a e e'
    by (simp add: acd_end_def)
  show ?thesis
    by (simp add: acd_recv_def g Let_def dn pol' s) (simp add: acd_end_def log_info_def s)
qed

lemma acd_distributes_witness:
  "\<exists>c' cs'. acd_loop 7 [(ESL_BREAK, zero_handle), (ESL_SUCCESS, zero_handle)] \<lparr>acd_pAgent = None, acd_cid_name = None, acd_cid_number = None\<rparr> two_agents =
     Inr (True, c', cs') \<and> acd_pAgent c' = Some (m_listAgent two_agents ! 0)"
proof -
  have "fst (route (roster two_agents)) = Some 0"
    by (simp add: two_agents(2) route_def refreshed_def eligible_def logged_in_def)
  from acd_distributes [OF two_agents(1) this] show ?thesis by blast
qed

text \<open>
  C11. The crash of a waiting call: while a call waits (it then has no agent), an execute-complete
  event crashes the callback exactly when it names no application, or reports the end of a bridge
  whose disposition is missing, CALL_REJETED or USER_BUSY, because the agent to be reset is the
  null pointer; every other such event is logged and the call goes on waiting.
\<close>
theorem waiting_call_faults:
  assumes "acd_pAgent c = None" and "st = ESL_SUCCESS"
    and "header_of (last_event h) ''content-type'' = Inr (Some ''text/event-plain'')"
    and "last_ievent h = Some ev" and "event_id ev = ESL_EVENT_CHANNEL_EXECUTE_COMPLETE"
  shows "acd_recv st h c cs =
    (let app = esl_event_get_header ev ''Application'';
         disposition = esl_event_get_header ev ''variable_originate_disposition'';
         hangup = log_info ''CSPBX Caller:%s<%s> Hangup'' [acd_cid_name c, acd_cid_number c]
     in if app = None \<or> app = Some ''bridge'' \<and> disposition = None then Inl (NullDereference ''strcmp'')
        else if app = Some ''bridge'' \<and> (disposition = Some ''CALL_REJETED'' \<or> disposition = Some ''USER_BUSY'')
        then Inl (NullDereference ''reset_agents: pAgent_'')
        else Inr (True, c, hangup (if app = Some ''bridge'' then log_info ''dispostion: %s'' [disposition] cs else cs)))"
  using assms
  by (auto simp: acd_recv_def strcasecmp0_def acd_event_def acd_execute_complete_None loop_on_def Let_def
      split: option.split)

lemma waiting_call_faults_witness:
  "acd_recv ESL_SUCCESS (plain_handle (sample_event ESL_EVENT_CHANNEL_EXECUTE_COMPLETE
      [''Application'' \<mapsto> ''bridge'', ''variable_originate_disposition'' \<mapsto> ''USER_BUSY'']))
     \<lparr>acd_pAgent = None, acd_cid_name = None, acd_cid_number = None\<rparr> two_agents = Inl (NullDereference ''reset_agents: pAgent_'')"
proof -
  let ?ev = "sample_event ESL_EVENT_CHANNEL_EXECUTE_COMPLETE
      [''Application'' \<mapsto> ''bridge'', ''variable_originate_disposition'' \<mapsto> ''USER_BUSY'']"
  from waiting_call_faults [of "\<lparr>acd_pAgent = None, acd_cid_name = None, acd_cid_number = None\<rparr>" ESL_SUCCESS "plain_handle ?ev" ?ev two_agents]
  show ?thesis by (simp add: sample_event_def esl_event_get_header_def)
qed

end
