(* ===== verification/Event_Thread.thy ===== *)
theory Event_Thread
  imports Acd
begin

text \<open>
  The thread that follows the events of the inbound event socket (\<open>CallService::eventThreadFun\<close> in
  \<open>src/CallService.cpp\<close>): it formats every event into a fixed buffer, prints the call events, and
  keeps the agents' call identifiers and statuses up to date.
\<close>

section \<open>Formatting an event\<close>

text \<open>\<open>%s\<close> of a null pointer prints \<open>(null)\<close> (glibc).\<close>

definition pct_s :: "c_string \<Rightarrow> string" where
  "pct_s s = (case s of None \<Rightarrow> ''(null)'' | Some t \<Rightarrow> t)"

definition event_message ::
  "c_string \<Rightarrow> c_string \<Rightarrow> c_string \<Rightarrow> c_string \<Rightarrow> c_string \<Rightarrow> string" where
  "event_message uuid cid_number cid_dest cause disposition =
     ''UUID:'' @ pct_s uuid @ '' Caller: '' @ pct_s cid_number @ '' Callee:'' @ pct_s cid_dest @
     '' HangupCause:'' @ pct_s cause @ '' hangup_disposition:'' @ pct_s disposition"

text \<open>\<open>sprintf\<close> into an array of \<open>n\<close> bytes: the text and its terminator must fit.\<close>

definition sprintf_buf :: "nat \<Rightarrow> string \<Rightarrow> fault + string" where
  "sprintf_buf n s = (if Suc (length s) \<le> n then Inr s else Inl (BufferOverflow (Suc (length s))))"

section \<open>The agent changes\<close>

text \<open>
  The search of a channel-create event: the callee's number is made a string for every agent that
  is compared, so a missing number is a fault only when there is an agent.
\<close>

definition find_callee :: "c_string \<Rightarrow> call_service \<Rightarrow> fault + nat option" where
  "find_callee cid_dest cs =
     (if m_listAgent cs = [] then Inr None
      else and_then (std_string cid_dest) (\<lambda>d. Inr (find_dn d cs)))"

definition channel_create :: "c_string \<Rightarrow> c_string \<Rightarrow> call_service \<Rightarrow> fault + call_service" where
  "channel_create cid_dest uuid cs =
     and_then (find_callee cid_dest cs) (\<lambda>it.
       case it of
         None \<Rightarrow> Inr cs
       | Some i \<Rightarrow> and_then (std_string uuid) (\<lambda>u. Inr (upd (m_listAgent cs ! i) (setUUID u) cs)))"

text \<open>The loop of a hangup-complete event over the agents.\<close>

fun hangup_agent :: "c_string \<Rightarrow> nat list \<Rightarrow> call_service \<Rightarrow> fault + call_service" where
  "hangup_agent cid_dest [] cs = Inr cs"
| "hangup_agent cid_dest (p # ps) cs =
     and_then (std_string cid_dest) (\<lambda>d.
       if getDn (deref cs p) = d
       then (let cs = upd p (setAgentStatus Ready) cs;
                 cs = upd p (setUUID []) cs
             in Inr (printAgent p cs))
       else hangup_agent cid_dest ps cs)"

definition print_hangup :: "c_string \<Rightarrow> c_string \<Rightarrow> c_string \<Rightarrow> c_string \<Rightarrow> call_service \<Rightarrow> call_service" where
  "print_hangup cid_number cid_dest cause disposition cs =
     (case disposition of
        None \<Rightarrow> cout [Some ''Hangup cause: '', cause, Some [newline]] cs
      | Some d \<Rightarrow>
          if d = ''recv_bye'' then
            cout [Some ''The caller hung up (Caller: '', cid_number, Some '', Callee: '', cid_dest,
                  Some '')'', Some [newline]] cs
          else if d = ''send_bye'' then
            cout [Some ''The callee hung up (Caller: '', cid_number, Some '', Callee: '', cid_dest,
                  Some '')'', Some [newline]] cs
          else cout [Some ''Hangup cause: '', cause, Some [newline]] cs)"

section \<open>One event\<close>

definition switch_event :: "esl_event \<Rightarrow> string \<Rightarrow> call_service \<Rightarrow> fault + call_service" where
  "switch_event ev szMsg cs =
     (let cid_number = esl_event_get_header ev ''Caller-Caller-ID-Number'';
          cid_dest = esl_event_get_header ev ''Caller-Destination-Number'';
          cause = esl_event_get_header ev ''Hangup-Cause'';
          disposition = esl_event_get_header ev ''variable_sip_hangup_disposition'';
          uuid = esl_event_get_header ev ''Unique-ID''
      in if event_id ev = ESL_EVENT_CHANNEL_PROGRESS then
           Inr (cout_line [''channel progress '', szMsg] cs)
         else if event_id ev = ESL_EVENT_CHANNEL_PROGRESS_MEDIA then
           Inr (cout_line [''channel progres media '', szMsg] cs)
         else if event_id ev = ESL_EVENT_CHANNEL_CREATE then
           channel_create cid_dest uuid (cout_line [''channel create '', szMsg] cs)
         else if event_id ev = ESL_EVENT_CHANNEL_ANSWER then
           Inr (cout_line [''channel answer '', szMsg] cs)
         else if event_id ev = ESL_EVENT_CHANNEL_HANGUP then
           Inr (cout_line [''channel hangup '', szMsg] cs)
         else if event_id ev = ESL_EVENT_CHANNEL_BRIDGE then
           Inr (cout_line [''channel bridge '', szMsg] cs)
         else if event_id ev = ESL_EVENT_CHANNEL_HANGUP_COMPLETE then
           (let cs = cout_line [''channel hangup_complete '', szMsg] cs;
                cs = print_hangup cid_number cid_dest cause disposition cs
            in hangup_agent cid_dest (m_listAgent cs) cs)
         else Inr cs)"

definition handle_success :: "esl_handle \<Rightarrow> call_service \<Rightarrow> fault + call_service" where
  "handle_success h cs =
     (case last_event h of
        None \<Rightarrow> Inl (NullDereference ''handle->last_event'')
      | Some _ \<Rightarrow>
          (case last_ievent h of
             None \<Rightarrow> Inl (NullDereference ''handle->last_ievent'')
           | Some ev \<Rightarrow>
               and_then
                 (sprintf_buf 1024
                    (event_message (esl_event_get_header ev ''Unique-ID'')
                       (esl_event_get_header ev ''Caller-Caller-ID-Number'')
                       (esl_event_get_header ev ''Caller-Destination-Number'')
                       (esl_event_get_header ev ''Hangup-Cause'')
                       (esl_event_get_header ev ''variable_sip_hangup_disposition'')))
                 (\<lambda>szMsg. switch_event ev szMsg cs)))"

text \<open>One iteration of the loop, after the timed receive.\<close>

definition event_recv :: "esl_status_t \<Rightarrow> esl_handle \<Rightarrow> call_service \<Rightarrow> fault + call_service" where
  "event_recv st h cs =
     (case st of
        ESL_BREAK \<Rightarrow> Inr (emit (Sleep 1) cs)
      | ESL_FAIL \<Rightarrow> Inr (emit (EslLog WARNING (''Disconnected.'' @ [newline]) []) cs)
      | ESL_SUCCESS \<Rightarrow> handle_success h cs
      | _ \<Rightarrow> Inr cs)"

text \<open>
  The loop runs while the handle is connected; an input is what one receive returned and the handle
  it left.  The flag of the result is whether the thread has ended.
\<close>

fun event_thread :: "bool \<Rightarrow> recv_input list \<Rightarrow> call_service \<Rightarrow> fault + bool \<times> call_service" where
  "event_thread conn [] cs = Inr (\<not> conn, cs)"
| "event_thread conn ((st, h) # xs) cs =
     (if conn then and_then (event_recv st h cs) (event_thread (connected h) xs)
      else Inr (True, cs))"

section \<open>Facts about one event\<close>

lemma length_event_message:
  "length (event_message u n d c p) =
     55 + length (pct_s u) + length (pct_s n) + length (pct_s d) + length (pct_s c) + length (pct_s p)"
  by (simp add: event_message_def)

lemma find_callee_Inr:
  "find_callee (Some d) cs = Inr (find_dn d cs)"
  by (auto simp: find_callee_def find_dn_def)

lemma find_callee_None:
  "find_callee None cs =
     (if m_listAgent cs = [] then Inr None
      else Inl (NullString ''basic_string: construction from null''))"
  by (simp add: find_callee_def)

lemma channel_create_directory:
  assumes ok: "registry_ok cs"
  shows "channel_create (Some d) (Some u) cs =
    Inr (case find_dn d cs of None \<Rightarrow> cs | Some i \<Rightarrow> upd (m_listAgent cs ! i) (setUUID u) cs)"
    and "registry_ok (case find_dn d cs of None \<Rightarrow> cs | Some i \<Rightarrow> upd (m_listAgent cs ! i) (setUUID u) cs)"
    and "directory (case find_dn d cs of None \<Rightarrow> cs | Some i \<Rightarrow> upd (m_listAgent cs ! i) (setUUID u) cs) =
      (directory cs)(d := map_option (setUUID u) (directory cs d))"
proof -
  show "channel_create (Some d) (Some u) cs =
    Inr (case find_dn d cs of None \<Rightarrow> cs | Some i \<Rightarrow> upd (m_listAgent cs ! i) (setUUID u) cs)"
    by (auto simp: channel_create_def find_callee_Inr split: option.splits)
  show "registry_ok (case find_dn d cs of None \<Rightarrow> cs | Some i \<Rightarrow> upd (m_listAgent cs ! i) (setUUID u) cs)"
    using ok by (auto split: option.splits intro!: registry_ok_upd dest: find_dn_SomeD)
  show "directory (case find_dn d cs of None \<Rightarrow> cs | Some i \<Rightarrow> upd (m_listAgent cs ! i) (setUUID u) cs) =
      (directory cs)(d := map_option (setUUID u) (directory cs d))"
  proof (cases "find_dn d cs")
    case None
    then have "directory cs d = None" by (simp add: directory_find)
    with None show ?thesis by (auto simp: fun_eq_iff)
  next
    case (Some i)
    then show ?thesis using directory_upd [OF ok Some, of "setUUID u"] by simp
  qed
qed

text \<open>The hangup loop is a search by number.\<close>

definition hung_up :: "Agent \<Rightarrow> Agent" where
  "hung_up a = setUUID [] (setAgentStatus Ready a)"

lemma hangup_agent_search:
  assumes "list_all (\<lambda>p. p < length (agents cs)) ps"
  shows "hangup_agent (Some d) ps cs =
    Inr (case find_if (\<lambda>p. getDn (deref cs p) = d) ps of
           None \<Rightarrow> cs | Some i \<Rightarrow> printAgent (ps ! i) (upd (ps ! i) hung_up cs))"
  using assms
  by (induction ps) (auto simp: upd_upd hung_up_def [abs_def] split: option.splits)

lemma hangup_agent_None:
  "hangup_agent None ps cs =
     (if ps = [] then Inr cs else Inl (NullString ''basic_string: construction from null''))"
  by (cases ps) simp_all

lemma getDn_hung_up [simp]: "getDn (hung_up a) = getDn a"
  by (simp add: hung_up_def)

lemma hangup_agent_directory:
  fixes d :: string
  assumes ok: "registry_ok cs"
  defines "cs' \<equiv> (case find_dn d cs of
      None \<Rightarrow> cs | Some i \<Rightarrow> printAgent (m_listAgent cs ! i) (upd (m_listAgent cs ! i) hung_up cs))"
  shows "hangup_agent (Some d) (m_listAgent cs) cs = Inr cs'" and "registry_ok cs'"
    and "directory cs' = (directory cs)(d := map_option hung_up (directory cs d))"
proof -
  show "hangup_agent (Some d) (m_listAgent cs) cs = Inr cs'"
    using ok by (simp add: hangup_agent_search registry_ok_def cs'_def find_dn_def)
  show "registry_ok cs'"
    using ok by (auto simp: cs'_def split: option.splits intro!: registry_ok_upd dest: find_dn_SomeD)
  show "directory cs' = (directory cs)(d := map_option hung_up (directory cs d))"
  proof (cases "find_dn d cs")
    case None
    then have "directory cs d = None" by (simp add: directory_find)
    with None show ?thesis by (auto simp: fun_eq_iff cs'_def)
  next
    case (Some i)
    then show ?thesis using directory_upd [OF ok Some, of hung_up] by (simp add: cs'_def)
  qed
qed

lemma print_hangup_frame [simp, cs_frame]:
  "m_listAgent (print_hangup n d c p cs) = m_listAgent cs" "agents (print_hangup n d c p cs) = agents cs"
  "roster (print_hangup n d c p cs) = roster cs" "registry_ok (print_hangup n d c p cs) = registry_ok cs"
  "directory (print_hangup n d c p cs) = directory cs" "calls (print_hangup n d c p cs) = calls cs"
  by (simp_all add: print_hangup_def split: option.splits)

text \<open>What an event means for the abstract directory.\<close>

definition event_directory :: "esl_event \<Rightarrow> (string \<Rightarrow> Agent option) \<Rightarrow> (string \<Rightarrow> Agent option)" where
  "event_directory ev m =
     (case esl_event_get_header ev ''Caller-Destination-Number'' of
        None \<Rightarrow> m
      | Some d \<Rightarrow>
          if event_id ev = ESL_EVENT_CHANNEL_CREATE then
            (case esl_event_get_header ev ''Unique-ID'' of
               None \<Rightarrow> m | Some u \<Rightarrow> m(d := map_option (setUUID u) (m d)))
          else if event_id ev = ESL_EVENT_CHANNEL_HANGUP_COMPLETE then m(d := map_option hung_up (m d))
          else m)"

lemma channel_create_Inr:
  assumes ok: "registry_ok cs" and r: "channel_create dest uuid cs = Inr cs'"
  shows "registry_ok cs' \<and> directory cs' = (case dest of None \<Rightarrow> directory cs
    | Some d \<Rightarrow> (case uuid of None \<Rightarrow> directory cs
        | Some u \<Rightarrow> (directory cs)(d := map_option (setUUID u) (directory cs d))))"
proof (cases dest)
  case None
  with r ok show ?thesis by (auto simp: channel_create_def find_callee_None split: if_splits)
next
  case (Some d)
  show ?thesis
  proof (cases uuid)
    case None
    with r ok Some show ?thesis
      by (auto simp: channel_create_def find_callee_Inr split: option.splits)
  next
    case u: (Some u)
    from r Some u channel_create_directory [OF ok, where d = d and u = u] show ?thesis by simp
  qed
qed

lemma switch_event_directory:
  assumes ok: "registry_ok cs" and r: "switch_event ev msg cs = Inr cs'"
  shows "registry_ok cs' \<and> directory cs' = event_directory ev (directory cs)"
proof -
  let ?dest = "esl_event_get_header ev ''Caller-Destination-Number''"
  let ?uuid = "esl_event_get_header ev ''Unique-ID''"
  consider (create) "event_id ev = ESL_EVENT_CHANNEL_CREATE"
    | (hangup) "event_id ev = ESL_EVENT_CHANNEL_HANGUP_COMPLETE"
    | (other) "event_id ev \<noteq> ESL_EVENT_CHANNEL_CREATE" "event_id ev \<noteq> ESL_EVENT_CHANNEL_HANGUP_COMPLETE"
    by blast
  then show ?thesis
  proof cases
    case create
    with r have "channel_create ?dest ?uuid (cout_line [''channel create '', msg] cs) = Inr cs'"
      by (simp add: switch_event_def)
    from channel_create_Inr [OF _ this] ok create show ?thesis
      by (auto simp: event_directory_def split: option.splits)
  next
    case hangup
    let ?cs = "print_hangup (esl_event_get_header ev ''Caller-Caller-ID-Number'') ?dest
      (esl_event_get_header ev ''Hangup-Cause'')
      (esl_event_get_header ev ''variable_sip_hangup_disposition'')
      (cout_line [''channel hangup_complete '', msg] cs)"
    from r hangup have h: "hangup_agent ?dest (m_listAgent ?cs) ?cs = Inr cs'"
      by (simp add: switch_event_def Let_def)
    have ok': "registry_ok ?cs" using ok by simp
    show ?thesis
    proof (cases ?dest)
      case None
      with h ok hangup show ?thesis by (auto simp: event_directory_def hangup_agent_None split: if_splits)
    next
      case (Some d)
      from hangup_agent_directory [OF ok', of d] h Some hangup show ?thesis
        by (simp add: event_directory_def)
    qed
  next
    case other
    with r ok show ?thesis
      by (auto simp: switch_event_def event_directory_def Let_def split: option.splits if_splits)
  qed
qed

lemma event_recv_directory:
  assumes ok: "registry_ok cs" and r: "event_recv st h cs = Inr cs'"
  shows "registry_ok cs' \<and> directory cs' =
    (case (st, last_ievent h) of (ESL_SUCCESS, Some ev) \<Rightarrow> event_directory ev (directory cs)
     | _ \<Rightarrow> directory cs)"
  using r ok
  by (auto simp: event_recv_def handle_success_def and_then_Inr switch_event_directory
      split: esl_status_t.splits option.splits)

lemma event_thread_ok:
  "registry_ok cs \<Longrightarrow> event_thread conn xs cs = Inr (ended, cs') \<Longrightarrow> registry_ok cs'"
proof (induction xs arbitrary: conn cs)
  case Nil
  then show ?case by simp
next
  case (Cons x xs)
  then show ?case
    by (cases x) (auto simp: and_then_Inr dest: event_recv_directory split: if_splits)
qed

section \<open>Facts about the thread\<close>

text \<open>
  The events the thread handles, in order: the internal events of the successful receives, up to the
  one after which the handle is no longer connected.
\<close>

fun heard :: "bool \<Rightarrow> recv_input list \<Rightarrow> esl_event list" where
  "heard conn [] = []"
| "heard conn ((st, h) # xs) =
     (if conn then (case (st, last_ievent h) of (ESL_SUCCESS, Some ev) \<Rightarrow> [ev] | _ \<Rightarrow> []) @ heard (connected h) xs
      else [])"

lemma event_thread_fold:
  "registry_ok cs \<Longrightarrow> event_thread conn xs cs = Inr (ended, cs') \<Longrightarrow>
     registry_ok cs' \<and> directory cs' = fold event_directory (heard conn xs) (directory cs)"
proof (induction xs arbitrary: conn cs)
  case Nil
  then show ?case by simp
next
  case (Cons x xs)
  obtain st h where x: "x = (st, h)" by (cases x)
  show ?case
  proof (cases conn)
    case False
    with Cons.prems x show ?thesis by simp
  next
    case True
    with Cons.prems(2) x obtain cs1 where r: "event_recv st h cs = Inr cs1"
      and rest: "event_thread (connected h) xs cs1 = Inr (ended, cs')"
      by (auto simp: and_then_Inr)
    from event_recv_directory [OF Cons.prems(1) r] Cons.IH [OF _ rest] True x show ?thesis
      by (simp split: esl_status_t.splits option.splits)
  qed
qed

text \<open>The formatted length of an event.\<close>

definition message_length :: "esl_event \<Rightarrow> nat" where
  "message_length ev =
     55 + length (pct_s (esl_event_get_header ev ''Unique-ID'')) +
     length (pct_s (esl_event_get_header ev ''Caller-Caller-ID-Number'')) +
     length (pct_s (esl_event_get_header ev ''Caller-Destination-Number'')) +
     length (pct_s (esl_event_get_header ev ''Hangup-Cause'')) +
     length (pct_s (esl_event_get_header ev ''variable_sip_hangup_disposition''))"

text \<open>The cases in which handling a delivered event ends in a fault.\<close>

definition event_faults :: "esl_event \<Rightarrow> call_service \<Rightarrow> bool" where
  "event_faults ev cs \<longleftrightarrow>
     1024 \<le> message_length ev \<or>
     (case esl_event_get_header ev ''Caller-Destination-Number'' of
        None \<Rightarrow> (event_id ev = ESL_EVENT_CHANNEL_CREATE \<or> event_id ev = ESL_EVENT_CHANNEL_HANGUP_COMPLETE) \<and>
          m_listAgent cs \<noteq> []
      | Some d \<Rightarrow> event_id ev = ESL_EVENT_CHANNEL_CREATE \<and> directory cs d \<noteq> None \<and>
          esl_event_get_header ev ''Unique-ID'' = None)"

lemma find_dn_cout [simp]: "find_dn d (cout_line l cs) = find_dn d cs"
  by (simp add: find_dn_def)

lemma channel_create_Inl:
  "(\<exists>f. channel_create dest uuid cs = Inl f) \<longleftrightarrow>
     (case dest of None \<Rightarrow> m_listAgent cs \<noteq> []
      | Some d \<Rightarrow> find_dn d cs \<noteq> None \<and> uuid = None)"
  by (cases uuid) (auto simp: channel_create_def find_callee_Inr find_callee_None split: option.splits)

lemma directory_None_iff: "directory cs d = None \<longleftrightarrow> find_dn d cs = None"
  by (simp add: directory_find split: option.splits)

lemma hangup_agent_Inl:
  "registry_ok cs \<Longrightarrow> (\<exists>f. hangup_agent dest (m_listAgent cs) cs = Inl f) \<longleftrightarrow> dest = None \<and> m_listAgent cs \<noteq> []"
  by (cases dest) (auto simp: hangup_agent_None hangup_agent_directory(1))

lemma switch_event_Inl:
  assumes ok: "registry_ok cs"
  shows "(\<exists>f. switch_event ev msg cs = Inl f) \<longleftrightarrow>
     (case esl_event_get_header ev ''Caller-Destination-Number'' of
        None \<Rightarrow> (event_id ev = ESL_EVENT_CHANNEL_CREATE \<or> event_id ev = ESL_EVENT_CHANNEL_HANGUP_COMPLETE) \<and>
          m_listAgent cs \<noteq> []
      | Some d \<Rightarrow> event_id ev = ESL_EVENT_CHANNEL_CREATE \<and> directory cs d \<noteq> None \<and>
          esl_event_get_header ev ''Unique-ID'' = None)"
proof -
  consider (create) "event_id ev = ESL_EVENT_CHANNEL_CREATE"
    | (hangup) "event_id ev = ESL_EVENT_CHANNEL_HANGUP_COMPLETE"
    | (other) "event_id ev \<noteq> ESL_EVENT_CHANNEL_CREATE" "event_id ev \<noteq> ESL_EVENT_CHANNEL_HANGUP_COMPLETE"
    by blast
  then show ?thesis
  proof cases
    case create
    then show ?thesis
      by (simp add: switch_event_def Let_def channel_create_Inl directory_None_iff split: option.split)
  next
    case hangup
    have "registry_ok (print_hangup n d c p (cout_line l cs))" for n d c p l using ok by simp
    from hangup_agent_Inl [OF this] hangup show ?thesis
      by (simp add: switch_event_def Let_def split: option.split)
  next
    case other
    then show ?thesis by (simp add: switch_event_def Let_def split: option.split)
  qed
qed

lemma event_recv_faults:
  assumes "registry_ok cs" and "last_event h = Some e" and "last_ievent h = Some ev"
  shows "(\<exists>f. event_recv ESL_SUCCESS h cs = Inl f) \<longleftrightarrow> event_faults ev cs"
proof -
  let ?msg = "event_message (esl_event_get_header ev ''Unique-ID'')
     (esl_event_get_header ev ''Caller-Caller-ID-Number'') (esl_event_get_header ev ''Caller-Destination-Number'')
     (esl_event_get_header ev ''Hangup-Cause'') (esl_event_get_header ev ''variable_sip_hangup_disposition'')"
  have l: "length ?msg = message_length ev" by (simp add: length_event_message message_length_def)
  have "event_recv ESL_SUCCESS h cs = and_then (sprintf_buf 1024 ?msg) (\<lambda>m. switch_event ev m cs)"
    by (simp add: event_recv_def handle_success_def assms)
  moreover have "sprintf_buf 1024 ?msg =
      (if message_length ev < 1024 then Inr ?msg else Inl (BufferOverflow (Suc (message_length ev))))"
    by (simp add: sprintf_buf_def l)
  ultimately show ?thesis
    using switch_event_Inl [OF assms(1), of ev ?msg]
    by (auto simp: event_faults_def)
qed

section \<open>Properties\<close>

text \<open>
  C4. The event thread maintains the directory: if it handles its receives without a fault, the agent
  list keeps its invariant, and each event handled before the handle disconnected has had exactly its
  effect on the directory, in order: a channel-create stores the channel's identifier in the entry of
  the called number, a hangup-complete makes that entry ready without identifier, and no other event,
  time-out or failure changes anything.
\<close>
theorem event_thread_directory:
  assumes "registry_ok cs" and "event_thread conn xs cs = Inr (ended, cs')"
  shows "registry_ok cs' \<and> directory cs' = fold event_directory (heard conn xs) (directory cs)"
  using event_thread_fold [OF assms] .

lemma event_thread_directory_witness:
  "\<exists>cs'. event_thread True [(ESL_SUCCESS, plain_handle (sample_event ESL_EVENT_CHANNEL_CREATE
       [''Caller-Destination-Number'' \<mapsto> ''1001'', ''Unique-ID'' \<mapsto> ''u1'']))] two_agents = Inr (False, cs') \<and>
     map_option getUUID (directory cs' ''1001'') = Some ''u1''"
proof -
  let ?ev = "sample_event ESL_EVENT_CHANNEL_CREATE [''Caller-Destination-Number'' \<mapsto> ''1001'', ''Unique-ID'' \<mapsto> ''u1'']"
  let ?h = "plain_handle ?ev"
  have l: "last_event ?h = Some (sample_event 0 [''content-type'' \<mapsto> ''text/event-plain''])" "connected ?h"
    by (simp_all add: plain_handle_def)
  have "\<not> event_faults ?ev two_agents"
    by (simp add: event_faults_def message_length_def pct_s_def esl_event_get_header_def sample_event_def)
  with event_recv_faults [OF two_agents(1) l(1), of ?ev]
  have "\<not> (\<exists>f. event_recv ESL_SUCCESS ?h two_agents = Inl f)" by simp
  then obtain cs' where "event_recv ESL_SUCCESS ?h two_agents = Inr cs'"
    by (cases "event_recv ESL_SUCCESS ?h two_agents") auto
  then have r: "event_thread True [(ESL_SUCCESS, ?h)] two_agents = Inr (False, cs')" by (simp add: l)
  have "directory two_agents ''1001'' = Some (logged_in ''1001'' ''a'' None)"
    by (simp add: directory_def two_agents(2) logged_in_def)
  with event_thread_directory [OF two_agents(1) r] r show ?thesis
    by (simp add: event_directory_def esl_event_get_header_def sample_event_def)
qed

text \<open>
  C10. When an event ends the process, exactly: a delivered event faults if and only if the message
  formatted from its headers needs more than the 1024 bytes of the buffer (terminator included), or a
  create or hangup-complete event without called number arrives while agents are listed, or a create
  event for a listed number has no channel identifier.
\<close>
theorem delivered_event_faults:
  assumes "registry_ok cs" and "last_event h = Some e" and "last_ievent h = Some ev"
  shows "(\<exists>f. event_recv ESL_SUCCESS h cs = Inl f) \<longleftrightarrow> event_faults ev cs"
  using event_recv_faults [OF assms] .

lemma delivered_event_faults_witness:
  "\<exists>f. event_recv ESL_SUCCESS (plain_handle (sample_event ESL_EVENT_CHANNEL_HANGUP_COMPLETE Map.empty)) two_agents = Inl f"
proof -
  let ?ev = "sample_event ESL_EVENT_CHANNEL_HANGUP_COMPLETE Map.empty"
  have l: "last_event (plain_handle ?ev) = Some (sample_event 0 [''content-type'' \<mapsto> ''text/event-plain''])"
    by (simp add: plain_handle_def)
  have "m_listAgent two_agents \<noteq> []" using two_agents(2) by (auto simp: roster_def)
  with delivered_event_faults [OF two_agents(1) l, of ?ev] show ?thesis
    by (simp add: event_faults_def esl_event_get_header_def) (simp add: sample_event_def)
qed

text \<open>
  The end of a call makes its agent available whatever the agent asked for: after a
  hangup-complete event for a listed number (whose message fits the buffer), that agent is ready and
  has no call identifier, even if it had been set to not ready or on leave; number, name and polling
  flag are kept, and no other entry changes.
\<close>
lemma hangup_forces_ready:
  assumes ok: "registry_ok cs" and "directory cs d = Some a"
    and "last_event h = Some e" and "last_ievent h = Some ev" and "event_id ev = ESL_EVENT_CHANNEL_HANGUP_COMPLETE"
    and "esl_event_get_header ev ''Caller-Destination-Number'' = Some d" and "message_length ev < 1024"
  shows "\<exists>cs'. event_recv ESL_SUCCESS h cs = Inr cs' \<and>
    directory cs' = (directory cs)(d \<mapsto> a\<lparr>m_eStatus := Ready, m_strUUID := []\<rparr>)"
proof -
  let ?msg = "event_message (esl_event_get_header ev ''Unique-ID'')
     (esl_event_get_header ev ''Caller-Caller-ID-Number'') (Some d)
     (esl_event_get_header ev ''Hangup-Cause'') (esl_event_get_header ev ''variable_sip_hangup_disposition'')"
  have e: "event_recv ESL_SUCCESS h cs = switch_event ev ?msg cs"
    using assms(3-7) by (simp add: event_recv_def handle_success_def sprintf_buf_def length_event_message message_length_def)
  have "\<not> (\<exists>f. switch_event ev ?msg cs = Inl f)"
    using assms(5,6) by (simp add: switch_event_Inl [OF ok])
  then obtain cs' where s: "switch_event ev ?msg cs = Inr cs'"
    by (cases "switch_event ev ?msg cs") auto
  with switch_event_directory [OF ok s] assms(2,5,6) show ?thesis
    by (simp add: e event_directory_def hung_up_def setUUID_def setAgentStatus_def)
qed

lemma hangup_forces_ready_witness:
  "\<exists>cs'. event_recv ESL_SUCCESS (plain_handle (sample_event ESL_EVENT_CHANNEL_HANGUP_COMPLETE
       [''Caller-Destination-Number'' \<mapsto> ''1001''])) (snd (agent_status leave ''1001'' two_agents)) = Inr cs' \<and>
     map_option getAgentStatus (directory cs' ''1001'') = Some Ready"
proof -
  let ?ev = "sample_event ESL_EVENT_CHANNEL_HANGUP_COMPLETE [''Caller-Destination-Number'' \<mapsto> ''1001'']"
  let ?cs = "snd (agent_status leave ''1001'' two_agents)"
  have h: "last_event (plain_handle ?ev) = Some (sample_event 0 [''content-type'' \<mapsto> ''text/event-plain''])"
    "last_ievent (plain_handle ?ev) = Some ?ev" "event_id ?ev = ESL_EVENT_CHANNEL_HANGUP_COMPLETE"
    "esl_event_get_header ?ev ''Caller-Destination-Number'' = Some ''1001''" "message_length ?ev < 1024"
    by (simp_all add: plain_handle_def sample_event_def esl_event_get_header_def message_length_def pct_s_def)
  have ok: "registry_ok ?cs" using status_refines [OF two_agents(1)] by blast
  have "directory two_agents ''1001'' = Some (logged_in ''1001'' ''a'' None)"
    by (simp add: directory_def two_agents(2) logged_in_def)
  then have "directory ?cs ''1001'' = Some (setAgentStatus leave (logged_in ''1001'' ''a'' None))"
    using status_refines [OF two_agents(1), of leave "''1001''"] by simp
  from hangup_forces_ready [OF ok this h] show ?thesis by (auto simp: getAgentStatus_def)
qed

end
