(* ===== verification/Http_Client.thy ===== *)
theory Http_Client
  imports Call_Control
begin

text \<open>
  The outgoing side (\<open>src/CallService.cpp\<close>): the HTTP client functions \<open>HttpPost\<close>, \<open>HttpGet\<close> and
  their write callback, and \<open>doService\<close>, the loop that posts queued call events.  libcurl is a
  binary: \<open>transfer\<close>, a parameter, gives for a request the result code and the chunks in which
  the body arrives; each chunk is handed to the write callback with element size 1.
\<close>

abbreviation (input) CURLE_OK :: int where
  "CURLE_OK \<equiv> 0"

abbreviation (input) CURLE_FAILED_INIT :: int where
  "CURLE_FAILED_INIT \<equiv> 2"

section \<open>The write callback\<close>

text \<open>
  \<open>sz\<close> (the source's \<open>size\<close>) and \<open>nmemb\<close> are 32-bit signed: their product must not overflow; a negative one, as a
  \<open>size_t\<close>, makes \<open>append\<close> throw.
\<close>

definition writedata :: "string \<Rightarrow> int \<Rightarrow> int \<Rightarrow> string \<Rightarrow> fault + int \<times> string" where
  "writedata buffer sz nmemb str =
     (let n = sz * nmemb
      in if n < - (2 ^ 31) \<or> 2 ^ 31 \<le> n then Inl SignedOverflow
         else if n < 0 then Inl (Exception ''std::length_error'')
         else if length buffer < nat n then Inl (OutOfBounds (length buffer))
         else Inr (nmemb, str @ take (nat n) buffer))"

fun deliver :: "string list \<Rightarrow> string \<Rightarrow> fault + string" where
  "deliver [] resp = Inr resp"
| "deliver (b # bs) resp =
     and_then (writedata b 1 (int (length b)) resp) (\<lambda>(n, resp). deliver bs resp)"

lemma writedata_chunk:
  "length b < 2 ^ 31 \<Longrightarrow> writedata b 1 (int (length b)) resp = Inr (int (length b), resp @ b)"
  by (simp add: writedata_def)

lemma deliver_concat:
  "list_all (\<lambda>b. length b < 2 ^ 31) bs \<Longrightarrow> deliver bs resp = Inr (resp @ concat bs)"
  by (induction bs arbitrary: resp) (auto simp: writedata_chunk)

section \<open>Requests\<close>

text \<open>
  \<open>curl_ok\<close> is whether \<open>curl_easy_init\<close> returned a handle.  The reference parameter \<open>response\<close> is
  the second component of the result.
\<close>

definition HttpPost ::
  "bool \<Rightarrow> (http_request \<Rightarrow> int \<times> string list) \<Rightarrow> string \<Rightarrow> string \<Rightarrow> string \<Rightarrow> int \<Rightarrow>
     fault + int \<times> string \<times> effect list" where
  "HttpPost curl_ok transfer url data response timeout =
     (let timeout = (if timeout \<le> 0 then 20 else timeout)
      in if \<not> curl_ok then Inr (CURLE_FAILED_INIT, response, [])
         else (let rq = HttpRequest ''POST'' url
                          [''Accept: application/json'', ''Content-Type: application/json'', ''charsets: utf-8'']
                          (Some timeout) (c_str data);
                   (res, chunks) = transfer rq
               in and_then (deliver chunks []) (\<lambda>resp.
                    Inr (res, (if res \<noteq> CURLE_OK then response else resp), [Perform rq]))))"

text \<open>
  \<open>HttpGet\<close> passes the \<open>std::string\<close> object itself through the variable arguments of
  \<open>curl_easy_setopt\<close>, which reads it as a \<open>const char*\<close>: \<open>object_bytes\<close>, a parameter, is the text
  libcurl finds at the object's address.  With \<open>CURLOPT_POST\<close> set the request is a POST.
\<close>

definition HttpGet ::
  "bool \<Rightarrow> (http_request \<Rightarrow> int \<times> string list) \<Rightarrow> (string \<Rightarrow> string) \<Rightarrow> string \<Rightarrow> string \<Rightarrow> string \<Rightarrow>
     fault + int \<times> string \<times> effect list" where
  "HttpGet curl_ok transfer object_bytes url param resp =
     (if \<not> curl_ok then Inr (CURLE_FAILED_INIT, resp, [])
      else (let rq = HttpRequest ''POST'' url
                       [''Content-Type:application/x-www-form-urlencoded;charset=UTF-8'']
                       None (object_bytes param);
                (res, chunks) = transfer rq
            in and_then (deliver chunks []) (\<lambda>response.
                 Inr (res, (if res \<noteq> CURLE_OK then resp else response), [Perform rq]))))"

section \<open>The event queue\<close>

text \<open>One iteration of the loop of \<open>doService\<close>.\<close>

definition service_iter ::
  "bool \<Rightarrow> (http_request \<Rightarrow> int \<times> string list) \<Rightarrow> call_service \<Rightarrow> fault + call_service" where
  "service_iter curl_ok transfer cs =
     (case m_queueEvent cs of
        [] \<Rightarrow> Inr (emit (Sleep 200) cs)
      | pData # q \<Rightarrow>
          (let cs = cs\<lparr>m_queueEvent := q\<rparr>;
               call_in_url = ''''; call_out_url = '''';
               url = (if getDir pData = callin then call_in_url else call_out_url)
           in and_then (HttpPost curl_ok transfer url (getData pData) [] 0)
                (\<lambda>(nRet, res, fx). Inr (emits fx cs))))"

text \<open>
  The loop with a bound on the iterations: the flag is whether it ended, which it does when
  \<open>m_bRunning\<close> is false.
\<close>

fun doService ::
  "bool \<Rightarrow> (http_request \<Rightarrow> int \<times> string list) \<Rightarrow> nat \<Rightarrow> call_service \<Rightarrow> fault + bool \<times> call_service" where
  "doService curl_ok transfer 0 cs = Inr (\<not> m_bRunning cs, cs)"
| "doService curl_ok transfer (Suc n) cs =
     (if m_bRunning cs then and_then (service_iter curl_ok transfer cs) (doService curl_ok transfer n)
      else Inr (True, cs))"

definition stopService :: "call_service \<Rightarrow> call_service" where
  "stopService cs = cs\<lparr>m_bRunning := False\<rparr>"

text \<open>What posting an event performs.\<close>

definition event_request :: "CallEvent \<Rightarrow> http_request" where
  "event_request ev = HttpRequest ''POST'' ''''
     [''Accept: application/json'', ''Content-Type: application/json'', ''charsets: utf-8'']
     (Some 20) (c_str (getData ev))"

definition chunks_ok :: "(http_request \<Rightarrow> int \<times> string list) \<Rightarrow> bool" where
  "chunks_ok transfer \<longleftrightarrow> (\<forall>rq. list_all (\<lambda>b. length b < 2 ^ 31) (snd (transfer rq)))"

lemma HttpPost_ok:
  assumes "chunks_ok transfer"
  shows "HttpPost True transfer url data response timeout =
    (let rq = HttpRequest ''POST'' url
                [''Accept: application/json'', ''Content-Type: application/json'', ''charsets: utf-8'']
                (Some (if timeout \<le> 0 then 20 else timeout)) (c_str data)
     in Inr (fst (transfer rq),
             (if fst (transfer rq) = CURLE_OK then concat (snd (transfer rq)) else response), [Perform rq]))"
  using assms by (simp add: HttpPost_def chunks_ok_def deliver_concat case_prod_beta Let_def)

text \<open>What the loop does for the front event: a request with a handle, nothing without.\<close>

definition posted :: "bool \<Rightarrow> CallEvent \<Rightarrow> effect list" where
  "posted curl_ok ev = (if curl_ok then [Perform (event_request ev)] else [])"

lemma service_iter_event:
  assumes "chunks_ok transfer" and "m_queueEvent cs = ev # q"
  shows "service_iter c transfer cs = Inr (emits (posted c ev) (cs\<lparr>m_queueEvent := q\<rparr>))"
  using assms
  by (cases c)
    (simp_all add: service_iter_def HttpPost_ok event_request_def posted_def Let_def, simp add: HttpPost_def)

lemma doService_drains:
  assumes "chunks_ok transfer" and "m_bRunning cs"
  shows "\<exists>cs'. doService c transfer (length (m_queueEvent cs)) cs = Inr (False, cs') \<and>
    m_bRunning cs' \<and> m_queueEvent cs' = [] \<and> m_listAgent cs' = m_listAgent cs \<and> agents cs' = agents cs \<and>
    calls cs' = calls cs @ concat (map (posted c) (m_queueEvent cs))"
  using assms(2)
proof (induction "m_queueEvent cs" arbitrary: cs)
  case Nil
  then have "m_queueEvent cs = []" by simp
  with Nil show ?case by simp
next
  case (Cons ev q)
  let ?cs1 = "emits (posted c ev) (cs\<lparr>m_queueEvent := q\<rparr>)"
  have q: "m_queueEvent cs = ev # q" using Cons.hyps(2) by simp
  have "m_bRunning ?cs1" using Cons.prems by simp
  moreover have "calls (cs\<lparr>m_queueEvent := q\<rparr>) = calls cs" by (simp add: calls_def)
  moreover have "filter (\<lambda>e. \<not> is_cout e) (posted c ev) = posted c ev" by (simp add: posted_def)
  moreover note Cons.hyps(1) [of ?cs1]
  ultimately show ?case
    using Cons.prems by (simp add: q service_iter_event [OF assms(1) q])
qed

text \<open>While the service runs and no thread stops it, the loop does not end, whatever the bound.\<close>

lemma service_iter_runs:
  assumes "chunks_ok transfer"
  shows "\<exists>cs'. service_iter c transfer cs = Inr cs' \<and> m_bRunning cs' = m_bRunning cs"
proof (cases "m_queueEvent cs")
  case Nil
  then show ?thesis by (simp add: service_iter_def)
next
  case (Cons ev q)
  then show ?thesis by (simp add: service_iter_event [OF assms Cons])
qed

lemma doService_runs:
  assumes "chunks_ok transfer"
  shows "m_bRunning cs \<Longrightarrow> \<exists>cs'. doService c transfer n cs = Inr (False, cs') \<and> m_bRunning cs'"
proof (induction n arbitrary: cs)
  case 0
  then show ?case by simp
next
  case (Suc n)
  from service_iter_runs [OF assms, of c cs] Suc.prems
  obtain cs1 where "service_iter c transfer cs = Inr cs1" "m_bRunning cs1" by auto
  with Suc show ?case by simp
qed

section \<open>Properties\<close>

text \<open>
  \<open>HttpPost\<close>: with a handle it performs one POST of the data (up to its first NUL) to the URL,
  with a time-out of 20 seconds unless a positive one is given; it returns libcurl's code, and the
  response is the concatenation of the received chunks if that code is success, the old value of the
  parameter otherwise.  Without a handle it performs nothing.
\<close>
lemma HttpPost_result:
  assumes "chunks_ok transfer"
  shows "HttpPost curl_ok transfer url data response timeout =
    (if \<not> curl_ok then Inr (CURLE_FAILED_INIT, response, [])
     else (let rq = HttpRequest ''POST'' url
                      [''Accept: application/json'', ''Content-Type: application/json'', ''charsets: utf-8'']
                      (Some (if timeout \<le> 0 then 20 else timeout)) (c_str data)
           in Inr (fst (transfer rq),
                   (if fst (transfer rq) = CURLE_OK then concat (snd (transfer rq)) else response), [Perform rq])))"
proof (cases curl_ok)
  case True
  then show ?thesis using HttpPost_ok [OF assms] by simp
next
  case False
  then show ?thesis by (simp add: HttpPost_def)
qed

lemma HttpPost_result_witness:
  "\<exists>fx. HttpPost True (\<lambda>rq. (0, [''a'', ''bc''])) ''u'' ''{}'' ''old'' 0 = Inr (0, ''abc'', fx)"
proof -
  have "chunks_ok (\<lambda>rq. (0, [''a'', ''bc'']))" by (simp add: chunks_ok_def)
  from HttpPost_result [OF this] show ?thesis by simp
qed

text \<open>
  C21. The queue: while the service runs, as many iterations of \<open>doService\<close> as there are queued
  events empty the queue and leave the loop running.  If \<open>curl_easy_init\<close> gives a handle, every
  event has been posted, once and in the order they were queued, each to the empty URL (both URL
  variables are empty strings); if it gives none, every event has been popped and lost and nothing
  was sent.  Assumed of libcurl: it hands the response over in chunks of less than two gigabytes
  (its documented limit is far below), so the sizes fit the callback's int parameters; whether it
  gives a handle is taken to be the same for all the events.
\<close>
theorem doService_posts_in_order:
  assumes "chunks_ok transfer" and "m_bRunning cs"
  shows "\<exists>cs'. doService curl_ok transfer (length (m_queueEvent cs)) cs = Inr (False, cs') \<and>
    m_queueEvent cs' = [] \<and> m_bRunning cs' \<and>
    calls cs' = calls cs @ (if curl_ok then map (Perform \<circ> event_request) (m_queueEvent cs) else [])"
proof -
  have "concat (map (posted curl_ok) evs) = (if curl_ok then map (Perform \<circ> event_request) evs else [])" for evs
    by (induction evs) (simp_all add: posted_def)
  with doService_drains [OF assms, of curl_ok] show ?thesis by auto
qed

lemma doService_posts_in_order_witness:
  "\<exists>ev1 ev2 cs'. doService True (\<lambda>rq. (0, [])) 2 (new_CallService\<lparr>m_bRunning := True, m_queueEvent := [ev1, ev2]\<rparr>) = Inr (False, cs') \<and>
     calls cs' = [Perform (event_request ev1), Perform (event_request ev2)]"
proof -
  fix ev1 ev2 :: CallEvent
  let ?cs = "new_CallService\<lparr>m_bRunning := True, m_queueEvent := [ev1, ev2]\<rparr>"
  have t: "chunks_ok (\<lambda>rq. (0, []))" by (simp add: chunks_ok_def)
  have "calls ?cs = []" by (simp add: calls_def new_CallService_def)
  with doService_posts_in_order [OF t, of ?cs True] show ?thesis by (auto simp: numeral_2_eq_2)
qed

end
