(* ===== verification/Startup.thy ===== *)
theory Startup
  imports Http_Client
begin

text \<open>
  Process start (\<open>src/main.cpp\<close>, \<open>CallService::startUp\<close> in \<open>src/CallService.cpp\<close>): the database
  check, the threads, the inbound connection, \<open>main\<close> and the daemon set-up.
\<close>

section \<open>The database check\<close>

text \<open>
  \<open>connect\<close> is the exception the connection throws, if any; \<open>exec\<close> gives for a statement the
  exception or the text of the first field of the first row, and \<open>as_bool\<close> the conversion of such
  a text, which may throw; \<open>commit\<close> is the exception of the commit.  The result is the exception
  that left the \<open>try\<close> block, if any.
\<close>

record database =
  connect :: error_code
  exec :: "string \<Rightarrow> string + string"
  as_bool :: "string \<Rightarrow> string + bool"
  commit :: error_code

definition conninfo :: string where
  "conninfo = ''dbname=postgres user=postgres password=postgres hostaddr=127.0.0.1 port=5432''"

definition exists_query :: string where
  "exists_query = ''SELECT EXISTS (SELECT FROM information_schema.tables WHERE table_schema = '' @
     [CHR 0x27] @ ''public'' @ [CHR 0x27] @ '' AND table_name = '' @ [CHR 0x27] @ ''calls_ex'' @ [CHR 0x27] @ '');''"

definition create_table :: string where
  "create_table = ''CREATE TABLE calls_ex(id SERIAL PRIMARY KEY, name VARCHAR(255));''"

definition commit_work :: "database \<Rightarrow> call_service \<Rightarrow> string option \<times> call_service" where
  "commit_work db cs = (commit db, emit SqlCommit cs)"

definition check_table :: "database \<Rightarrow> call_service \<Rightarrow> string option \<times> call_service" where
  "check_table db cs =
     (let cs = emit (SqlConnect conninfo) cs
      in case connect db of
           Some e \<Rightarrow> (Some e, cs)
         | None \<Rightarrow>
             (let cs = emit (Sql ''select version()'') cs
              in case exec db ''select version()'' of
                   Inl e \<Rightarrow> (Some e, cs)
                 | Inr v \<Rightarrow>
                     (let cs = cout_line [''Server version: '', v] cs;
                          cs = emit (Sql exists_query) cs
                      in case and_then (exec db exists_query) (as_bool db) of
                           Inl e \<Rightarrow> (Some e, cs)
                         | Inr True \<Rightarrow> commit_work db (cout_line [''Existed Table: '', ''calls_ex''] cs)
                         | Inr False \<Rightarrow>
                             (let cs = cout_line [''None Existed Table: '', ''calls_ex. It will be created...''] cs;
                                  cs = emit (Sql create_table) cs
                              in case exec db create_table of
                                   Inl e \<Rightarrow> (Some e, cs)
                                 | Inr _ \<Rightarrow> commit_work db (cout_line [''Created Table: '', ''calls_ex''] cs)))))"

definition startUp :: "database \<Rightarrow> call_service \<Rightarrow> bool \<times> call_service" where
  "startUp db cs =
     (let cs = (case check_table db cs of
                  (None, cs) \<Rightarrow> cs
                | (Some what, cs) \<Rightarrow> cout_line [''pg: '', what] cs);
          cs = cs\<lparr>m_bRunning := True\<rparr>;
          cs = emits [SpawnThread ''websocket 18081'', SpawnThread ''rest 18080'',
                      SpawnThread ''listen 18040'', SpawnThread ''inbound''] cs
      in (True, cs))"

definition loadconfig :: int where
  "loadconfig = 0"

section \<open>The threads\<close>

text \<open>The websocket thread creates the server; the listener thread binds \<open>acd_callback\<close>.\<close>

definition websocket_thread :: "error_code \<Rightarrow> call_service \<Rightarrow> fault + call_service" where
  "websocket_thread opened cs =
     and_then (new_WebsocketServer opened) (\<lambda>srv. Inr (cs\<lparr>g_WebsocketServer := Some srv\<rparr>))"

definition listen_thread :: "call_service \<Rightarrow> call_service" where
  "listen_thread cs = emit (EslListen ''0.0.0.0'' 18040) cs"

text \<open>
  The inbound connection: connection attempts are repeated until one succeeds (returns
  \<open>ESL_SUCCESS\<close>), each failure logging the error text the handle holds.  \<open>None\<close> means that all the
  given attempts failed.
\<close>

fun connect_inbound :: "(esl_status_t \<times> string \<times> esl_handle) list \<Rightarrow> call_service \<Rightarrow> esl_handle option \<times> call_service" where
  "connect_inbound [] cs = (None, cs)"
| "connect_inbound ((st, err, h) # xs) cs =
     (let cs = emit (EslConnect ''127.0.0.1'' 8021) cs
      in if st \<noteq> ESL_SUCCESS
         then connect_inbound xs (emit (EslLog ERROR (''Error Connecteling [%s]'' @ [newline]) [Some err]) cs)
         else (Some h, cs))"

text \<open>
  \<open>setHandle\<close> copies the handle into \<open>m_handle\<close> member by member, pointers included.  The first
  command the thread sends afterwards replaces the reply in its own handle, so if there was one, the
  copy's pointer to it is stale from then on.
\<close>

definition setHandle :: "esl_handle \<Rightarrow> call_service \<Rightarrow> call_service" where
  "setHandle h cs = cs\<lparr>m_handle := h, m_handle_stale := False\<rparr>"

definition inbound_thread ::
  "send_recv \<Rightarrow> (esl_status_t \<times> string \<times> esl_handle) list \<Rightarrow> call_service \<Rightarrow> fault + bool \<times> call_service" where
  "inbound_thread send_recv attempts cs =
     (case connect_inbound attempts cs of
        (None, cs) \<Rightarrow> Inr (False, cs)
      | (Some h, cs) \<Rightarrow>
          (let cs = emit (SpawnThread ''events'') cs;
               cs = emit (EslEvents ''ALL'') cs;
               cs = setHandle h cs;
               cmd = ''api version'' @ [newline, newline]
           in and_then (send_recv False h cmd) (\<lambda>h'.
           let cs = cs\<lparr>m_handle_stale := last_sr_event h \<noteq> None\<rparr>;
               cs = log_sr_body h' (emit (EslSendRecv cmd) cs);
               cmd = ''api originate user/1003 &echo'' @ [newline, newline]
           in and_then (send_recv False h' cmd) (\<lambda>h'.
           Inr (True, log_sr_body h' (emit (EslSendRecv cmd) cs))))))"

text \<open>
  So once the inbound connection is up the service's handle is the connected one, and its reply
  pointer is stale as soon as the connection (\<open>esl_events\<close> included) has left a reply in it.
\<close>

lemma inbound_handle_stale:
  assumes "inbound_thread sr attempts cs = Inr (True, cs')"
  shows "\<exists>h. fst (connect_inbound attempts cs) = Some h \<and> m_handle cs' = h \<and>
    m_handle_stale cs' = (last_sr_event h \<noteq> None)"
  using assms
  by (auto simp: inbound_thread_def setHandle_def and_then_Inr Let_def
      split: prod.splits option.splits)

text \<open>The wait of the inbound thread, with a bound on the iterations, and its disconnect.\<close>

fun inbound_wait :: "nat \<Rightarrow> call_service \<Rightarrow> bool \<times> call_service" where
  "inbound_wait 0 cs = (if m_bRunning cs then (False, cs) else (True, emit EslDisconnect cs))"
| "inbound_wait (Suc n) cs =
     (if m_bRunning cs then inbound_wait n (emit (Sleep 1000) cs) else (True, emit EslDisconnect cs))"

section \<open>main\<close>

text \<open>
  \<open>build\<close> is the text of the two build-time macros.  The result is the exit code, or \<open>None\<close> while
  \<open>doService\<close> is still running after \<open>fuel\<close> iterations.
\<close>

definition main ::
  "string \<Rightarrow> database \<Rightarrow> bool \<Rightarrow> (http_request \<Rightarrow> int \<times> string list) \<Rightarrow> nat \<Rightarrow> string list \<Rightarrow> call_service \<Rightarrow>
     fault + int option \<times> call_service" where
  "main build db curl_ok transfer fuel argv cs =
     (if length argv > 1 \<and> c_str (argv ! 1) = ''-v''
      then Inr (Some 0, cout_line [build] (cout_line [''callService 1.0.0''] cs))
      else if loadconfig \<noteq> 0 then Inr (Some (-1), cout_line [''load config:'', [], '' error.''] cs)
      else (case startUp db cs of
              (False, cs) \<Rightarrow> Inr (Some 0, stopService (cout_line [''callService startup error.''] cs))
            | (True, cs) \<Rightarrow>
                and_then (doService curl_ok transfer fuel (cout_line [''callService startup successfully.''] cs))
                  (\<lambda>(ended, cs). if ended then Inr (Some 0, stopService cs) else Inr (None, cs))))"

section \<open>Daemon set-up\<close>

text \<open>
  \<open>InitDeamon\<close>: two forks whose parents exit, then a supervisor that forks a worker, waits for it
  and forks again when it ends.  \<open>fork\<close>'s results and \<open>waitpid\<close>'s are inputs: the first component
  is the pid returned (0 in the child, -1 on failure), the second what \<open>waitpid\<close> returned.
\<close>

datatype daemon_result = Exit int | Worker | Supervising

fun supervise :: "(int \<times> int) list \<Rightarrow> daemon_result" where
  "supervise [] = Supervising"
| "supervise ((pid, waited) # xs) =
     (if pid \<noteq> 0 then (if waited \<noteq> pid then Exit 0 else supervise xs) else Worker)"

definition InitDeamon :: "int \<Rightarrow> int \<Rightarrow> (int \<times> int) list \<Rightarrow> daemon_result" where
  "InitDeamon fork1 fork2 xs =
     (if fork1 \<noteq> 0 then Exit 0 else if fork2 \<noteq> 0 then Exit 0 else supervise xs)"

section \<open>Facts\<close>

lemma check_table_frame:
  "m_listAgent (snd (check_table db cs)) = m_listAgent cs \<and> agents (snd (check_table db cs)) = agents cs \<and>
   m_queueEvent (snd (check_table db cs)) = m_queueEvent cs \<and>
   g_WebsocketServer (snd (check_table db cs)) = g_WebsocketServer cs \<and> m_handle (snd (check_table db cs)) = m_handle cs"
  by (simp add: check_table_def commit_work_def Let_def split: option.splits sum.splits bool.splits)

text \<open>The statements of a successful check, in order.\<close>

lemma check_table_calls:
  "calls (snd (check_table db cs)) = calls cs @ SqlConnect conninfo #
     (if connect db \<noteq> None then [] else
       Sql ''select version()'' #
       (case exec db ''select version()'' of Inl _ \<Rightarrow> [] | Inr _ \<Rightarrow>
         Sql exists_query #
         (case and_then (exec db exists_query) (as_bool db) of Inl _ \<Rightarrow> []
          | Inr True \<Rightarrow> [SqlCommit]
          | Inr False \<Rightarrow> Sql create_table # (case exec db create_table of Inl _ \<Rightarrow> [] | Inr _ \<Rightarrow> [SqlCommit]))))"
  by (cases "connect db"; cases "exec db ''select version()''"; cases "and_then (exec db exists_query) (as_bool db)";
      cases "exec db create_table")
    (simp_all add: check_table_def commit_work_def Let_def split: bool.split)

lemma startUp_True [simp]: "fst (startUp db cs) = True"
  by (simp add: startUp_def Let_def)

lemma startUp_running [simp]: "m_bRunning (snd (startUp db cs))"
  by (simp add: startUp_def Let_def)

lemma startUp_frame [simp]:
  "m_listAgent (snd (startUp db cs)) = m_listAgent cs" "agents (snd (startUp db cs)) = agents cs"
  "m_queueEvent (snd (startUp db cs)) = m_queueEvent cs"
  using check_table_frame [of db cs]
  by (auto simp: startUp_def Let_def split: prod.splits option.splits)

lemma startUp_calls:
  "calls (snd (startUp db cs)) = calls (snd (check_table db cs)) @
     [SpawnThread ''websocket 18081'', SpawnThread ''rest 18080'', SpawnThread ''listen 18040'', SpawnThread ''inbound'']"
proof -
  have "\<And>cs b. calls (cs\<lparr>m_bRunning := b\<rparr>) = calls cs" by (simp add: calls_def)
  then show ?thesis by (simp add: startUp_def Let_def split: prod.splits option.splits)
qed

lemma main_running:
  assumes "\<not> (length argv > 1 \<and> c_str (argv ! 1) = ''-v'')" and "chunks_ok transfer"
  shows "\<exists>cs'. main build db c transfer fuel argv cs = Inr (None, cs') \<and> m_bRunning cs'"
proof -
  obtain st cs1 where s: "startUp db cs = (st, cs1)" by (cases "startUp db cs")
  from startUp_True [of db cs] startUp_running [of db cs] s have st: "st" "m_bRunning cs1" by simp_all
  then obtain cs2 where "doService c transfer fuel (cout_line [''callService startup successfully.''] cs1) = Inr (False, cs2)"
    and "m_bRunning cs2"
    using doService_runs [OF assms(2), of "cout_line [''callService startup successfully.''] cs1" c fuel] by auto
  with st assms(1) show ?thesis by (auto simp: main_def s loadconfig_def)
qed

lemma supervise_restarts:
  "list_all (\<lambda>(pid, w). pid \<noteq> 0 \<and> w = pid) xs \<Longrightarrow> supervise (xs @ ys) = supervise ys"
  by (induction xs) auto

text \<open>What one failed attempt does.\<close>

fun attempt_calls :: "esl_status_t \<times> string \<times> esl_handle \<Rightarrow> effect list" where
  "attempt_calls (st, err, h) =
     [EslConnect ''127.0.0.1'' 8021, EslLog ERROR (''Error Connecteling [%s]'' @ [newline]) [Some err]]"

lemma connect_inbound_retries:
  "list_all (\<lambda>(st, err, h). st \<noteq> ESL_SUCCESS) xs \<Longrightarrow>
     fst (connect_inbound (xs @ (ESL_SUCCESS, err, h) # ys) cs) = Some h \<and>
     calls (snd (connect_inbound (xs @ (ESL_SUCCESS, err, h) # ys) cs)) =
       calls cs @ concat (map attempt_calls xs) @ [EslConnect ''127.0.0.1'' 8021]"
  by (induction xs arbitrary: cs) (auto simp: Let_def)

section \<open>Properties\<close>

text \<open>
  Start-up never fails: whatever the database does (refuses the connection, throws at any
  statement or at the commit), \<open>startUp\<close> returns true with the service running, and after the
  statements it got to (version, table check, creation only if the table does not exist, commit) it
  has started exactly the four threads, in order.
\<close>
lemma startUp_always_succeeds:
  "fst (startUp db cs) = True \<and> m_bRunning (snd (startUp db cs)) \<and>
   calls (snd (startUp db cs)) = calls cs @ SqlConnect conninfo #
     (if connect db \<noteq> None then [] else
       Sql ''select version()'' #
       (case exec db ''select version()'' of Inl _ \<Rightarrow> [] | Inr _ \<Rightarrow>
         Sql exists_query #
         (case and_then (exec db exists_query) (as_bool db) of Inl _ \<Rightarrow> []
          | Inr True \<Rightarrow> [SqlCommit]
          | Inr False \<Rightarrow> Sql create_table # (case exec db create_table of Inl _ \<Rightarrow> [] | Inr _ \<Rightarrow> [SqlCommit])))) @
     [SpawnThread ''websocket 18081'', SpawnThread ''rest 18080'', SpawnThread ''listen 18040'', SpawnThread ''inbound'']"
  by (simp add: startUp_calls check_table_calls)

text \<open>
  C17. The process does not return: \<open>main\<close> without \<open>-v\<close> ends only if \<open>doService\<close> does, and nothing it
  calls clears the flag that keeps \<open>doService\<close> running, so after any number of iterations, with every
  database, with or without a libcurl handle and with every HTTP peer (whose chunks stay below 2 GiB),
  it is still running; \<open>stopService\<close> comes after the loop and is not reached.
\<close>
theorem main_never_returns:
  assumes "\<not> (length argv > 1 \<and> c_str (argv ! 1) = ''-v'')" and "chunks_ok transfer"
  shows "\<exists>cs'. main build db c transfer fuel argv cs = Inr (None, cs') \<and> m_bRunning cs'"
  using assms by (rule main_running)

lemma main_never_returns_witness:
  "\<exists>cs'. main [] \<lparr>connect = Some ''refused'', exec = Inl, as_bool = Inl, commit = None\<rparr> True (\<lambda>rq. (0, [''ok'']))
     1000000 [''callSrv''] new_CallService = Inr (None, cs') \<and> m_bRunning cs'"
proof -
  have "chunks_ok (\<lambda>rq. (0, [''ok'']))" by (simp add: chunks_ok_def)
  from main_never_returns [OF _ this, of "[''callSrv'']"] show ?thesis by simp
qed

text \<open>
  The inbound connection retries until it succeeds: after any number of failed attempts (each
  connecting to the same address and logging the handle's error) a successful one ends the loop with
  its handle, and nothing after it is attempted.
\<close>
lemma inbound_connection_retries:
  assumes "list_all (\<lambda>(st, err, h). st \<noteq> ESL_SUCCESS) xs"
  shows "fst (connect_inbound (xs @ (ESL_SUCCESS, err, h) # ys) cs) = Some h \<and>
    calls (snd (connect_inbound (xs @ (ESL_SUCCESS, err, h) # ys) cs)) =
      calls cs @ concat (map attempt_calls xs) @ [EslConnect ''127.0.0.1'' 8021]"
  using connect_inbound_retries [OF assms] .

lemma inbound_connection_retries_witness:
  "fst (connect_inbound [(ESL_FAIL, ''refused'', zero_handle), (ESL_SUCCESS, [], zero_handle)] new_CallService) = Some zero_handle"
  using inbound_connection_retries [of "[(ESL_FAIL, ''refused'', zero_handle)]" "[]" zero_handle "[]" new_CallService]
  by auto

text \<open>
  The daemon set-up: both outer parents exit; the supervisor forks a worker again whenever the
  last one was waited for, any number of times; it becomes the worker in the child, and exits as
  soon as the wait does not return its child.
\<close>
lemma supervisor_restarts:
  assumes "list_all (\<lambda>(pid, w). pid \<noteq> 0 \<and> w = pid) xs"
  shows "InitDeamon fork1 fork2 (xs @ (pid, w) # ys) =
    (if fork1 \<noteq> 0 \<or> fork2 \<noteq> 0 then Exit 0
     else if pid = 0 then Worker else if w \<noteq> pid then Exit 0 else supervise ys)"
  using supervise_restarts [OF assms, of "(pid, w) # ys"] by (simp add: InitDeamon_def)

lemma supervisor_restarts_witness: "InitDeamon 0 0 [(11, 11), (12, 12), (0, 0)] = Worker"
  using supervisor_restarts [of "[(11, 11), (12, 12)]" 0 0 0 0 "[]"] by simp

end
