(* ===== verification/Call_System.thy ===== *)
theory Call_System
  imports Rest_Server Event_Thread Startup
begin

text \<open>
  The running process.  Its threads share the service state: the HTTP sessions, the inbound event
  thread, one callback per incoming call, the websocket thread, the inbound connection and the main
  thread's queue.  A step of the system is one atomic action of one of them: one HTTP session, one
  received event, one receive of a call, one completion of the websocket server, one queue
  iteration.  (The code takes no locks, so atomicity at this grain is an assumption of the model.)
  The reachable states start where \<open>startUp\<close> leaves the service.
\<close>

section \<open>Fields the operations leave alone\<close>

text \<open>The flag and the queue: no operation but \<open>startUp\<close>, \<open>stopService\<close> and \<open>doService\<close> writes them.\<close>

definition main_fields :: "call_service \<Rightarrow> bool \<times> CallEvent list" where
  "main_fields cs = (m_bRunning cs, m_queueEvent cs)"

definition ws_ok :: "call_service \<Rightarrow> bool" where
  "ws_ok cs \<longleftrightarrow> (case g_WebsocketServer cs of None \<Rightarrow> True | Some srv \<Rightarrow> server_inv srv)"

text \<open>\<open>kept cs cs'\<close>: the main thread's fields are the same and the websocket invariant carries over.\<close>

definition kept :: "call_service \<Rightarrow> call_service \<Rightarrow> bool" where
  "kept cs cs' \<longleftrightarrow> main_fields cs' = main_fields cs \<and> (ws_ok cs \<longrightarrow> ws_ok cs')"

lemma keptI:
  "m_bRunning cs' = m_bRunning cs \<Longrightarrow> m_queueEvent cs' = m_queueEvent cs \<Longrightarrow>
   g_WebsocketServer cs' = g_WebsocketServer cs \<Longrightarrow> kept cs cs'"
  by (simp add: kept_def main_fields_def ws_ok_def)

lemma kept_refl [simp, intro]: "kept cs cs"
  by (simp add: kept_def)

lemma kept_trans: "kept a b \<Longrightarrow> kept b c \<Longrightarrow> kept a c"
  by (auto simp: kept_def)

lemma kept_simps [simp]:
  "kept a (emit e c) = kept a c" "kept a (emits es c) = kept a c" "kept a (cout ps c) = kept a c"
  "kept a (cout_line ss c) = kept a c" "kept a (upd p f c) = kept a c" "kept a (printAgent p c) = kept a c"
  "kept a (print_agents c) = kept a c" "kept a (log_info s l c) = kept a c"
  "kept a (c\<lparr>m_listAgent := ptrs\<rparr>) = kept a c" "kept a (c\<lparr>agents := objs\<rparr>) = kept a c"
  "kept a (c\<lparr>m_handle := h\<rparr>) = kept a c"
  "kept a (c\<lparr>m_handle_stale := b\<rparr>) = kept a c" "kept a (acd_end sk c) = kept a c"
  by (simp_all add: kept_def main_fields_def ws_ok_def acd_end_def)

lemma kept_make_shared: "kept a (snd (make_shared c)) = kept a c"
  by (simp add: make_shared_def)

lemma kept_agent_ops [simp]:
  "kept cs (agent_login dn agent cs)" "kept cs (snd (agent_logout dn cs))" "kept cs (snd (agent_status st dn cs))"
  by (auto simp: agent_login_def agent_logout_def agent_status_def make_shared_eq Let_def split: option.splits)

lemma kept_makecall: "makecall sr dn dst cs = Inr (r, cs') \<Longrightarrow> kept cs cs'"
  by (rule keptI) (simp_all add: makecall_frame)

lemma kept_answercall: "answercall dn cs = Inr (r, cs') \<Longrightarrow> kept cs cs'"
  using server_do_write_inv
  by (auto simp: kept_def main_fields_def ws_ok_def answercall_def Let_def case_prod_beta split: option.splits if_splits)

lemma kept_serve_post:
  "serve_post parse sr req res cs = Inr (r, cs') \<Longrightarrow> kept cs cs'"
  by (auto simp: serve_post_def route_defs and_then_Inr case_prod_beta dest: kept_makecall kept_answercall
      split: if_splits)

lemma kept_do_session:
  assumes "do_session parse sr res0 received sent cs = Inr (r, cs')"
  shows "kept cs cs'"
proof (cases received)
  case (Inl ec)
  with assms show ?thesis by (auto simp: do_session_def)
next
  case (Inr req)
  let ?cs = "cout_line [''hello from CallService''] cs"
  let ?res = "res0\<lparr>rs_content_type := Some ''application/json''\<rparr>"
  from assms Inr obtain r1 cs1 where s: "serve parse sr req ?res ?cs = Inr (r1, cs1)"
    and c: "cs' = cs1 \<or> (\<exists>w. cs' = cout_line [w] cs1)"
    by (auto simp: do_session_def and_then_Inr split: option.splits)
  have "kept ?cs cs1"
    using s by (auto simp: serve_def dest: kept_serve_post split: verb.splits if_splits)
  then have "kept cs cs1" by (rule kept_trans [rotated]) simp
  with c show ?thesis by auto
qed

lemma kept_fold_upd: "kept a (fold (\<lambda>p. upd p f) ps c) = kept a c"
  by (induction ps arbitrary: c) simp_all

lemma kept_take_ready: "kept cs (snd (take_ready ps cs))"
proof (induction ps arbitrary: cs)
  case Nil
  then show ?case by simp
next
  case (Cons p ps)
  have "kept cs (snd (take_ready ps (printAgent p cs)))"
    using Cons [of "printAgent p cs"] by (rule kept_trans [rotated]) simp
  then show ?case by (simp add: Let_def)
qed

lemma kept_get_available_agent [simp]: "kept cs (snd (get_available_agent cs))"
proof -
  have "kept cs (clear_polling cs)" by (simp add: clear_polling_def kept_fold_upd)
  then show ?thesis
    using kept_take_ready kept_trans
    by (auto simp: get_available_agent_def Let_def split: option.splits)
qed

lemma kept_acd_event: "acd_pAgent c = None \<Longrightarrow> acd_event ev c cs = Inr (go, c', cs') \<Longrightarrow> kept cs cs'"
  by (auto simp: acd_event_def acd_bridge_None acd_hangup_None acd_execute_complete_None Let_def
      split: if_splits option.splits)

lemma kept_acd_recv:
  assumes "acd_pAgent c = None" and "acd_recv st h c cs = Inr (go, c', cs')"
  shows "kept cs cs'"
proof (cases "st = ESL_BREAK")
  case True
  have "kept cs (snd (get_available_agent cs))" by simp
  with True assms show ?thesis
    by (auto simp: acd_recv_def Let_def simp del: kept_get_available_agent split: option.splits prod.splits)
next
  case False
  with assms show ?thesis
    by (auto simp: acd_recv_def and_then_Inr dest: kept_acd_event split: if_splits option.splits)
qed

lemma kept_acd_start: "acd_start sr h cs = Inr (c, cs') \<Longrightarrow> kept cs cs'"
  by (auto simp: acd_start_def and_then_Inr Let_def)

lemma kept_hangup_agent: "hangup_agent d ps cs = Inr cs' \<Longrightarrow> kept cs cs'"
  by (induction ps) (auto simp: and_then_Inr Let_def split: if_splits)

lemma kept_print_hangup [simp]: "kept a (print_hangup n d c p cs) = kept a cs"
  by (simp add: print_hangup_def split: option.split)

lemma kept_channel_create: "channel_create d u cs = Inr cs' \<Longrightarrow> kept cs cs'"
  by (auto simp: channel_create_def and_then_Inr split: option.splits)

lemma kept_switch_event: "switch_event ev msg cs = Inr cs' \<Longrightarrow> kept cs cs'"
  unfolding switch_event_def Let_def
  by (auto dest!: kept_channel_create kept_hangup_agent intro: kept_trans [rotated] split: if_splits)

lemma kept_event_recv: "event_recv st h cs = Inr cs' \<Longrightarrow> kept cs cs'"
  by (auto simp: event_recv_def handle_success_def and_then_Inr dest: kept_switch_event
      split: esl_status_t.splits option.splits)

lemma connect_inbound_frame:
  "m_listAgent (snd (connect_inbound xs cs)) = m_listAgent cs \<and> agents (snd (connect_inbound xs cs)) = agents cs \<and>
   kept cs (snd (connect_inbound xs cs))"
proof (induction xs arbitrary: cs rule: list.induct)
  case Nil
  then show ?case by simp
next
  case (Cons x xs)
  obtain st err h where x: "x = (st, err, h)" by (cases x)
  let ?cs = "emit (EslLog ERROR (''Error Connecteling [%s]'' @ [newline]) [Some err]) (emit (EslConnect ''127.0.0.1'' 8021) cs)"
  from Cons [of ?cs] have "kept ?cs (snd (connect_inbound xs ?cs))" by blast
  then have "kept cs (snd (connect_inbound xs ?cs))" by (rule kept_trans [rotated]) simp
  with Cons [of ?cs] show ?case by (simp add: x Let_def)
qed

lemma log_sr_body_frame:
  "m_listAgent (log_sr_body h cs) = m_listAgent cs \<and> agents (log_sr_body h cs) = agents cs \<and>
   kept a (log_sr_body h cs) = kept a cs"
  by (simp add: log_sr_body_def split: option.splits)

lemma inbound_thread_frame:
  assumes "inbound_thread sr attempts cs = Inr (up, cs')"
  shows "m_listAgent cs' = m_listAgent cs \<and> agents cs' = agents cs \<and> kept cs cs'"
proof -
  obtain ho cs1 where c: "connect_inbound attempts cs = (ho, cs1)" by fastforce
  with connect_inbound_frame [of attempts cs]
  have f: "m_listAgent cs1 = m_listAgent cs" "agents cs1 = agents cs" "kept cs cs1" by simp_all
  show ?thesis
  proof (cases ho)
    case None
    with c f assms show ?thesis by (simp add: inbound_thread_def)
  next
    case (Some h)
    with c f assms show ?thesis
      by (auto simp: inbound_thread_def setHandle_def and_then_Inr Let_def log_sr_body_frame)
  qed
qed

section \<open>The statuses a listed agent can have\<close>

text \<open>
  Of the eight enumerators of \<open>AgentStatus_t\<close> only three are ever assigned to a listed agent.
\<close>

definition used_status :: "Agent \<Rightarrow> bool" where
  "used_status a \<longleftrightarrow> getAgentStatus a = Ready \<or> getAgentStatus a = notReady \<or> getAgentStatus a = leave"

definition dir_used :: "(string \<Rightarrow> Agent option) \<Rightarrow> bool" where
  "dir_used m \<longleftrightarrow> (\<forall>dn a. m dn = Some a \<longrightarrow> used_status a)"

lemma roster_directory: "registry_ok cs \<Longrightarrow> list_all P (roster cs) \<longleftrightarrow> (\<forall>dn a. directory cs dn = Some a \<longrightarrow> P a)"
  by (auto simp: registry_ok_def directory_def list_all_iff dest: lookup_by_SomeD)
    (metis lookup_by_in)

fun assigned :: "dir_op \<Rightarrow> bool" where
  "assigned (Status st dn) = (st = Ready \<or> st = notReady \<or> st = leave)"
| "assigned _ = True"

lemma dir_used_op: "dir_used m \<Longrightarrow> assigned x \<Longrightarrow> dir_used (spec_op x m)"
  by (cases x) (auto simp: dir_used_def used_status_def logged_in_def split: option.splits)

lemma request_op_assigned: "request_op parse req = Some x \<Longrightarrow> assigned x"
  by (auto simp: request_op_def agent_op_def Let_def split: json_doc.splits if_splits)

lemma dir_used_request: "dir_used m \<Longrightarrow> dir_used (spec_request (request_op parse req) m)"
  by (auto simp: spec_request_def dir_used_op dest: request_op_assigned split: option.splits)

lemma used_status_setters [simp]: "used_status (setUUID u a) = used_status a" "used_status (hung_up a)"
  by (simp_all add: used_status_def hung_up_def)

lemma dir_used_event: "dir_used m \<Longrightarrow> dir_used (event_directory ev m)"
  by (auto simp: event_directory_def dir_used_def split: option.splits)

lemma used_persona: "map persona as = map persona bs \<Longrightarrow> list_all used_status as = list_all used_status bs"
proof -
  let ?P = "\<lambda>(d, g, u, st). st = Ready \<or> st = notReady \<or> st = leave"
  have "used_status = ?P \<circ> persona"
    by (simp add: fun_eq_iff used_status_def persona_def)
  then have "\<And>l. list_all used_status l = list_all ?P (map persona l)"
    by (simp only: list.pred_map)
  then show "map persona as = map persona bs \<Longrightarrow> ?thesis" by simp
qed

lemma acd_recv_persona:
  assumes "registry_ok cs" and "acd_pAgent c = None" and "acd_recv st h c cs = Inr (go, c', cs')"
  shows "map persona (roster cs') = map persona (roster cs)"
proof (cases "st = ESL_BREAK")
  case True
  with acd_recv_break [OF assms(1), of h c go c' cs'] assms(3) show ?thesis by (simp add: route_persona)
next
  case False
  with acd_recv_not_break [OF False assms(2,3)] show ?thesis by simp
qed

section \<open>Steps and reachable states\<close>

text \<open>
  A system state is the service state and the running calls (the local state of their
  \<open>acd_callback\<close>s; one that ends is removed).
\<close>

type_synonym system = "call_service \<times> acd_call list"

inductive sys_step ::
  "(string \<Rightarrow> json_doc) \<Rightarrow> send_recv \<Rightarrow> http_resp \<Rightarrow> bool \<Rightarrow>
     (http_request \<Rightarrow> int \<times> string list) \<Rightarrow> system \<Rightarrow> system \<Rightarrow> bool"
  for parse send_recv res0 curl_ok transfer where
  rest_session: "do_session parse send_recv res0 received sent cs = Inr (r, cs') \<Longrightarrow>
    sys_step parse send_recv res0 curl_ok transfer (cs, as) (cs', as)"
| inbound_event: "event_recv st h cs = Inr cs' \<Longrightarrow>
    sys_step parse send_recv res0 curl_ok transfer (cs, as) (cs', as)"
| call_start: "acd_start send_recv h cs = Inr (c, cs') \<Longrightarrow>
    sys_step parse send_recv res0 curl_ok transfer (cs, as) (cs', as @ [c])"
| call_receive: "i < length as \<Longrightarrow> acd_recv st h (as ! i) cs = Inr (True, c, cs') \<Longrightarrow>
    sys_step parse send_recv res0 curl_ok transfer (cs, as) (cs', as[i := c])"
| call_end: "i < length as \<Longrightarrow> acd_recv st h (as ! i) cs = Inr (False, c, cs') \<Longrightarrow>
    sys_step parse send_recv res0 curl_ok transfer (cs, as) (acd_end (sock h) cs', erase i as)"
| websocket_up: "g_WebsocketServer cs = None \<Longrightarrow> websocket_thread opened cs = Inr cs' \<Longrightarrow>
    sys_step parse send_recv res0 curl_ok transfer (cs, as) (cs', as)"
| websocket_event: "g_WebsocketServer cs = Some srv \<Longrightarrow> server_enabled e srv \<Longrightarrow>
    server_step e srv = (srv', fx) \<Longrightarrow>
    sys_step parse send_recv res0 curl_ok transfer (cs, as) (emits fx (cs\<lparr>g_WebsocketServer := Some srv'\<rparr>), as)"
| inbound_connection: "inbound_thread send_recv attempts cs = Inr (up, cs') \<Longrightarrow>
    sys_step parse send_recv res0 curl_ok transfer (cs, as) (cs', as)"
| queue: "m_bRunning cs \<Longrightarrow> service_iter curl_ok transfer cs = Inr cs' \<Longrightarrow>
    sys_step parse send_recv res0 curl_ok transfer (cs, as) (cs', as)"

inductive_cases sys_stepE: "sys_step parse send_recv res0 curl_ok transfer s s'"

inductive reachable ::
  "(string \<Rightarrow> json_doc) \<Rightarrow> send_recv \<Rightarrow> http_resp \<Rightarrow> bool \<Rightarrow>
     (http_request \<Rightarrow> int \<times> string list) \<Rightarrow> system \<Rightarrow> bool"
  for parse send_recv res0 curl_ok transfer where
  start: "startUp db new_CallService = (b, cs) \<Longrightarrow> reachable parse send_recv res0 curl_ok transfer (cs, [])"
| step: "reachable parse send_recv res0 curl_ok transfer s \<Longrightarrow>
    sys_step parse send_recv res0 curl_ok transfer s s' \<Longrightarrow> reachable parse send_recv res0 curl_ok transfer s'"

text \<open>The invariant of the running system.\<close>

definition sys_ok :: "system \<Rightarrow> bool" where
  "sys_ok s \<longleftrightarrow> (case s of (cs, as) \<Rightarrow>
     registry_ok cs \<and> list_all used_status (roster cs) \<and> ws_ok cs \<and>
     list_all (\<lambda>c. acd_pAgent c = None) as \<and> main_fields cs = (True, []))"

lemma sys_ok_cong:
  assumes "sys_ok (cs, as)" and "registry_ok cs'" and "directory cs' = directory cs \<or> map persona (roster cs') = map persona (roster cs)"
    and "kept cs cs'" and "list_all (\<lambda>c. acd_pAgent c = None) bs"
  shows "sys_ok (cs', bs)"
proof -
  have "list_all used_status (roster cs')"
    using assms(1-3) used_persona [of "roster cs'" "roster cs"]
    by (auto simp: sys_ok_def roster_directory)
  with assms show ?thesis by (auto simp: sys_ok_def kept_def)
qed

lemma sys_ok_dir:
  assumes "sys_ok (cs, as)" and "registry_ok cs' \<and> directory cs' = m" and "dir_used (directory cs) \<Longrightarrow> dir_used m" and "kept cs cs'"
  shows "sys_ok (cs', as)"
proof -
  have "dir_used (directory cs)"
    using assms(1) by (auto simp: sys_ok_def dir_used_def roster_directory)
  with assms(2,3) have "list_all used_status (roster cs')"
    by (simp add: roster_directory dir_used_def)
  with assms show ?thesis by (auto simp: sys_ok_def kept_def)
qed

lemma sys_ok_step: "sys_step parse send_recv res0 curl_ok transfer s s' \<Longrightarrow> sys_ok s \<Longrightarrow> sys_ok s'"
proof (induction rule: sys_step.induct)
  case (rest_session received sent cs r cs' as)
  then have "registry_ok cs" by (simp add: sys_ok_def)
  from sys_ok_dir [OF rest_session.prems do_session_Inr [OF this rest_session.hyps] _ kept_do_session [OF rest_session.hyps]]
  show ?case by (simp add: dir_used_request split: sum.splits)
next
  case (inbound_event st h cs cs' as)
  then have "registry_ok cs" by (simp add: sys_ok_def)
  from sys_ok_dir [OF inbound_event.prems event_recv_directory [OF this inbound_event.hyps] _ kept_event_recv [OF inbound_event.hyps]]
  show ?case by (simp add: dir_used_event split: esl_status_t.splits option.splits)
next
  case (call_start h cs c cs' as)
  then have "registry_ok cs' \<and> directory cs' = directory cs \<and> acd_pAgent c = None"
    by (auto simp: acd_start_def and_then_Inr Let_def sys_ok_def)
  with sys_ok_cong [OF call_start.prems _ _ kept_acd_start [OF call_start.hyps], of "as @ [c]"] call_start.prems
  show ?case by (auto simp: sys_ok_def)
next
  case (call_receive i as st h cs c cs')
  then have n: "acd_pAgent (as ! i) = None" and ok: "registry_ok cs"
    by (simp_all add: sys_ok_def list_all_length)
  note F = acd_recv_inv [OF ok n call_receive.hyps(2)] acd_recv_persona [OF ok n call_receive.hyps(2)]
    kept_acd_recv [OF n call_receive.hyps(2)]
  with call_receive.prems have "list_all (\<lambda>c. acd_pAgent c = None) (as[i := c])"
    by (intro list_all_update) (auto simp: sys_ok_def)
  with sys_ok_cong [OF call_receive.prems] F show ?case by blast
next
  case (call_end i as st h cs c cs')
  then have n: "acd_pAgent (as ! i) = None" and ok: "registry_ok cs"
    by (simp_all add: sys_ok_def list_all_length)
  note F = acd_recv_inv [OF ok n call_end.hyps(2)] acd_recv_persona [OF ok n call_end.hyps(2)]
    kept_acd_recv [OF n call_end.hyps(2)]
  have "list_all (\<lambda>c. acd_pAgent c = None) (erase i as)"
    using call_end.prems set_erase_subset [of i as] by (auto simp: sys_ok_def list_all_iff)
  with sys_ok_cong [OF call_end.prems, of "acd_end (sock h) cs'"] F show ?case by (simp add: acd_end_def)
next
  case (websocket_up cs opened cs' as)
  then obtain srv where "new_WebsocketServer opened = Inr srv" and c: "cs' = cs\<lparr>g_WebsocketServer := Some srv\<rparr>"
    by (auto simp: websocket_thread_def and_then_Inr)
  then have "ws_ok cs'"
    using server_inv_new [of srv] by (cases opened) (auto simp: ws_ok_def new_WebsocketServer_def)
  with websocket_up.prems roster_cong [of cs' cs] show ?case
    by (simp add: c sys_ok_def main_fields_def)
next
  case (websocket_event cs srv e srv' fx as)
  let ?cs = "cs\<lparr>g_WebsocketServer := Some srv'\<rparr>"
  have "server_inv srv'"
    using websocket_event srv.step_inv [of srv e] by (auto simp: sys_ok_def ws_ok_def)
  with websocket_event.prems roster_cong [of ?cs cs] show ?case
    by (simp add: sys_ok_def main_fields_def ws_ok_def)
next
  case (inbound_connection attempts cs up cs' as)
  from inbound_thread_frame [OF inbound_connection.hyps] roster_cong [of cs' cs] inbound_connection.prems
  show ?case by (auto simp: sys_ok_def kept_def)
next
  case (queue cs cs' as)
  then have "cs' = emit (Sleep 200) cs" by (auto simp: service_iter_def sys_ok_def main_fields_def)
  with queue.prems show ?case by (simp add: sys_ok_def main_fields_def ws_ok_def)
qed

lemma reachable_sys_ok: "reachable parse send_recv res0 curl_ok transfer s \<Longrightarrow> sys_ok s"
proof (induction rule: reachable.induct)
  case (start db b cs)
  then have "m_bRunning cs" "m_listAgent cs = []" "agents cs = []" "m_queueEvent cs = []"
    using startUp_running [of db new_CallService] startUp_frame [of db new_CallService]
    by (simp_all add: new_CallService_def)
  moreover have "g_WebsocketServer cs = None"
    using start check_table_frame [of db new_CallService]
    by (auto simp: startUp_def Let_def new_CallService_def split: prod.splits option.splits)
  ultimately show ?case by (simp add: sys_ok_def registry_ok_def roster_def ws_ok_def main_fields_def)
next
  case (step s s')
  then show ?case by (simp add: sys_ok_step)
qed

section \<open>Properties\<close>

text \<open>
  C1. The invariant of the running system: in every state reachable by any interleaving of HTTP
  sessions, telephone events, calls, websocket completions, connection attempts and queue
  iterations, the agent list has valid pointers and distinct numbers; every listed agent is ready,
  not ready or on leave (the statuses unknown, login, logout, busy and idle never occur); every
  running call is still without an agent; the websocket server satisfies its invariant; the service
  is running and its event queue is empty.
\<close>
theorem reachable_invariant:
  assumes "reachable parse send_recv res0 curl_ok transfer (cs, as)"
  shows "list_all (\<lambda>p. p < length (agents cs)) (m_listAgent cs) \<and> distinct (map getDn (roster cs)) \<and>
    list_all (\<lambda>a. getAgentStatus a = Ready \<or> getAgentStatus a = notReady \<or> getAgentStatus a = leave) (roster cs) \<and>
    list_all (\<lambda>c. acd_pAgent c = None) as \<and>
    (case g_WebsocketServer cs of None \<Rightarrow> True | Some srv \<Rightarrow> server_inv srv) \<and>
    m_bRunning cs \<and> m_queueEvent cs = []"
  using reachable_sys_ok [OF assms]
  by (simp add: sys_ok_def registry_ok_def ws_ok_def main_fields_def used_status_def [abs_def])

lemma reachable_invariant_witness:
  "\<exists>cs r cs'. reachable sample_parse (\<lambda>stale h cmd. Inr h) sample_res True (\<lambda>rq. (0, [])) (cs', []) \<and>
     do_session sample_parse (\<lambda>stale h cmd. Inr h) sample_res (Inr (sample_req ''/agent/login'')) None cs = Inr (r, cs') \<and>
     m_queueEvent cs' = [] \<and> distinct (map getDn (roster cs'))"
proof -
  let ?db = "\<lparr>connect = Some ''refused'', exec = Inl, as_bool = Inl, commit = None\<rparr>"
  obtain b cs where s: "startUp ?db new_CallService = (b, cs)" by (cases "startUp ?db new_CallService")
  then have r0: "reachable sample_parse (\<lambda>stale h cmd. Inr h) sample_res True (\<lambda>rq. (0, [])) (cs, [])" by (rule reachable.start)
  have "\<not> (\<exists>f. do_session sample_parse (\<lambda>stale h cmd. Inr h) sample_res (Inr (sample_req ''/agent/login'')) None cs = Inl f)"
    by (simp add: do_session_Inl request_fault_def) (simp add: sample_defs c_str_def call_fault_def)
  then obtain r cs' where d: "do_session sample_parse (\<lambda>stale h cmd. Inr h) sample_res (Inr (sample_req ''/agent/login'')) None cs = Inr (r, cs')"
    by (cases "do_session sample_parse (\<lambda>stale h cmd. Inr h) sample_res (Inr (sample_req ''/agent/login'')) None cs") auto
  from reachable.step [OF r0 sys_step.rest_session [OF d]]
  have r1: "reachable sample_parse (\<lambda>stale h cmd. Inr h) sample_res True (\<lambda>rq. (0, [])) (cs', [])" .
  from reachable_invariant [OF r1] r1 d show ?thesis by blast
qed

end
