(* ===== verification/Pqxx_Base.thy ===== *)
theory Pqxx_Base
  imports CS_Prelude
begin

text \<open>
  What the theories on the database client's headers (\<open>libpqxx/include/pqxx\<close>) share: the errors its
  functions end in, byte access, the numbers they print, and decimal and hexadecimal output.  A
  \<open>char const[]\<close> with its length, a \<open>std::string_view\<close> and a \<open>std::string\<close> are all character lists;
  a byte is read as its unsigned value.  A \<open>std::size_t\<close> offset into a text is a natural number:
  texts are shorter than \<open>2 ^ 63\<close>, so adding a few bytes to an offset in a text does not wrap.
\<close>

section \<open>Errors\<close>

text \<open>
  The exception classes of \<open>except.hxx\<close> the modelled functions throw, with their messages, and the
  ways they can go wrong otherwise: memory outside a text is read or memory outside a buffer is
  written (at the recorded offset), a condition given to \<open>PQXX_ASSUME\<close> does not hold (undefined
  behaviour), an exception leaves a \<open>noexcept\<close> function or an \<open>assert\<close> fails, which end the process.  The exception
  of \<open>std::vector::at\<close> is \<open>std_out_of_range\<close>, the one that \<open>internal::throw_null_conversion\<close> (which is
  compiled elsewhere) throws is \<open>null_conversion\<close>, and \<open>no_return\<close> is a function that ends without
  returning the value it has to return (undefined behaviour).  \<open>null_variable\<close> is \<open>variable_set_to_null\<close>,
  and \<open>bad_alloc\<close> the exception of \<open>new\<close> when there is no room.
\<close>

datatype pqxx_error =
    argument_error string
  | conversion_error string
  | conversion_overrun string
  | internal_error string
  | length_error
  | range_error string
  | unexpected_null string
  | unexpected_rows string
  | usage_error string
  | read_out_of_bounds nat
  | write_out_of_bounds nat
  | assumption_failed
  | terminates
  | std_out_of_range
  | no_return
  | null_conversion string
  | null_variable string
  | bad_alloc

definition pqxx_assume :: "bool \<Rightarrow> pqxx_error + unit" where
  "pqxx_assume b = (if b then Inr () else Inl assumption_failed)"

lemma pqxx_assume_Inr [simp]: "pqxx_assume b = Inr u \<longleftrightarrow> b"
  by (simp add: pqxx_assume_def)

lemma pqxx_assume_True [simp]: "pqxx_assume True = Inr ()"
  by (simp add: pqxx_assume_def)

section \<open>Numbers\<close>

text \<open>\<open>std::string::npos\<close>, the largest \<open>size_t\<close>.\<close>

definition npos :: nat where
  "npos = 2 ^ 64 - 1"

fun hex_digit :: "nat \<Rightarrow> char" where
  "hex_digit n = (if n < 10 then char_of (48 + n) else char_of (87 + n))"

fun hex :: "nat \<Rightarrow> string" where
  "hex n = (if n < 16 then [hex_digit n] else hex (n div 16) @ [hex_digit (n mod 16)])"

declare hex.simps [simp del]

section \<open>Bytes\<close>

definition byte_of :: "char \<Rightarrow> nat" where
  "byte_of c = of_char c"

lemma byte_of_less [simp]: "byte_of c < 256"
  using nat_of_char_less_256 [of c] by (simp add: byte_of_def)

lemma byte_of_inject [simp]: "byte_of a = byte_of b \<longleftrightarrow> a = b"
  by (simp add: byte_of_def)

text \<open>\<open>get_byte\<close> of \<open>internal/encodings.hxx\<close>; reading past the end is an error.\<close>

definition get_byte :: "string \<Rightarrow> nat \<Rightarrow> pqxx_error + nat" where
  "get_byte buffer offset =
     (if offset < length buffer then Inr (byte_of (buffer ! offset)) else Inl (read_out_of_bounds offset))"

lemma get_byte_Inr: "get_byte b i = Inr x \<longleftrightarrow> i < length b \<and> x = byte_of (b ! i)"
  by (auto simp: get_byte_def)

lemma get_byte_in [simp]: "i < length b \<Longrightarrow> get_byte b i = Inr (byte_of (b ! i))"
  by (simp add: get_byte_def)

definition between_inc :: "nat \<Rightarrow> nat \<Rightarrow> nat \<Rightarrow> bool" where
  "between_inc v lo hi \<longleftrightarrow> v \<ge> lo \<and> v \<le> hi"

text \<open>An ASCII character, and the part of a text between two offsets.\<close>

definition ascii :: "char \<Rightarrow> bool" where
  "ascii c \<longleftrightarrow> byte_of c < 0x80"

definition segment :: "string \<Rightarrow> nat \<Rightarrow> nat \<Rightarrow> string" where
  "segment s i j = take (j - i) (drop i s)"

lemma length_segment: "j \<le> length s \<Longrightarrow> length (segment s i j) = j - i"
  by (simp add: segment_def)

lemma segment_nth: "i + k < j \<Longrightarrow> j \<le> length s \<Longrightarrow> segment s i j ! k = s ! (i + k)"
  by (simp add: segment_def)

lemma segment_empty [simp]: "segment s i i = []"
  by (simp add: segment_def)

lemma segment_append:
  assumes "i \<le> j" and "j \<le> k"
  shows "segment s i j @ segment s j k = segment s i k"
proof -
  from assms have k: "k - i = (j - i) + (k - j)" and j: "drop j s = drop (j - i) (drop i s)" by simp_all
  show ?thesis by (simp only: segment_def k take_add j)
qed

lemma segment_Suc: "i < length s \<Longrightarrow> segment s i (Suc i) = [s ! i]"
  by (simp add: segment_def take_Suc_conv_app_nth hd_drop_conv_nth take_Suc)

section \<open>Strings of characters the code compares with\<close>

definition dquote :: char where
  "dquote = CHR 0x22"

definition backslash :: char where
  "backslash = CHR 0x5C"

lemma special_bytes [simp]: "byte_of dquote = 34" "byte_of backslash = 92" "dquote \<noteq> backslash" "backslash \<noteq> dquote"
  by (simp_all add: byte_of_def dquote_def backslash_def)

end
