(* ===== verification/Pqxx_Encodings.thy ===== *)
theory Pqxx_Encodings
  imports Pqxx_Base "HOL-Library.Char_ord"
begin

text \<open>
  Text encodings in the database client (\<open>pqxx/internal/encoding_group.hxx\<close>,
  \<open>pqxx/internal/encodings.hxx\<close>): the glyph scanner of every encoding group, which finds the end of
  the character at an offset, and the searches for ASCII characters built on them.  The locale
  \<open>scanner\<close> is the contract a scanner keeps, \<open>ascii_safe_scanner\<close> the stronger one of the
  encodings whose multibyte characters hold no ASCII bytes; the searches are verified against the
  contracts, and every scanner but one is shown to keep them.
\<close>

section \<open>Encoding groups\<close>

datatype encoding_group =
    MONOBYTE | BIG5 | EUC_CN | EUC_JP | EUC_KR | EUC_TW | GB18030 | GBK | JOHAB | MULE_INTERNAL
  | SJIS | UHC | UTF8

fun group_code :: "encoding_group \<Rightarrow> nat" where
  "group_code MONOBYTE = 0"
| "group_code BIG5 = 1"
| "group_code EUC_CN = 2"
| "group_code EUC_JP = 3"
| "group_code EUC_KR = 4"
| "group_code EUC_TW = 5"
| "group_code GB18030 = 6"
| "group_code GBK = 7"
| "group_code JOHAB = 8"
| "group_code MULE_INTERNAL = 9"
| "group_code SJIS = 10"
| "group_code UHC = 11"
| "group_code UTF8 = 12"

section \<open>Errors\<close>

text \<open>
  The message of an encoding error prints the offset in decimal and then the offending bytes in
  hexadecimal; it reads those bytes from the buffer.
\<close>

fun hex_bytes :: "string \<Rightarrow> string" where
  "hex_bytes [] = []"
| "hex_bytes [c] = ''0x'' @ hex (byte_of c)"
| "hex_bytes (c # cs) = ''0x'' @ hex (byte_of c) @ '' '' @ hex_bytes cs"

definition throw_for_encoding_error :: "string \<Rightarrow> string \<Rightarrow> nat \<Rightarrow> nat \<Rightarrow> pqxx_error + 'a" where
  "throw_for_encoding_error encoding_name buffer start count =
     (if start + count \<le> length buffer
      then Inl (argument_error (''Invalid byte sequence for encoding '' @ encoding_name @ '' at byte '' @
                  dec start @ '': '' @ hex_bytes (segment buffer start (start + count))))
      else Inl (read_out_of_bounds (length buffer)))"

lemma throw_not_Inr [simp]: "throw_for_encoding_error n b s c \<noteq> Inr x"
  by (simp add: throw_for_encoding_error_def)

section \<open>The scanners\<close>

text \<open>
  \<open>glyph_scanner<ENC>::call\<close> for each group; \<open>buffer_len\<close> is the length of \<open>buffer\<close>.
\<close>

definition scan_MONOBYTE :: "string \<Rightarrow> nat \<Rightarrow> pqxx_error + nat" where
  "scan_MONOBYTE buffer start =
     (if start \<ge> length buffer then Inr npos else Inr (start + 1))"

definition scan_BIG5 :: "string \<Rightarrow> nat \<Rightarrow> pqxx_error + nat" where
  "scan_BIG5 buffer start =
     (if start \<ge> length buffer then Inr npos
      else and_then (get_byte buffer start) (\<lambda>byte1.
        if byte1 < 0x80 then Inr (start + 1)
        else if \<not> between_inc byte1 0x81 0xfe \<or> start + 2 > length buffer then throw_for_encoding_error ''BIG5'' buffer start 1
        else and_then (get_byte buffer (start + 1)) (\<lambda>byte2.
          if \<not> between_inc byte2 0x40 0x7e \<and> \<not> between_inc byte2 0xa1 0xfe then throw_for_encoding_error ''BIG5'' buffer start 2
          else Inr (start + 2))))"

definition scan_EUC_CN :: "string \<Rightarrow> nat \<Rightarrow> pqxx_error + nat" where
  "scan_EUC_CN buffer start =
     (if start \<ge> length buffer then Inr npos
      else and_then (get_byte buffer start) (\<lambda>byte1.
        if byte1 < 0x80 then Inr (start + 1)
        else if \<not> between_inc byte1 0xa1 0xf7 \<or> start + 2 > length buffer then throw_for_encoding_error ''EUC_CN'' buffer start 1
        else and_then (get_byte buffer (start + 1)) (\<lambda>byte2.
          if \<not> between_inc byte2 0xa1 0xfe then throw_for_encoding_error ''EUC_CN'' buffer start 2
          else Inr (start + 2))))"

definition scan_EUC_JP :: "string \<Rightarrow> nat \<Rightarrow> pqxx_error + nat" where
  "scan_EUC_JP buffer start =
     (if start \<ge> length buffer then Inr npos
      else and_then (get_byte buffer start) (\<lambda>byte1.
        if byte1 < 0x80 then Inr (start + 1)
        else if start + 2 > length buffer then throw_for_encoding_error ''EUC_JP'' buffer start 1
        else and_then (get_byte buffer (start + 1)) (\<lambda>byte2.
          if byte1 = 0x8e then
            (if \<not> between_inc byte2 0xa1 0xfe then throw_for_encoding_error ''EUC_JP'' buffer start 2 else Inr (start + 2))
          else if between_inc byte1 0xa1 0xfe then
            (if \<not> between_inc byte2 0xa1 0xfe then throw_for_encoding_error ''EUC_JP'' buffer start 2 else Inr (start + 2))
          else if byte1 = 0x8f \<and> start + 3 \<le> length buffer then
            and_then (get_byte buffer (start + 2)) (\<lambda>byte3.
              if \<not> between_inc byte2 0xa1 0xfe \<or> \<not> between_inc byte3 0xa1 0xfe then throw_for_encoding_error ''EUC_JP'' buffer start 3
              else Inr (start + 3))
          else throw_for_encoding_error ''EUC_JP'' buffer start 1)))"

definition scan_EUC_KR :: "string \<Rightarrow> nat \<Rightarrow> pqxx_error + nat" where
  "scan_EUC_KR buffer start =
     (if start \<ge> length buffer then Inr npos
      else and_then (get_byte buffer start) (\<lambda>byte1.
        if byte1 < 0x80 then Inr (start + 1)
        else if \<not> between_inc byte1 0xa1 0xfe \<or> start + 2 > length buffer then throw_for_encoding_error ''EUC_KR'' buffer start 1
        else and_then (get_byte buffer (start + 1)) (\<lambda>byte2.
          if \<not> between_inc byte2 0xa1 0xfe then throw_for_encoding_error ''EUC_KR'' buffer start 1
          else Inr (start + 2))))"

definition scan_EUC_TW :: "string \<Rightarrow> nat \<Rightarrow> pqxx_error + nat" where
  "scan_EUC_TW buffer start =
     (if start \<ge> length buffer then Inr npos
      else and_then (get_byte buffer start) (\<lambda>byte1.
        if byte1 < 0x80 then Inr (start + 1)
        else if start + 2 > length buffer then throw_for_encoding_error ''EUC_KR'' buffer start 1
        else and_then (get_byte buffer (start + 1)) (\<lambda>byte2.
          if between_inc byte1 0xa1 0xfe then
            (if \<not> between_inc byte2 0xa1 0xfe then throw_for_encoding_error ''EUC_KR'' buffer start 2 else Inr (start + 2))
          else if byte1 \<noteq> 0x8e \<or> start + 4 > length buffer then throw_for_encoding_error ''EUC_KR'' buffer start 1
          else and_then (get_byte buffer (start + 2)) (\<lambda>byte3.
          and_then (get_byte buffer (start + 3)) (\<lambda>byte4.
            if between_inc byte2 0xa1 0xb0 \<and> between_inc byte3 0xa1 0xfe \<and> between_inc byte4 0xa1 0xfe
            then Inr (start + 4)
            else throw_for_encoding_error ''EUC_KR'' buffer start 4)))))"

definition scan_GB18030 :: "string \<Rightarrow> nat \<Rightarrow> pqxx_error + nat" where
  "scan_GB18030 buffer start =
     (if start \<ge> length buffer then Inr npos
      else and_then (get_byte buffer start) (\<lambda>byte1.
        if byte1 < 0x80 then Inr (start + 1)
        else if byte1 = 0x80 then throw_for_encoding_error ''GB18030'' buffer start (length buffer - start)
        else if start + 2 > length buffer then throw_for_encoding_error ''GB18030'' buffer start (length buffer - start)
        else and_then (get_byte buffer (start + 1)) (\<lambda>byte2.
          if between_inc byte2 0x40 0xfe then
            (if byte2 = 0x7f then throw_for_encoding_error ''GB18030'' buffer start 2 else Inr (start + 2))
          else if start + 4 > length buffer then throw_for_encoding_error ''GB18030'' buffer start (length buffer - start)
          else and_then (get_byte buffer (start + 2)) (\<lambda>byte3.
          and_then (get_byte buffer (start + 3)) (\<lambda>byte4.
            if between_inc byte2 0x30 0x39 \<and> between_inc byte3 0x81 0xfe \<and> between_inc byte4 0x30 0x39
            then Inr (start + 4)
            else throw_for_encoding_error ''GB18030'' buffer start 4)))))"

definition scan_GBK :: "string \<Rightarrow> nat \<Rightarrow> pqxx_error + nat" where
  "scan_GBK buffer start =
     (if start \<ge> length buffer then Inr npos
      else and_then (get_byte buffer start) (\<lambda>byte1.
        if byte1 < 0x80 then Inr (start + 1)
        else if start + 2 > length buffer then throw_for_encoding_error ''GBK'' buffer start 1
        else and_then (get_byte buffer (start + 1)) (\<lambda>byte2.
          if between_inc byte1 0xa1 0xa9 \<and> between_inc byte2 0xa1 0xfe \<or>
             between_inc byte1 0xb0 0xf7 \<and> between_inc byte2 0xa1 0xfe \<or>
             between_inc byte1 0x81 0xa0 \<and> between_inc byte2 0x40 0xfe \<and> byte2 \<noteq> 0x7f \<or>
             between_inc byte1 0xaa 0xfe \<and> between_inc byte2 0x40 0xa0 \<and> byte2 \<noteq> 0x7f \<or>
             between_inc byte1 0xa8 0xa9 \<and> between_inc byte2 0x40 0xa0 \<and> byte2 \<noteq> 0x7f \<or>
             between_inc byte1 0xaa 0xaf \<and> between_inc byte2 0xa1 0xfe \<or>
             between_inc byte1 0xf8 0xfe \<and> between_inc byte2 0xa1 0xfe \<or>
             between_inc byte1 0xa1 0xa7 \<and> between_inc byte2 0x40 0xa0 \<and> byte2 \<noteq> 0x7f
          then Inr (start + 2)
          else throw_for_encoding_error ''GBK'' buffer start 2)))"

text \<open>The second byte is read at the offset of the first (line 550), as the code does.\<close>

definition scan_JOHAB :: "string \<Rightarrow> nat \<Rightarrow> pqxx_error + nat" where
  "scan_JOHAB buffer start =
     (if start \<ge> length buffer then Inr npos
      else and_then (get_byte buffer start) (\<lambda>byte1.
        if byte1 < 0x80 then Inr (start + 1)
        else if start + 2 > length buffer then throw_for_encoding_error ''JOHAB'' buffer start 1
        else and_then (get_byte buffer start) (\<lambda>byte2.
          if between_inc byte1 0x84 0xd3 \<and> (between_inc byte2 0x41 0x7e \<or> between_inc byte2 0x81 0xfe) \<or>
             (between_inc byte1 0xd8 0xde \<or> between_inc byte1 0xe0 0xf9) \<and> (between_inc byte2 0x31 0x7e \<or> between_inc byte2 0x91 0xfe)
          then Inr (start + 2)
          else throw_for_encoding_error ''JOHAB'' buffer start 2)))"

text \<open>The last byte is read at offset 4, one past the four bytes (line 610), as the code does.\<close>

definition scan_MULE_INTERNAL :: "string \<Rightarrow> nat \<Rightarrow> pqxx_error + nat" where
  "scan_MULE_INTERNAL buffer start =
     (if start \<ge> length buffer then Inr npos
      else and_then (get_byte buffer start) (\<lambda>byte1.
        if byte1 < 0x80 then Inr (start + 1)
        else if start + 2 > length buffer then throw_for_encoding_error ''MULE_INTERNAL'' buffer start 1
        else and_then (get_byte buffer (start + 1)) (\<lambda>byte2.
          if between_inc byte1 0x81 0x8d \<and> byte2 \<ge> 0xa0 then Inr (start + 2)
          else if start + 3 > length buffer then throw_for_encoding_error ''MULE_INTERNAL'' buffer start 2
          else if (byte1 = 0x9a \<and> between_inc byte2 0xa0 0xdf \<or> byte1 = 0x9b \<and> between_inc byte2 0xe0 0xef \<or>
                   between_inc byte1 0x90 0x99 \<and> byte2 \<ge> 0xa0) \<and> byte2 \<ge> 0xa0
          then Inr (start + 3)
          else if start + 4 > length buffer then throw_for_encoding_error ''MULE_INTERNAL'' buffer start 3
          else if byte1 = 0x9c \<and> between_inc byte2 0xf0 0xf4 \<or> byte1 = 0x9d \<and> between_inc byte2 0xf5 0xfe then
            and_then (get_byte buffer (start + 2)) (\<lambda>byte3.
              if byte3 \<ge> 0xa0 then
                and_then (get_byte buffer (start + 4)) (\<lambda>byte5.
                  if byte5 \<ge> 0xa0 then Inr (start + 4) else throw_for_encoding_error ''MULE_INTERNAL'' buffer start 4)
              else throw_for_encoding_error ''MULE_INTERNAL'' buffer start 4)
          else throw_for_encoding_error ''MULE_INTERNAL'' buffer start 4)))"

definition scan_SJIS :: "string \<Rightarrow> nat \<Rightarrow> pqxx_error + nat" where
  "scan_SJIS buffer start =
     (if start \<ge> length buffer then Inr npos
      else and_then (get_byte buffer start) (\<lambda>byte1.
        if byte1 < 0x80 \<or> between_inc byte1 0xa1 0xdf then Inr (start + 1)
        else if \<not> between_inc byte1 0x81 0x9f \<and> \<not> between_inc byte1 0xe0 0xfc then throw_for_encoding_error ''SJIS'' buffer start 1
        else if start + 2 > length buffer then throw_for_encoding_error ''SJIS'' buffer start (length buffer - start)
        else and_then (get_byte buffer (start + 1)) (\<lambda>byte2.
          if byte2 = 0x7f then throw_for_encoding_error ''SJIS'' buffer start 2
          else if between_inc byte2 0x40 0x9e \<or> between_inc byte2 0x9f 0xfc then Inr (start + 2)
          else throw_for_encoding_error ''SJIS'' buffer start 2)))"

definition scan_UHC :: "string \<Rightarrow> nat \<Rightarrow> pqxx_error + nat" where
  "scan_UHC buffer start =
     (if start \<ge> length buffer then Inr npos
      else and_then (get_byte buffer start) (\<lambda>byte1.
        if byte1 < 0x80 then Inr (start + 1)
        else if start + 2 > length buffer then throw_for_encoding_error ''UHC'' buffer start (length buffer - start)
        else and_then (get_byte buffer (start + 1)) (\<lambda>byte2.
          if between_inc byte1 0x80 0xc6 then
            (if between_inc byte2 0x41 0x5a \<or> between_inc byte2 0x61 0x7a \<or> between_inc byte2 0x80 0xfe
             then Inr (start + 2) else throw_for_encoding_error ''UHC'' buffer start 2)
          else if between_inc byte1 0xa1 0xfe then
            (if \<not> between_inc byte2 0xa1 0xfe then throw_for_encoding_error ''UHC'' buffer start 2 else Inr (start + 2))
          else throw_for_encoding_error ''UHC'' buffer start 1)))"

definition scan_UTF8 :: "string \<Rightarrow> nat \<Rightarrow> pqxx_error + nat" where
  "scan_UTF8 buffer start =
     (if start \<ge> length buffer then Inr npos
      else and_then (get_byte buffer start) (\<lambda>byte1.
        if byte1 < 0x80 then Inr (start + 1)
        else if start + 2 > length buffer then throw_for_encoding_error ''UTF8'' buffer start (length buffer - start)
        else and_then (get_byte buffer (start + 1)) (\<lambda>byte2.
          if between_inc byte1 0xc0 0xdf then
            (if \<not> between_inc byte2 0x80 0xbf then throw_for_encoding_error ''UTF8'' buffer start 2 else Inr (start + 2))
          else if start + 3 > length buffer then throw_for_encoding_error ''UTF8'' buffer start (length buffer - start)
          else and_then (get_byte buffer (start + 2)) (\<lambda>byte3.
            if between_inc byte1 0xe0 0xef then
              (if between_inc byte2 0x80 0xbf \<and> between_inc byte3 0x80 0xbf then Inr (start + 3)
               else throw_for_encoding_error ''UTF8'' buffer start 3)
            else if start + 4 > length buffer then throw_for_encoding_error ''UTF8'' buffer start (length buffer - start)
            else if between_inc byte1 0xf0 0xf7 then
              and_then (get_byte buffer (start + 3)) (\<lambda>byte4.
                if between_inc byte2 0x80 0xbf \<and> between_inc byte3 0x80 0xbf \<and> between_inc byte4 0x80 0xbf
                then Inr (start + 4)
                else throw_for_encoding_error ''UTF8'' buffer start 4)
            else throw_for_encoding_error ''UTF8'' buffer start 1))))"

fun glyph_scanner :: "encoding_group \<Rightarrow> string \<Rightarrow> nat \<Rightarrow> pqxx_error + nat" where
  "glyph_scanner MONOBYTE = scan_MONOBYTE"
| "glyph_scanner BIG5 = scan_BIG5"
| "glyph_scanner EUC_CN = scan_EUC_CN"
| "glyph_scanner EUC_JP = scan_EUC_JP"
| "glyph_scanner EUC_KR = scan_EUC_KR"
| "glyph_scanner EUC_TW = scan_EUC_TW"
| "glyph_scanner GB18030 = scan_GB18030"
| "glyph_scanner GBK = scan_GBK"
| "glyph_scanner JOHAB = scan_JOHAB"
| "glyph_scanner MULE_INTERNAL = scan_MULE_INTERNAL"
| "glyph_scanner SJIS = scan_SJIS"
| "glyph_scanner UHC = scan_UHC"
| "glyph_scanner UTF8 = scan_UTF8"

lemmas scan_defs = scan_MONOBYTE_def scan_BIG5_def scan_EUC_CN_def scan_EUC_JP_def scan_EUC_KR_def
  scan_EUC_TW_def scan_GB18030_def scan_GBK_def scan_JOHAB_def scan_MULE_INTERNAL_def scan_SJIS_def
  scan_UHC_def scan_UTF8_def

section \<open>What every scanner promises\<close>

lemma scan_past_end: "length b \<le> s \<Longrightarrow> glyph_scanner enc b s = Inr npos"
  by (cases enc) (simp_all add: scan_defs)

lemma scan_ascii: "s < length b \<Longrightarrow> ascii (b ! s) \<Longrightarrow> glyph_scanner enc b s = Inr (Suc s)"
  by (cases enc) (simp_all add: scan_defs ascii_def)

lemma scan_bounds:
  "s < length b \<Longrightarrow> glyph_scanner enc b s = Inr n \<Longrightarrow> s < n \<and> n \<le> length b \<and> n \<le> s + 4"
  by (cases enc) (auto simp: scan_defs and_then_Inr get_byte_Inr split: if_splits)

text \<open>
  A scanner reads outside the text only in one group, and only at the fifth byte of a character.
\<close>

definition proper :: "pqxx_error + nat \<Rightarrow> bool" where
  "proper r \<longleftrightarrow> (case r of Inl e \<Rightarrow> \<exists>m. e = argument_error m | Inr n \<Rightarrow> True)"

lemma proper_simps [simp]:
  "proper (Inr n)" "s + c \<le> length b \<Longrightarrow> proper (throw_for_encoding_error n' b s c)"
  by (simp_all add: proper_def throw_for_encoding_error_def)

lemma scan_proper:
  assumes "s < length b"
  shows "enc \<noteq> MULE_INTERNAL \<Longrightarrow> proper (glyph_scanner enc b s)"
    and "length b \<noteq> s + 4 \<Longrightarrow> proper (scan_MULE_INTERNAL b s)"
  subgoal using assms by (cases enc) (simp_all add: scan_defs)
  subgoal using assms by (simp add: scan_defs)
  done

lemma scan_errors:
  assumes "s < length b" and "glyph_scanner enc b s = Inl e"
  shows "(\<exists>m. e = argument_error m) \<or> enc = MULE_INTERNAL \<and> e = read_out_of_bounds (s + 4) \<and> length b = s + 4"
proof (cases "proper (glyph_scanner enc b s)")
  case True
  with assms(2) show ?thesis by (simp add: proper_def)
next
  case False
  then have m: "enc = MULE_INTERNAL" using scan_proper(1) [OF assms(1)] by blast
  with False scan_proper(2) [OF assms(1)] have l: "length b = s + 4" by auto
  with m assms(2) show ?thesis
    by (auto simp: scan_MULE_INTERNAL_def and_then_Inl get_byte_def throw_for_encoding_error_def split: if_splits)
qed

section \<open>Searching\<close>

text \<open>
  The loops below move from glyph to glyph; the code's \<open>PQXX_ASSUME(next > here)\<close> is a branch.
  \<open>find_ascii_char\<close> and \<open>find_s_ascii_char\<close> take the scanner the template argument selects and the
  list of needles.
\<close>

function find_ascii_char ::
  "(string \<Rightarrow> nat \<Rightarrow> pqxx_error + nat) \<Rightarrow> char list \<Rightarrow> string \<Rightarrow> nat \<Rightarrow> pqxx_error + nat" where
  "find_ascii_char scan needle haystack here =
     (if here < length haystack then
        (case scan haystack here of
           Inl e \<Rightarrow> Inl e
         | Inr next \<Rightarrow>
             if \<not> next > here then Inl assumption_failed
             else if haystack ! here \<in> set needle then Inr here
             else find_ascii_char scan needle haystack next)
      else Inr (length haystack))"
  by pat_completeness auto
termination by (relation "measure (\<lambda>(scan, needle, haystack, here). length haystack - here)") auto

text \<open>
  The version with a sentinel looks past the end of the view, where the sentinel may be: the haystack
  is the memory behind the view, \<open>sz\<close> the size of the view, which is all the scanner sees.  Nothing
  checks the bound: without a sentinel it reads outside the memory.
\<close>

function find_s_ascii_char ::
  "(string \<Rightarrow> nat \<Rightarrow> pqxx_error + nat) \<Rightarrow> char list \<Rightarrow> string \<Rightarrow> nat \<Rightarrow> nat \<Rightarrow> pqxx_error + nat" where
  "find_s_ascii_char scan needle haystack sz here =
     (if \<not> here < length haystack then Inl (read_out_of_bounds here)
      else if haystack ! here \<in> set needle then Inr here
      else (case scan (take sz haystack) here of
              Inl e \<Rightarrow> Inl e
            | Inr next \<Rightarrow>
                if \<not> next > here then Inl assumption_failed
                else find_s_ascii_char scan needle haystack sz next))"
  by pat_completeness auto
termination by (relation "measure (\<lambda>(scan, needle, haystack, sz, here). length haystack - here)") auto

function find_char ::
  "(string \<Rightarrow> nat \<Rightarrow> pqxx_error + nat) \<Rightarrow> char list \<Rightarrow> string \<Rightarrow> nat \<Rightarrow> pqxx_error + nat" where
  "find_char scan needle haystack here =
     (if here < length haystack then
        (case scan haystack here of
           Inl e \<Rightarrow> Inl e
         | Inr next \<Rightarrow>
             if \<not> next > here then Inl assumption_failed
             else if haystack ! here \<in> set needle \<and> next = here + 1 then Inr here
             else find_char scan needle haystack next)
      else Inr (length haystack))"
  by pat_completeness auto
termination by (relation "measure (\<lambda>(scan, needle, haystack, here). length haystack - here)") auto

declare find_ascii_char.simps [simp del] find_s_ascii_char.simps [simp del] find_char.simps [simp del]

text \<open>
  \<open>for_glyphs\<close> calls back with the begin and end of every glyph: the calls it made, and the error
  that stopped it, if any.  \<open>get_glyph_scanner\<close> is in the binary library.
\<close>

function for_glyphs_loop ::
  "(string \<Rightarrow> nat \<Rightarrow> pqxx_error + nat) \<Rightarrow> string \<Rightarrow> nat \<Rightarrow> (nat \<times> nat) list \<times> pqxx_error option" where
  "for_glyphs_loop scan buffer here =
     (if here < length buffer then
        (case scan buffer here of
           Inl e \<Rightarrow> ([], Some e)
         | Inr next \<Rightarrow>
             if \<not> next > here then ([], Some assumption_failed)
             else (let (gs, e) = for_glyphs_loop scan buffer next in ((here, next) # gs, e)))
      else ([], None))"
  by pat_completeness auto
termination by (relation "measure (\<lambda>(scan, buffer, here). length buffer - here)") auto

declare for_glyphs_loop.simps [simp del]

definition for_glyphs ::
  "(encoding_group \<Rightarrow> string \<Rightarrow> nat \<Rightarrow> pqxx_error + nat) \<Rightarrow> encoding_group \<Rightarrow> string \<Rightarrow> nat \<Rightarrow>
     (nat \<times> nat) list \<times> pqxx_error option" where
  "for_glyphs get_glyph_scanner enc buffer start = for_glyphs_loop (get_glyph_scanner enc) buffer start"

definition map_ascii_search_group :: "encoding_group \<Rightarrow> encoding_group" where
  "map_ascii_search_group enc =
     (if enc \<in> {MONOBYTE, EUC_CN, EUC_JP, EUC_KR, EUC_TW, MULE_INTERNAL, UTF8} then MONOBYTE else enc)"

definition unexpected_group :: "encoding_group \<Rightarrow> encoding_group \<Rightarrow> pqxx_error" where
  "unexpected_group as_if enc = internal_error
     (''Unexpected encoding group: '' @ dec (group_code as_if) @ '' (mapped from '' @ dec (group_code enc) @ '').'')"

definition get_char_finder ::
  "char list \<Rightarrow> encoding_group \<Rightarrow> pqxx_error + (string \<Rightarrow> nat \<Rightarrow> pqxx_error + nat)" where
  "get_char_finder needle enc =
     (let as_if = map_ascii_search_group enc
      in if as_if \<in> {MONOBYTE, BIG5, GB18030, GBK, JOHAB, SJIS, UHC}
         then Inr (find_ascii_char (glyph_scanner as_if) needle)
         else Inl (unexpected_group as_if enc))"

definition get_s_char_finder ::
  "char list \<Rightarrow> encoding_group \<Rightarrow> pqxx_error + (string \<Rightarrow> nat \<Rightarrow> nat \<Rightarrow> pqxx_error + nat)" where
  "get_s_char_finder needle enc =
     (let as_if = map_ascii_search_group enc
      in if as_if \<in> {MONOBYTE, BIG5, GB18030, GBK, JOHAB, SJIS, UHC}
         then Inr (find_s_ascii_char (glyph_scanner as_if) needle)
         else Inl (unexpected_group as_if enc))"

section \<open>The contract of a scanner and what the searches find\<close>

text \<open>
  The glyph boundaries of a text from an offset on, for a text the scanner accepts to its end.
\<close>

function boundaries :: "(string \<Rightarrow> nat \<Rightarrow> pqxx_error + nat) \<Rightarrow> string \<Rightarrow> nat \<Rightarrow> nat list option" where
  "boundaries scan b here =
     (if here < length b then
        (case scan b here of
           Inl e \<Rightarrow> None
         | Inr next \<Rightarrow> if next > here then map_option (Cons here) (boundaries scan b next) else None)
      else Some [])"
  by pat_completeness auto
termination by (relation "measure (\<lambda>(scan, b, here). length b - here)") auto

declare boundaries.simps [simp del]

locale scanner =
  fixes scan :: "string \<Rightarrow> nat \<Rightarrow> pqxx_error + nat"
  assumes progress: "s < length b \<Longrightarrow> scan b s = Inr n \<Longrightarrow> s < n \<and> n \<le> length b"
    and single: "s < length b \<Longrightarrow> ascii (b ! s) \<Longrightarrow> scan b s = Inr (Suc s)"
    and past_end: "length b \<le> s \<Longrightarrow> scan b s = Inr npos"
begin

text \<open>Every search is a search over the glyph boundaries.\<close>

lemma find_ascii_char_spec:
  "boundaries scan b here = Some gs \<Longrightarrow>
     find_ascii_char scan needle b here =
       Inr (case find (\<lambda>i. b ! i \<in> set needle) gs of Some i \<Rightarrow> i | None \<Rightarrow> length b)"
proof (induction scan needle b here arbitrary: gs rule: find_ascii_char.induct)
  case (1 scan needle b here)
  show ?case
  proof (cases "here < length b")
    case False
    with 1 show ?thesis by (simp add: boundaries.simps [of scan b here] find_ascii_char.simps [of scan needle b here])
  next
    case True
    with "1.prems" obtain n gs' where n: "scan b here = Inr n" "here < n" "boundaries scan b n = Some gs'" "gs = here # gs'"
      by (auto simp: boundaries.simps [of scan b here] split: sum.splits if_splits)
    with True "1.IH" [OF True n(1), of gs'] show ?thesis
      by (simp add: find_ascii_char.simps [of scan needle b here])
  qed
qed

lemma find_char_eq:
  assumes "list_all ascii needle"
  shows "find_char scan needle b here = find_ascii_char scan needle b here"
proof (induction "length b - here" arbitrary: here rule: less_induct)
  case less
  show ?case
  proof (cases "here < length b")
    case False
    then show ?thesis by (simp add: find_char.simps [of scan needle b here] find_ascii_char.simps [of scan needle b here])
  next
    case True
    show ?thesis
    proof (cases "scan b here")
      case (Inl e)
      with True show ?thesis
        by (simp add: find_char.simps [of scan needle b here] find_ascii_char.simps [of scan needle b here])
    next
      case (Inr n)
      have a: "b ! here \<in> set needle \<Longrightarrow> n = Suc here"
        using single [OF True] assms Inr by (auto simp: list_all_iff)
      from progress [OF True Inr] True have "length b - n < length b - here" by linarith
      from less [OF this] have "find_char scan needle b n = find_ascii_char scan needle b n" .
      with True Inr a progress [OF True Inr] show ?thesis
        by (auto simp: find_char.simps [of scan needle b here] find_ascii_char.simps [of scan needle b here])
    qed
  qed
qed

lemma boundaries_bound:
  "boundaries scan b here = Some gs \<Longrightarrow> i \<in> set gs \<Longrightarrow> here \<le> i \<and> i < length b"
proof (induction "length b - here" arbitrary: here gs rule: less_induct)
  case less
  show ?case
  proof (cases "here < length b")
    case False
    with less.prems show ?thesis by (simp add: boundaries.simps [of scan b here])
  next
    case True
    with less.prems obtain n gs' where n: "scan b here = Inr n" "here < n" "boundaries scan b n = Some gs'" "gs = here # gs'"
      by (auto simp: boundaries.simps [of scan b here] split: sum.splits if_splits)
    from n(2) True have lt: "length b - n < length b - here" by linarith
    from less.prems(2) n(4) consider "i = here" | "i \<in> set gs'" by auto
    then show ?thesis
    proof cases
      case 1
      with True show ?thesis by simp
    next
      case 2
      from less.hyps [OF lt n(3) this] n(2) show ?thesis by simp
    qed
  qed
qed

end

text \<open>
  The encodings whose multibyte characters hold no ASCII byte: for them the search over boundaries
  is the search over bytes.
\<close>

locale ascii_safe_scanner = scanner +
  assumes high_bytes: "s < length b \<Longrightarrow> scan b s = Inr n \<Longrightarrow> s < k \<Longrightarrow> k < n \<Longrightarrow> \<not> ascii (b ! k)"
begin

lemma find_app: "find P (xs @ ys) = (case find P xs of None \<Rightarrow> find P ys | Some x \<Rightarrow> Some x)"
  by (induction xs) auto

lemma find_bytewise:
  assumes "list_all ascii needle" and "boundaries scan b here = Some gs"
  shows "find (\<lambda>i. b ! i \<in> set needle) gs = find (\<lambda>i. b ! i \<in> set needle) [here..<length b]"
  using assms(2)
proof (induction "length b - here" arbitrary: here gs rule: less_induct)
  case less
  show ?case
  proof (cases "here < length b")
    case False
    with less.prems show ?thesis by (simp add: boundaries.simps [of scan b here])
  next
    case True
    with less.prems obtain n gs' where n: "scan b here = Inr n" "here < n" "boundaries scan b n = Some gs'" "gs = here # gs'"
      by (auto simp: boundaries.simps [of scan b here] split: sum.splits if_splits)
    from progress [OF True n(1)] have nl: "n \<le> length b" by simp
    have IH: "find (\<lambda>i. b ! i \<in> set needle) gs' = find (\<lambda>i. b ! i \<in> set needle) [n..<length b]"
      using less.hyps [OF _ n(3)] n(2) True by simp
    have "b ! k \<notin> set needle" if "Suc here \<le> k" "k < n" for k
      using high_bytes [OF True n(1), of k] that assms(1) by (auto simp: list_all_iff)
    then have skip: "find (\<lambda>i. b ! i \<in> set needle) [Suc here..<n] = None"
      by (simp add: find_None_iff)
    have "[here..<length b] = here # [Suc here..<n] @ [n..<length b]"
      using True n(2) nl upt_add_eq_append [of "Suc here" n "length b - n"] by (simp add: upt_conv_Cons)
    with n(4) IH skip show ?thesis by (simp add: find_app)
  qed
qed

end

section \<open>The scanners keep the contracts\<close>

interpretation group: scanner "glyph_scanner enc" for enc
proof
  fix s :: nat and b n
  show "s < length b \<Longrightarrow> glyph_scanner enc b s = Inr n \<Longrightarrow> s < n \<and> n \<le> length b"
    using scan_bounds by blast
qed (simp_all add: scan_ascii scan_past_end)

text \<open>The groups that \<open>map_ascii_search_group\<close> treats as single-byte, without MULE_INTERNAL.\<close>

definition ascii_safe_group :: "encoding_group \<Rightarrow> bool" where
  "ascii_safe_group enc \<longleftrightarrow> enc \<in> {MONOBYTE, EUC_CN, EUC_JP, EUC_KR, EUC_TW, UTF8}"

lemma less_offsets: "s < k \<Longrightarrow> k < s + 4 \<Longrightarrow> k = s + 1 \<or> k = s + 2 \<or> k = s + (3::nat)"
  by arith

lemma safe_high_bytes:
  assumes "ascii_safe_group enc" and "s < length b" and "glyph_scanner enc b s = Inr n" and "s < k" and "k < n"
  shows "\<not> ascii (b ! k)"
proof -
  define d where "d = k - s"
  have k: "k = s + d" and lt: "s + d < n" using assms(4,5) by (simp_all add: d_def)
  from scan_bounds [OF assms(2,3)] assms(4) lt have "d = 1 \<or> d = 2 \<or> d = 3"
    by (auto simp: k)
  then have "\<not> ascii (b ! (s + d))"
    using assms(1-3) lt unfolding ascii_safe_group_def
    by (elim disjE; cases enc)
      (auto simp: scan_defs and_then_Inr get_byte_Inr between_inc_def ascii_def split: if_splits)
  then show ?thesis by (simp add: k)
qed

lemma safe_scanner: "ascii_safe_group enc \<Longrightarrow> ascii_safe_scanner (glyph_scanner enc)"
proof
  fix s :: nat and b n k
  assume "ascii_safe_group enc"
  then show "s < length b \<Longrightarrow> glyph_scanner enc b s = Inr n \<Longrightarrow> s < k \<Longrightarrow> k < n \<Longrightarrow> \<not> ascii (b ! k)"
    using safe_high_bytes by blast
qed

text \<open>One interpretation per safe group discharges the stronger contract.\<close>

interpretation mono: ascii_safe_scanner "glyph_scanner MONOBYTE"
  by (rule safe_scanner) (simp add: ascii_safe_group_def)

interpretation euc_cn: ascii_safe_scanner "glyph_scanner EUC_CN"
  by (rule safe_scanner) (simp add: ascii_safe_group_def)

interpretation euc_jp: ascii_safe_scanner "glyph_scanner EUC_JP"
  by (rule safe_scanner) (simp add: ascii_safe_group_def)

interpretation euc_kr: ascii_safe_scanner "glyph_scanner EUC_KR"
  by (rule safe_scanner) (simp add: ascii_safe_group_def)

interpretation euc_tw: ascii_safe_scanner "glyph_scanner EUC_TW"
  by (rule safe_scanner) (simp add: ascii_safe_group_def)

interpretation utf8: ascii_safe_scanner "glyph_scanner UTF8"
  by (rule safe_scanner) (simp add: ascii_safe_group_def)

lemma mono_boundaries: "boundaries scan_MONOBYTE b here = Some [here..<length b]"
proof (induction "length b - here" arbitrary: here rule: less_induct)
  case less
  show ?case
  proof (cases "here < length b")
    case False
    then show ?thesis by (simp add: boundaries.simps [of _ b here])
  next
    case True
    with less [of "Suc here"] show ?thesis
      by (simp add: boundaries.simps [of _ b here] scan_MONOBYTE_def upt_conv_Cons)
  qed
qed

lemma search_as_if:
  assumes enc: "enc \<noteq> MULE_INTERNAL" and a: "list_all ascii needle"
    and g: "boundaries (glyph_scanner enc) b here = Some gs"
  shows "find_ascii_char (glyph_scanner (map_ascii_search_group enc)) needle b here =
    find_ascii_char (glyph_scanner enc) needle b here"
proof (cases "ascii_safe_group enc")
  case True
  then have m: "map_ascii_search_group enc = MONOBYTE"
    by (auto simp: map_ascii_search_group_def ascii_safe_group_def)
  from group.find_ascii_char_spec [of MONOBYTE b here "[here..<length b]" needle] mono_boundaries [of b here]
  have "find_ascii_char (glyph_scanner MONOBYTE) needle b here =
      Inr (case find (\<lambda>i. b ! i \<in> set needle) [here..<length b] of Some i \<Rightarrow> i | None \<Rightarrow> length b)"
    by simp
  with ascii_safe_scanner.find_bytewise [OF safe_scanner [OF True] a g] group.find_ascii_char_spec [OF g, of needle]
  show ?thesis by (simp only: m)
next
  case False
  with enc have "map_ascii_search_group enc = enc"
    by (cases enc) (simp_all add: map_ascii_search_group_def ascii_safe_group_def)
  then show ?thesis by simp
qed

section \<open>UTF-8\<close>

text \<open>The UTF-8 form of a number below \<open>2 ^ 21\<close>, as bytes, and a text of such numbers.\<close>

definition utf8 :: "nat \<Rightarrow> string" where
  "utf8 c = map char_of
     (if c < 0x80 then [c]
      else if c < 0x800 then [0xC0 + c div 64, 0x80 + c mod 64]
      else if c < 0x10000 then [0xE0 + c div 4096, 0x80 + c div 64 mod 64, 0x80 + c mod 64]
      else [0xF0 + c div 262144, 0x80 + c div 4096 mod 64, 0x80 + c div 64 mod 64, 0x80 + c mod 64])"

definition utf8_text :: "nat list \<Rightarrow> string" where
  "utf8_text cs = concat (map utf8 cs)"

lemma byte_of_char_of: "n < 256 \<Longrightarrow> byte_of (char_of n) = n"
  by (simp add: byte_of_def)

lemma mod_64 [simp]: "n mod 64 + 128 < (256::nat)"
proof -
  have "n mod 64 < 64" by simp
  then show ?thesis by linarith
qed

lemma div_bounds:
  "c < 0x800 \<Longrightarrow> c div 64 < (32::nat)" "c < 0x10000 \<Longrightarrow> c div 4096 < (16::nat)"
  "c < 0x200000 \<Longrightarrow> c div 262144 < (8::nat)"
  by (simp_all add: less_mult_imp_div_less)

lemma scan_utf8:
  assumes "c < 0x200000"
  shows "glyph_scanner UTF8 (pre @ utf8 c @ rest) (length pre) = Inr (length pre + length (utf8 c))"
proof -
  let ?b = "pre @ utf8 c @ rest"
  have tail: "between_inc (128 + x mod 64) 128 191" for x
    using mod_less_divisor [of 64 x] unfolding between_inc_def by linarith
  have nth: "get_byte ?b (length pre + i) = Inr (byte_of (utf8 c ! i))" if "i < length (utf8 c)" for i
    using that by (simp add: nth_append)
  note nth0 = nth [of 0, simplified]
  consider (1) "c < 0x80" | (2) "0x80 \<le> c" "c < 0x800" | (3) "0x800 \<le> c" "c < 0x10000" | (4) "0x10000 \<le> c"
    by linarith
  then show ?thesis
  proof cases
    case 1
    then have u: "utf8 c = [char_of c]" by (simp add: utf8_def)
    with 1 nth0 show ?thesis by (simp add: scan_UTF8_def byte_of_char_of)
  next
    case 2
    then have u: "utf8 c = [char_of (192 + c div 64), char_of (128 + c mod 64)]" by (simp add: utf8_def)
    with 2 div_bounds(1) [of c] tail [of c] nth0 nth [of 1] show ?thesis
      by (simp add: scan_UTF8_def byte_of_char_of between_inc_def)
  next
    case 3
    then have u: "utf8 c = [char_of (224 + c div 4096), char_of (128 + c div 64 mod 64), char_of (128 + c mod 64)]"
      by (simp add: utf8_def)
    with 3 div_bounds(2) [of c] tail [of c] tail [of "c div 64"] nth0 nth [of 1] nth [of 2] show ?thesis
      by (simp add: scan_UTF8_def byte_of_char_of between_inc_def)
  next
    case 4
    then have u: "utf8 c = [char_of (240 + c div 262144), char_of (128 + c div 4096 mod 64),
        char_of (128 + c div 64 mod 64), char_of (128 + c mod 64)]"
      by (simp add: utf8_def)
    with 4 assms div_bounds(3) [of c] tail [of c] tail [of "c div 64"] tail [of "c div 4096"] nth0 nth [of 1] nth [of 2] nth [of 3]
    show ?thesis by (simp add: scan_UTF8_def byte_of_char_of between_inc_def)
  qed
qed

lemma utf8_nonempty: "utf8 c \<noteq> []"
  by (simp add: utf8_def)

lemma for_glyphs_utf8:
  "list_all (\<lambda>c. c < 0x200000) cs \<Longrightarrow>
     map (\<lambda>(i, j). segment (pre @ utf8_text cs) i j)
       (fst (for_glyphs_loop (glyph_scanner UTF8) (pre @ utf8_text cs) (length pre))) = map utf8 cs \<and>
     snd (for_glyphs_loop (glyph_scanner UTF8) (pre @ utf8_text cs) (length pre)) = None"
proof (induction cs arbitrary: pre)
  case Nil
  then show ?case by (simp add: utf8_text_def for_glyphs_loop.simps [of _ pre "length pre"])
next
  case (Cons c cs)
  let ?b = "pre @ utf8_text (c # cs)"
  have b: "?b = (pre @ utf8 c) @ utf8_text cs" by (simp add: utf8_text_def)
  from Cons.prems scan_utf8 [of c pre "utf8_text cs"]
  have s: "glyph_scanner UTF8 ?b (length pre) = Inr (length (pre @ utf8 c))" by (simp add: b)
  have lt: "length pre < length ?b" "length pre < length (pre @ utf8 c)"
    using utf8_nonempty [of c] by (simp_all add: b)
  have seg: "segment ?b (length pre) (length (pre @ utf8 c)) = utf8 c" by (simp add: b segment_def)
  have "for_glyphs_loop (glyph_scanner UTF8) ?b (length pre) =
      (let (gs, e) = for_glyphs_loop (glyph_scanner UTF8) ?b (length (pre @ utf8 c))
       in ((length pre, length (pre @ utf8 c)) # gs, e))"
    using lt s by (simp only: for_glyphs_loop.simps [of _ ?b "length pre"] if_True if_False sum.case not_not simp_thms)
  with Cons.IH [of "pre @ utf8 c"] Cons.prems seg show ?case
    by (simp add: b case_prod_beta Let_def del: append_assoc length_append)
qed

section \<open>Properties\<close>

text \<open>
  C26. Every glyph scanner is safe and makes progress: for each of the thirteen encoding groups and
  each offset in a text, the result is either the end of the glyph (past the offset, within the
  text, at most four bytes on, and exactly one byte on when the byte is ASCII) or an encoding error,
  with one exception: in MULE_INTERNAL a four-byte character at the end of the text makes the scanner read
  the byte after the text.
\<close>
theorem glyph_scanners_safe:
  assumes "start < length b"
  shows "(case glyph_scanner enc b start of
       Inr n \<Rightarrow> start < n \<and> n \<le> length b \<and> n \<le> start + 4 \<and> (if ascii (b ! start) then n = start + 1 else True)
     | Inl (argument_error m) \<Rightarrow> True
     | Inl (read_out_of_bounds i) \<Rightarrow> enc = MULE_INTERNAL \<and> i = length b \<and> i = start + 4
     | Inl _ \<Rightarrow> False)"
proof (cases "glyph_scanner enc b start")
  case (Inl e)
  with scan_errors [OF assms Inl] show ?thesis by auto
next
  case (Inr n)
  with scan_bounds [OF assms Inr] scan_ascii [OF assms, of enc] show ?thesis by auto
qed

lemma glyph_scanners_safe_witness:
  "glyph_scanner MULE_INTERNAL (map char_of [0x9C, 0xF0, 0xA0, 0xA0 :: nat]) 0 = Inl (read_out_of_bounds 4) \<and>
   (case glyph_scanner UTF8 ''a'' 0 of Inr n \<Rightarrow> n = 1 | Inl e \<Rightarrow> False)"
proof -
  have "glyph_scanner MULE_INTERNAL (map char_of [0x9C, 0xF0, 0xA0, 0xA0 :: nat]) 0 = Inl (read_out_of_bounds 4)"
    by code_simp
  moreover have "glyph_scanner UTF8 ''a'' 0 = Inr 1" by code_simp
  with glyph_scanners_safe [of 0 "''a''" UTF8]
  have "case glyph_scanner UTF8 ''a'' 0 of Inr n \<Rightarrow> n = 1 | Inl e \<Rightarrow> False" by (simp only: sum.case)
  ultimately show ?thesis by blast
qed

text \<open>
  C25. Searching an ASCII character byte by byte is right where the code does it: for every encoding
  group but MULE_INTERNAL, the finder that \<open>get_char_finder\<close> selects (which treats the ASCII-safe
  groups as single-byte text) finds, in a text that is valid in the group, the first glyph that is
  one of the needles, or the end of the text if there is none.
\<close>
theorem get_char_finder_correct:
  assumes "enc \<noteq> MULE_INTERNAL" and "list_all ascii needle" and "boundaries (glyph_scanner enc) b here = Some gs"
  shows "and_then (get_char_finder needle enc) (\<lambda>finder. finder b here) =
    Inr (case find (\<lambda>i. b ! i \<in> set needle) gs of Some i \<Rightarrow> i | None \<Rightarrow> length b)"
proof -
  have "map_ascii_search_group enc \<in> {MONOBYTE, BIG5, GB18030, GBK, JOHAB, SJIS, UHC}"
    using assms(1) by (cases enc) (simp_all add: map_ascii_search_group_def)
  then have "and_then (get_char_finder needle enc) (\<lambda>finder. finder b here) =
      find_ascii_char (glyph_scanner (map_ascii_search_group enc)) needle b here"
    by (simp only: get_char_finder_def Let_def if_True and_then.simps)
  with search_as_if [OF assms] group.find_ascii_char_spec [OF assms(3), of needle] show ?thesis by simp
qed

lemma get_char_finder_correct_witness:
  "and_then (get_char_finder '','' UTF8) (\<lambda>finder. finder (utf8 0xE9 @ '',x'') 0) = Inr 2"
proof -
  let ?b = "utf8 0xE9 @ '',x''"
  have "boundaries (glyph_scanner UTF8) ?b 0 = Some [0, 2, 3]" by code_simp
  moreover have "list_all ascii '',''" by code_simp
  ultimately have "and_then (get_char_finder '','' UTF8) (\<lambda>finder. finder ?b 0) =
      Inr (case find (\<lambda>i. ?b ! i \<in> set '','') [0, 2, 3] of Some i \<Rightarrow> i | None \<Rightarrow> length ?b)"
    using get_char_finder_correct [of UTF8 "'',''" ?b 0 "[0, 2, 3]"] by blast
  moreover have "(case find (\<lambda>i. ?b ! i \<in> set '','') [0, 2, 3] of Some i \<Rightarrow> i | None \<Rightarrow> length ?b) = 2" by code_simp
  ultimately show ?thesis by (simp only:)
qed

text \<open>
  The exception is real: a three-byte MULE_INTERNAL character may end in an ASCII byte, because
  the scanner does not look at the third byte; the search the code selects for that group then
  reports the inside of the character as the position of a quote, where the group's own scanner
  finds none.
\<close>
lemma mule_search_unsound:
  "and_then (get_char_finder [dquote] MULE_INTERNAL) (\<lambda>finder. finder (map char_of [0x9A, 0xA0 :: nat] @ [dquote]) 0) = Inr 2 \<and>
   find_ascii_char (glyph_scanner MULE_INTERNAL) [dquote] (map char_of [0x9A, 0xA0 :: nat] @ [dquote]) 0 = Inr 3"
  by code_simp

end
