(* ===== verification/Pqxx_Quoting.thy ===== *)
theory Pqxx_Quoting
  imports Pqxx_Encodings
begin

text \<open>
  Quoting and composite values in the database client (\<open>pqxx/internal/array-composite.hxx\<close>,
  \<open>pqxx/composite.hxx\<close>): the scanners and parsers of double-quoted and unquoted strings, the parser
  of the fields of a composite value, and the writer, which escapes a field in place in the output
  buffer.  The buffer \<open>[begin, end)\<close> is a character list, a pointer into it an offset; a write
  outside it is an error of the model.
\<close>

lemma and_then_cong [fundef_cong]:
  "m = m' \<Longrightarrow> (\<And>x. m' = Inr x \<Longrightarrow> k x = k' x) \<Longrightarrow> and_then m k = and_then m' k'"
  by (cases m') auto

section \<open>Scanning quoted and unquoted strings\<close>

text \<open>A call of the scanner with the assumption that follows each of them.\<close>

definition scan_next :: "encoding_group \<Rightarrow> string \<Rightarrow> nat \<Rightarrow> pqxx_error + nat" where
  "scan_next enc input pos =
     and_then (glyph_scanner enc input pos) (\<lambda>next.
     and_then (pqxx_assume (next > pos)) (\<lambda>_. Inr next))"

lemma scan_next_Inr: "scan_next enc b p = Inr n \<Longrightarrow> p < n"
  by (auto simp: scan_next_def and_then_Inr)

text \<open>
  The loop of \<open>scan_double_quoted_string\<close> from a position on: \<open>next\<close> is the end of the glyph there.
\<close>

function scan_quoted_from :: "encoding_group \<Rightarrow> string \<Rightarrow> nat \<Rightarrow> bool \<Rightarrow> pqxx_error + nat" where
  "scan_quoted_from enc input pos at_quote =
     and_then (scan_next enc input pos) (\<lambda>next.
       if pos < length input then
         (if at_quote then
            (if next - pos = 1 \<and> input ! pos = dquote then scan_quoted_from enc input next False
             else Inr pos)
          else if next - pos = 1 then
            (if input ! pos = backslash then
               and_then (scan_next enc input next) (\<lambda>next. scan_quoted_from enc input next False)
             else if input ! pos = dquote then scan_quoted_from enc input next True
             else scan_quoted_from enc input next False)
          else scan_quoted_from enc input next False)
       else if \<not> at_quote then Inl (argument_error (''Missing closing double-quote: '' @ c_str input))
       else Inr pos)"
  by pat_completeness auto
termination
  by (relation "measure (\<lambda>(enc, input, pos, at_quote). length input - pos)") (auto dest!: scan_next_Inr intro!: diff_less_mono2)

declare scan_quoted_from.simps [simp del]

definition scan_double_quoted_string :: "encoding_group \<Rightarrow> string \<Rightarrow> nat \<Rightarrow> pqxx_error + nat" where
  "scan_double_quoted_string enc input pos =
     and_then (scan_next enc input pos) (\<lambda>next. scan_quoted_from enc input next False)"

text \<open>
  The loop of \<open>parse_double_quoted_string\<close> over \<open>[here, end - 1)\<close>; the scanner sees the text up to
  \<open>end\<close> only.  Appending past \<open>end\<close> would read outside that text.
\<close>

function parse_quoted_from :: "encoding_group \<Rightarrow> string \<Rightarrow> nat \<Rightarrow> string \<Rightarrow> pqxx_error + string" where
  "parse_quoted_from enc input here output =
     and_then (scan_next enc input here) (\<lambda>next.
       if here + 1 < length input then
         (if next - here = 1 \<and> (input ! here = backslash \<or> input ! here = dquote) then
            and_then (scan_next enc input next) (\<lambda>stop.
              if stop \<le> length input then parse_quoted_from enc input stop (output @ segment input next stop)
              else Inl (read_out_of_bounds (length input)))
          else if next \<le> length input then parse_quoted_from enc input next (output @ segment input here next)
          else Inl (read_out_of_bounds (length input)))
       else Inr output)"
  by pat_completeness auto
termination
  by (relation "measure (\<lambda>(enc, input, here, out). length input - here)") (auto dest!: scan_next_Inr intro!: diff_less_mono2)

declare parse_quoted_from.simps [simp del]

definition parse_double_quoted_string :: "encoding_group \<Rightarrow> string \<Rightarrow> nat \<Rightarrow> nat \<Rightarrow> pqxx_error + string" where
  "parse_double_quoted_string enc input stop pos =
     (if stop < pos + 2 then Inl length_error
      else and_then (scan_next enc (take stop input) pos) (\<lambda>here.
        parse_quoted_from enc (take stop input) here []))"

text \<open>\<open>stop_chars\<close> is the template argument \<open>STOP\<close>.\<close>

function scan_unquoted_string :: "encoding_group \<Rightarrow> char list \<Rightarrow> string \<Rightarrow> nat \<Rightarrow> pqxx_error + nat" where
  "scan_unquoted_string enc stop_chars input pos =
     and_then (scan_next enc input pos) (\<lambda>next.
       if pos < length input \<and> (next - pos > 1 \<or> input ! pos \<notin> set stop_chars)
       then scan_unquoted_string enc stop_chars input next
       else Inr pos)"
  by pat_completeness auto
termination
  by (relation "measure (\<lambda>(enc, st, input, pos). length input - pos)") (auto dest!: scan_next_Inr intro!: diff_less_mono2)

declare scan_unquoted_string.simps [simp del]

definition parse_unquoted_string :: "string \<Rightarrow> nat \<Rightarrow> nat \<Rightarrow> string" where
  "parse_unquoted_string input stop pos = segment input pos stop"

section \<open>Texts of single bytes\<close>

text \<open>
  Texts in which every character is one byte: any text in a single-byte encoding, and ASCII text in
  every encoding.
\<close>

definition byte_text :: "encoding_group \<Rightarrow> string \<Rightarrow> bool" where
  "byte_text enc b \<longleftrightarrow> (enc = MONOBYTE \<or> list_all ascii b) \<and> length b < npos"

lemma byte_text_small: "list_all ascii b \<Longrightarrow> length b \<le> 100 \<Longrightarrow> byte_text enc b"
  by (simp add: byte_text_def npos_def)

lemma byte_text_take: "byte_text enc b \<Longrightarrow> byte_text enc (take n b)"
  by (auto simp: byte_text_def list_all_iff dest: in_set_takeD)

lemma byte_text_append: "byte_text enc (a @ b) \<Longrightarrow> byte_text enc a"
  using byte_text_take [of enc "a @ b" "length a"] by simp

lemma scan_byte_text:
  "byte_text enc b \<Longrightarrow> p < length b \<Longrightarrow> glyph_scanner enc b p = Inr (Suc p)"
  by (auto simp: byte_text_def scan_ascii list_all_length scan_MONOBYTE_def)

lemma scan_next_byte: "byte_text enc b \<Longrightarrow> p < length b \<Longrightarrow> scan_next enc b p = Inr (Suc p)"
  by (simp add: scan_next_def scan_byte_text)

lemma scan_next_end: "byte_text enc b \<Longrightarrow> scan_next enc b (length b) = Inr npos"
  by (simp add: scan_next_def scan_past_end byte_text_def)

section \<open>Quoting round trip\<close>

text \<open>What the writers make of the characters of a text.\<close>

fun escape :: "string \<Rightarrow> string" where
  "escape [] = []"
| "escape (c # cs) = (if c = dquote \<or> c = backslash then backslash # c # escape cs else c # escape cs)"

lemma length_escape: "length t \<le> length (escape t) \<and> length (escape t) \<le> 2 * length t"
  by (induction t) auto

lemma escape_append: "escape (s @ t) = escape s @ escape t"
  by (induction s) auto

text \<open>One step of each loop on such a text.\<close>

lemma scan_quoted_step:
  assumes "byte_text enc b" and "p < length b"
  shows "scan_quoted_from enc b p True =
      (if b ! p = dquote then scan_quoted_from enc b (Suc p) False else Inr p)"
    and "b ! p = dquote \<Longrightarrow> scan_quoted_from enc b p False = scan_quoted_from enc b (Suc p) True"
    and "b ! p = backslash \<Longrightarrow> Suc p < length b \<Longrightarrow>
      scan_quoted_from enc b p False = scan_quoted_from enc b (Suc (Suc p)) False"
    and "b ! p \<noteq> dquote \<Longrightarrow> b ! p \<noteq> backslash \<Longrightarrow>
      scan_quoted_from enc b p False = scan_quoted_from enc b (Suc p) False"
  using assms scan_next_byte [OF assms] scan_next_byte [OF assms(1), of "Suc p"]
  by (subst scan_quoted_from.simps; simp)+

lemma scan_quoted_end: "byte_text enc b \<Longrightarrow> scan_quoted_from enc b (length b) True = Inr (length b)"
  by (subst scan_quoted_from.simps) (simp add: scan_next_end)

lemma parse_quoted_step:
  assumes "byte_text enc b" and "Suc p < length b"
  shows "b ! p = backslash \<or> b ! p = dquote \<Longrightarrow>
      parse_quoted_from enc b p out = parse_quoted_from enc b (Suc (Suc p)) (out @ [b ! Suc p])"
    and "b ! p \<noteq> dquote \<Longrightarrow> b ! p \<noteq> backslash \<Longrightarrow>
      parse_quoted_from enc b p out = parse_quoted_from enc b (Suc p) (out @ [b ! p])"
  using assms scan_next_byte [OF assms(1), of p] scan_next_byte [OF assms(1), of "Suc p"]
  by (subst parse_quoted_from.simps; simp add: segment_Suc)+

lemma parse_quoted_last:
  assumes "byte_text enc b" and "Suc p = length b"
  shows "parse_quoted_from enc b p out = Inr out"
  using assms scan_next_byte [OF assms(1), of p] by (subst parse_quoted_from.simps) simp

lemma scan_unquoted_step:
  assumes "byte_text enc b" and "p < length b"
  shows "scan_unquoted_string enc st b p =
    (if b ! p \<in> set st then Inr p else scan_unquoted_string enc st b (Suc p))"
  using assms scan_next_byte [OF assms] by (subst scan_unquoted_string.simps) simp

lemma scan_quoted_escape:
  assumes "rest = [] \<or> hd rest \<noteq> dquote"
  shows "byte_text enc (pre @ escape t @ dquote # rest) \<Longrightarrow>
    scan_quoted_from enc (pre @ escape t @ dquote # rest) (length pre) False =
      Inr (length pre + length (escape t) + 1)"
proof (induction t arbitrary: pre)
  case Nil
  let ?b = "pre @ dquote # rest"
  have bt: "byte_text enc ?b" using Nil by simp
  have "scan_quoted_from enc ?b (length pre) False = scan_quoted_from enc ?b (Suc (length pre)) True"
    by (rule scan_quoted_step(2) [OF bt]) simp_all
  also have "\<dots> = Inr (Suc (length pre))"
  proof (cases rest)
    case Nil
    then have "Suc (length pre) = length ?b" by simp
    with scan_quoted_end [OF bt] show ?thesis by simp
  next
    case (Cons c cs)
    then have "?b ! Suc (length pre) \<noteq> dquote" using assms by (simp add: nth_append)
    with Cons scan_quoted_step(1) [OF bt, of "Suc (length pre)"] show ?thesis by simp
  qed
  finally show ?case by simp
next
  case (Cons c t)
  let ?b = "pre @ escape (c # t) @ dquote # rest"
  show ?case
  proof (cases "c = dquote \<or> c = backslash")
    case True
    then have b: "?b = (pre @ [backslash, c]) @ escape t @ dquote # rest" by simp
    have "scan_quoted_from enc ?b (length pre) False = scan_quoted_from enc ?b (Suc (Suc (length pre))) False"
      by (rule scan_quoted_step(3) [OF Cons.prems]) (use True in simp_all)
    with Cons.IH [of "pre @ [backslash, c]"] Cons.prems b True show ?thesis by simp
  next
    case False
    then have b: "?b = (pre @ [c]) @ escape t @ dquote # rest" by simp
    have "scan_quoted_from enc ?b (length pre) False = scan_quoted_from enc ?b (Suc (length pre)) False"
      by (rule scan_quoted_step(4) [OF Cons.prems]) (use False in simp_all)
    with Cons.IH [of "pre @ [c]"] Cons.prems b False show ?thesis by simp
  qed
qed

lemma scan_double_quoted_escape:
  assumes "rest = [] \<or> hd rest \<noteq> dquote" and bt: "byte_text enc (pre @ dquote # escape t @ dquote # rest)"
  shows "scan_double_quoted_string enc (pre @ dquote # escape t @ dquote # rest) (length pre) =
    Inr (length pre + length (escape t) + 2)"
  using scan_quoted_escape [OF assms(1), of enc "pre @ [dquote]" t] bt scan_next_byte [OF bt, of "length pre"]
  by (simp add: scan_double_quoted_string_def)

lemma parse_quoted_escape:
  "byte_text enc (pre @ escape t @ [dquote]) \<Longrightarrow>
    parse_quoted_from enc (pre @ escape t @ [dquote]) (length pre) out = Inr (out @ t)"
proof (induction t arbitrary: pre out)
  case Nil
  then show ?case by (simp add: parse_quoted_last)
next
  case (Cons c t)
  let ?b = "pre @ escape (c # t) @ [dquote]"
  note bt = Cons.prems
  show ?case
  proof (cases "c = dquote \<or> c = backslash")
    case True
    then have b: "?b = (pre @ [backslash, c]) @ escape t @ [dquote]" by simp
    have c: "?b ! Suc (length pre) = c" using True by (simp add: nth_append)
    have "parse_quoted_from enc ?b (length pre) out = parse_quoted_from enc ?b (Suc (Suc (length pre))) (out @ [?b ! Suc (length pre)])"
      by (rule parse_quoted_step(1) [OF bt]) (use True in simp_all)
    with Cons.IH [of "pre @ [backslash, c]" "out @ [c]"] bt b c True show ?thesis by simp
  next
    case False
    then have b: "?b = (pre @ [c]) @ escape t @ [dquote]" by simp
    have c: "?b ! length pre = c" using False by (simp add: nth_append)
    have "parse_quoted_from enc ?b (length pre) out = parse_quoted_from enc ?b (Suc (length pre)) (out @ [?b ! length pre])"
      by (rule parse_quoted_step(2) [OF bt]) (use False in simp_all)
    with Cons.IH [of "pre @ [c]" "out @ [c]"] bt b c False show ?thesis by simp
  qed
qed

lemma parse_double_quoted_escape:
  assumes bt: "byte_text enc (pre @ dquote # escape t @ dquote # rest)"
  shows "parse_double_quoted_string enc (pre @ dquote # escape t @ dquote # rest)
    (length pre + length (escape t) + 2) (length pre) = Inr t"
proof -
  let ?b = "pre @ dquote # escape t @ [dquote]"
  have tk: "take (length pre + length (escape t) + 2) (pre @ dquote # escape t @ dquote # rest) = ?b" by simp
  from byte_text_append [of enc ?b rest] bt have bt': "byte_text enc ?b" by simp
  from parse_quoted_escape [of enc "pre @ [dquote]" t "[]"] bt'
  have "parse_quoted_from enc ?b (Suc (length pre)) [] = Inr t" by simp
  with scan_next_byte [OF bt', of "length pre"] show ?thesis
    by (simp only: parse_double_quoted_string_def tk) simp
qed

lemma scan_unquoted_stop:
  assumes "c \<in> set stop_chars"
  shows "byte_text enc (pre @ w @ c # rest) \<Longrightarrow> list_all (\<lambda>x. x \<notin> set stop_chars) w \<Longrightarrow>
    scan_unquoted_string enc stop_chars (pre @ w @ c # rest) (length pre) = Inr (length pre + length w)"
proof (induction w arbitrary: pre)
  case Nil
  with assms scan_unquoted_step [of enc "pre @ c # rest" "length pre"] show ?case by simp
next
  case (Cons x w)
  from Cons.prems scan_unquoted_step [of enc "pre @ x # w @ c # rest" "length pre" stop_chars]
  have "scan_unquoted_string enc stop_chars (pre @ x # w @ c # rest) (length pre) =
    scan_unquoted_string enc stop_chars (pre @ x # w @ c # rest) (Suc (length pre))" by simp
  with Cons.IH [of "pre @ [x]"] Cons.prems show ?case by simp
qed

end
