(* ===== verification/Pqxx_Composite.thy ===== *)
theory Pqxx_Composite
  imports Pqxx_Quoting
begin

text \<open>
  Composite values in the database client (\<open>pqxx/composite.hxx\<close> and the writer and the field parser
  of \<open>pqxx/internal/array-composite.hxx\<close>).  The output buffer \<open>[begin, end)\<close> is a character list and
  a pointer into it is an offset; a write outside it is an error of the model.  A field that needs
  quoting is first converted into the end of that same buffer and then escaped from there into its
  place, character by character, so the two regions must not meet.
\<close>

section \<open>The output buffer\<close>

definition put :: "string \<Rightarrow> nat \<Rightarrow> char \<Rightarrow> pqxx_error + string" where
  "put mem i c = (if i < length mem then Inr (mem[i := c]) else Inl (write_out_of_bounds i))"

fun copy_to :: "string \<Rightarrow> nat \<Rightarrow> string \<Rightarrow> pqxx_error + string" where
  "copy_to mem i [] = Inr mem"
| "copy_to mem i (c # cs) = and_then (put mem i c) (\<lambda>mem. copy_to mem (Suc i) cs)"

text \<open>The buffer holds \<open>out\<close> at its start, and has \<open>n\<close> places in all.\<close>

definition holds :: "string \<Rightarrow> nat \<Rightarrow> string \<Rightarrow> bool" where
  "holds mem n out \<longleftrightarrow> length mem = n \<and> length out \<le> n \<and> take (length out) mem = out"

lemma put_holds:
  assumes "holds mem n out" and "length out < n"
  obtains mem' where "put mem (length out) c = Inr mem'" "holds mem' n (out @ [c])"
    "drop (Suc (length out)) mem' = drop (Suc (length out)) mem"
  using assms by (auto simp: put_def holds_def take_Suc_conv_app_nth intro!: that)

lemma put_Inr_length: "put mem i c = Inr mem' \<Longrightarrow> length mem' = length mem"
  by (auto simp: put_def split: if_splits)

lemma copy_to_eq:
  "i + length cs \<le> length mem \<Longrightarrow> copy_to mem i cs = Inr (take i mem @ cs @ drop (i + length cs) mem)"
proof (induction cs arbitrary: i mem)
  case (Cons c cs)
  then have "put mem i c = Inr (mem[i := c])" by (simp add: put_def)
  moreover have "copy_to (mem[i := c]) (Suc i) cs =
      Inr (take (Suc i) (mem[i := c]) @ cs @ drop (Suc i + length cs) (mem[i := c]))"
    using Cons.prems by (intro Cons.IH) simp
  moreover have "take (Suc i) (mem[i := c]) = take i mem @ [c]"
    using Cons.prems by (simp add: take_Suc_conv_app_nth)
  ultimately show ?case by simp
qed simp

section \<open>The values written\<close>

text \<open>
  A field or an array element is a \<open>std::string\<close>, a \<open>bool\<close>, or a \<open>std::optional<std::string>\<close> without a value
  (with a value it is written as the string).  Only \<open>bool\<close> is \<open>is_unquoted_safe\<close>.
\<close>

datatype sql_value = Text string | Bool bool | No_text

definition bool_text :: "bool \<Rightarrow> string" where
  "bool_text b = (if b then ''true'' else ''false'')"

text \<open>
  \<open>size_buffer\<close>: of an empty optional it calls \<open>value()\<close>, which throws inside a \<open>noexcept\<close> function.
\<close>

fun size_buffer :: "sql_value \<Rightarrow> pqxx_error + nat" where
  "size_buffer (Text s) = Inr (length s + 1)"
| "size_buffer (Bool b) = Inr 6"
| "size_buffer No_text = Inl terminates"

definition string_into_buf :: "string \<Rightarrow> nat \<Rightarrow> string \<Rightarrow> pqxx_error + (nat \<times> string)" where
  "string_into_buf mem begin value =
     (if length value \<ge> length mem - begin
      then Inl (conversion_overrun ''Could not convert string to string: too long for buffer.'')
      else and_then (copy_to mem begin (value @ [CHR 0x00])) (\<lambda>mem. Inr (begin + length value + 1, mem)))"

text \<open>
  The text that \<open>state_buffer_overrun\<close> appends to the message comes from the compiled part of the
  library and is left out.
\<close>

definition generic_into_buf :: "string \<Rightarrow> nat \<Rightarrow> string \<Rightarrow> string \<Rightarrow> pqxx_error + (nat \<times> string)" where
  "generic_into_buf mem begin name text =
     (let len = length text + 1 in
      if len > length mem - begin then Inl (conversion_overrun (''Not enough buffer space to insert '' @ name @ ''.  ''))
      else and_then (copy_to mem begin (text @ [CHR 0x00])) (\<lambda>mem. Inr (begin + len, mem)))"

text \<open>
  \<open>to_buf\<close> of a string, through \<open>generic_to_buf\<close>: the view is at the start of the region, so its
  length describes it.
\<close>

definition generic_to_buf :: "string \<Rightarrow> nat \<Rightarrow> sql_value \<Rightarrow> pqxx_error + (nat \<times> string)" where
  "generic_to_buf mem begin v =
     (case v of
        Text s \<Rightarrow> and_then (string_into_buf mem begin s) (\<lambda>(stop, mem). Inr (stop - begin - 1, mem))
      | Bool b \<Rightarrow> Inr (length (bool_text b), mem)
      | No_text \<Rightarrow> Inr (0, mem))"

section \<open>Writing\<close>

fun size_composite_field_buffer :: "sql_value \<Rightarrow> pqxx_error + nat" where
  "size_composite_field_buffer (Bool b) = and_then (size_buffer (Bool b)) (\<lambda>n. Inr (n - 1))"
| "size_composite_field_buffer v = and_then (size_buffer v) (\<lambda>n. Inr (1 + 2 * (n - 1) + 1))"

text \<open>
  The escaping loop: \<open>n\<close> characters remain to be read, the next at \<open>rd\<close> in the same buffer, and the
  next write goes to \<open>pos\<close>.
\<close>

fun escape_loop :: "nat \<Rightarrow> nat \<Rightarrow> nat \<Rightarrow> string \<Rightarrow> pqxx_error + (nat \<times> string)" where
  "escape_loop 0 rd pos mem = Inr (pos, mem)"
| "escape_loop (Suc n) rd pos mem =
     (let c = mem ! rd in
      if c = dquote \<or> c = backslash then
        and_then (put mem pos backslash) (\<lambda>mem.
        and_then (put mem (pos + 1) c) (\<lambda>mem. escape_loop n (rd + 1) (pos + 2) mem))
      else and_then (put mem pos c) (\<lambda>mem. escape_loop n (rd + 1) (pos + 1) mem))"

text \<open>
  The quoted branch, from the opening quote on; \<open>budget\<close> is the field's \<open>size_buffer\<close>.  What follows
  the opening quote is the same for the elements of an array.
\<close>

definition write_escaped :: "string \<Rightarrow> nat \<Rightarrow> nat \<Rightarrow> sql_value \<Rightarrow> pqxx_error + (nat \<times> string)" where
  "write_escaped mem pos budget v =
     (if length mem < budget then Inl (write_out_of_bounds 0)
      else and_then (generic_to_buf mem (length mem - budget) v) (\<lambda>(n, mem).
           and_then (escape_loop n (length mem - budget) pos mem) (\<lambda>(pos, mem).
           and_then (put mem pos dquote) (\<lambda>mem. Inr (pos + 1, mem)))))"

definition write_quoted :: "string \<Rightarrow> nat \<Rightarrow> nat \<Rightarrow> sql_value \<Rightarrow> pqxx_error + (nat \<times> string)" where
  "write_quoted mem pos budget v =
     and_then (put mem pos dquote) (\<lambda>mem. write_escaped mem (pos + 1) budget v)"

definition write_composite_field :: "string \<Rightarrow> nat \<Rightarrow> sql_value \<Rightarrow> pqxx_error + (nat \<times> string)" where
  "write_composite_field mem pos v =
     and_then (case v of
         Bool b \<Rightarrow> and_then (generic_into_buf mem pos ''bool'' (bool_text b)) (\<lambda>(p, mem). Inr (p - 1, mem))
       | _ \<Rightarrow> and_then (size_buffer v) (\<lambda>budget. write_quoted mem pos budget v)) (\<lambda>(pos, mem).
     and_then (put mem pos (CHR '','')) (\<lambda>mem. Inr (pos + 1, mem)))"

fun write_composite_fields :: "sql_value list \<Rightarrow> string \<Rightarrow> nat \<Rightarrow> pqxx_error + (nat \<times> string)" where
  "write_composite_fields [] mem pos = Inr (pos, mem)"
| "write_composite_fields (v # vs) mem pos =
     and_then (write_composite_field mem pos v) (\<lambda>(pos, mem). write_composite_fields vs mem pos)"

fun sum_sizes :: "(sql_value \<Rightarrow> pqxx_error + nat) \<Rightarrow> sql_value list \<Rightarrow> pqxx_error + nat" where
  "sum_sizes f [] = Inr 0"
| "sum_sizes f (v # vs) = and_then (f v) (\<lambda>n. and_then (sum_sizes f vs) (\<lambda>m. Inr (n + m)))"

definition composite_size_buffer :: "sql_value list \<Rightarrow> pqxx_error + nat" where
  "composite_size_buffer fields =
     (if fields = [] then Inr 3
      else and_then (sum_sizes size_composite_field_buffer fields) (\<lambda>n. Inr (1 + n + length fields + 1)))"

definition composite_into_buf :: "string \<Rightarrow> sql_value list \<Rightarrow> pqxx_error + (nat \<times> string)" where
  "composite_into_buf mem fields =
     and_then (composite_size_buffer fields) (\<lambda>size.
       if length mem < size
       then Inl (conversion_error ''Buffer space may not be enough to represent composite value.'')
       else if fields = [] then and_then (copy_to mem 0 (''()'' @ [CHR 0x00])) (\<lambda>mem. Inr (3, mem))
       else and_then (put mem 0 (CHR ''('')) (\<lambda>mem.
            and_then (write_composite_fields fields mem 1) (\<lambda>(pos, mem).
            let pos = (if length fields > 1 then pos - 1 else pos) in
            and_then (put mem pos (CHR '')'')) (\<lambda>mem.
            and_then (put mem (pos + 1) (CHR 0x00)) (\<lambda>mem. Inr (pos + 2, mem))))))"

section \<open>What is written\<close>

fun field_text :: "sql_value \<Rightarrow> string" where
  "field_text (Text s) = dquote # escape s @ [dquote]"
| "field_text (Bool b) = bool_text b"
| "field_text No_text = [dquote, dquote]"

lemma drop_eq_later: "drop i a = drop i b \<Longrightarrow> i \<le> j \<Longrightarrow> drop j a = drop j b"
  by (metis drop_drop le_add_diff_inverse2)

lemma escape_loop_spec:
  assumes "holds mem n out" and "rd + k \<le> n" and "length out + k \<le> rd"
  shows "\<exists>mem'. escape_loop k rd (length out) mem = Inr (length (out @ escape (segment mem rd (rd + k))), mem') \<and>
    holds mem' n (out @ escape (segment mem rd (rd + k)))"
  using assms
proof (induction k arbitrary: mem out rd)
  case (Suc k)
  then have rd: "rd < length mem" and len: "length mem = n" and lt: "length out < n" by (simp_all add: holds_def)
  have seg: "segment mem rd (rd + Suc k) = mem ! rd # segment mem (Suc rd) (Suc rd + k)"
    using rd segment_append [of rd "Suc rd" "Suc rd + k" mem] by (simp add: segment_Suc)
  have keep: "segment mem' (Suc rd) (Suc rd + k) = segment mem (Suc rd) (Suc rd + k)"
    if "drop (Suc rd) mem' = drop (Suc rd) mem" for mem'
    using that by (simp add: segment_def)
  show ?case
  proof (cases "mem ! rd = dquote \<or> mem ! rd = backslash")
    case True
    obtain mem1 where m1: "put mem (length out) backslash = Inr mem1" "holds mem1 n (out @ [backslash])"
      "drop (Suc (length out)) mem1 = drop (Suc (length out)) mem"
      by (rule put_holds [OF Suc.prems(1) lt])
    have lt2: "length (out @ [backslash]) < n" using Suc.prems by simp
    obtain mem2 where m2: "put mem1 (length (out @ [backslash])) (mem ! rd) = Inr mem2"
      "holds mem2 n ((out @ [backslash]) @ [mem ! rd])"
      "drop (Suc (length (out @ [backslash]))) mem2 = drop (Suc (length (out @ [backslash]))) mem1"
      by (rule put_holds [OF m1(2) lt2])
    have "drop (Suc rd) mem2 = drop (Suc rd) mem1"
      by (rule drop_eq_later [OF m2(3)]) (use Suc.prems(3) in simp)
    moreover have "drop (Suc rd) mem1 = drop (Suc rd) mem"
      by (rule drop_eq_later [OF m1(3)]) (use Suc.prems(3) in simp)
    ultimately have k: "segment mem2 (Suc rd) (Suc rd + k) = segment mem (Suc rd) (Suc rd + k)"
      by (intro keep) simp
    have "\<exists>mem'. escape_loop k (Suc rd) (length (out @ [backslash, mem ! rd])) mem2 =
        Inr (length ((out @ [backslash, mem ! rd]) @ escape (segment mem2 (Suc rd) (Suc rd + k))), mem') \<and>
      holds mem' n ((out @ [backslash, mem ! rd]) @ escape (segment mem2 (Suc rd) (Suc rd + k)))"
      using Suc.prems m2(2) by (intro Suc.IH) simp_all
    with True m1(1) m2(1) k seg show ?thesis by (auto simp: Let_def)
  next
    case False
    obtain mem1 where m1: "put mem (length out) (mem ! rd) = Inr mem1" "holds mem1 n (out @ [mem ! rd])"
      "drop (Suc (length out)) mem1 = drop (Suc (length out)) mem"
      by (rule put_holds [OF Suc.prems(1) lt])
    have "drop (Suc rd) mem1 = drop (Suc rd) mem"
      by (rule drop_eq_later [OF m1(3)]) (use Suc.prems(3) in simp)
    then have k: "segment mem1 (Suc rd) (Suc rd + k) = segment mem (Suc rd) (Suc rd + k)" by (rule keep)
    have "\<exists>mem'. escape_loop k (Suc rd) (length (out @ [mem ! rd])) mem1 =
        Inr (length ((out @ [mem ! rd]) @ escape (segment mem1 (Suc rd) (Suc rd + k))), mem') \<and>
      holds mem' n ((out @ [mem ! rd]) @ escape (segment mem1 (Suc rd) (Suc rd + k)))"
      using Suc.prems m1(2) by (intro Suc.IH) simp_all
    with False m1(1) k seg show ?thesis by (auto simp: Let_def)
  qed
qed (simp add: segment_def)

lemma copy_to_tail:
  assumes "holds mem n out" and "length out \<le> i" and "i + length cs \<le> n"
  shows "\<exists>mem'. copy_to mem i cs = Inr mem' \<and> holds mem' n out \<and> segment mem' i (i + length cs) = cs"
  using assms by (simp add: copy_to_eq holds_def segment_def)

lemma copy_to_end:
  assumes "holds mem n out" and "length out + length cs \<le> n"
  shows "\<exists>mem'. copy_to mem (length out) cs = Inr mem' \<and> holds mem' n (out @ cs)"
  using assms by (simp add: copy_to_eq holds_def)

lemma holds_prefix: "holds mem n (out @ cs) \<Longrightarrow> holds mem n out"
  by (auto simp: holds_def dest: arg_cong [of _ _ "take (length out)"])

lemma string_to_tail:
  assumes "holds mem n out" and "length out + length s + 1 \<le> n"
  shows "\<exists>mem'. generic_to_buf mem (n - (length s + 1)) (Text s) = Inr (length s, mem') \<and> holds mem' n out \<and>
    segment mem' (n - (length s + 1)) (n - (length s + 1) + length s) = s"
proof -
  have le: "length out \<le> n - (length s + 1)" using assms(2) by linarith
  from copy_to_tail [OF assms(1) le, of "s @ [CHR 0x00]"] assms(2)
  obtain mem' where m: "copy_to mem (n - (length s + 1)) (s @ [CHR 0x00]) = Inr mem'" "holds mem' n out"
    and seg: "segment mem' (n - (length s + 1)) (n - (length s + 1) + length (s @ [CHR 0x00])) = s @ [CHR 0x00]"
    by auto
  from arg_cong [OF seg, of "take (length s)"]
  have "segment mem' (n - (length s + 1)) (n - (length s + 1) + length s) = s" by (simp add: segment_def)
  with m assms show ?thesis by (simp add: generic_to_buf_def string_into_buf_def holds_def)
qed

lemma write_escaped_text:
  assumes h: "holds mem n out" and n: "length out + 2 * length s + 1 \<le> n"
  shows "\<exists>mem'. write_escaped mem (length out) (length s + 1) (Text s) =
      Inr (length (out @ escape s @ [dquote]), mem') \<and> holds mem' n (out @ escape s @ [dquote])"
proof -
  have len1: "length mem = n" using h by (simp add: holds_def)
  obtain mem2 where m2: "generic_to_buf mem (n - (length s + 1)) (Text s) = Inr (length s, mem2)" "holds mem2 n out"
    and seg: "segment mem2 (n - (length s + 1)) (n - (length s + 1) + length s) = s"
    using string_to_tail [OF h, of s] n by auto
  have le: "length out + length s \<le> n - (length s + 1)" using n by simp
  obtain mem3 where m3: "escape_loop (length s) (n - (length s + 1)) (length out) mem2 =
      Inr (length (out @ escape s), mem3)" "holds mem3 n (out @ escape s)"
    using escape_loop_spec [OF m2(2) _ le] n unfolding seg by auto
  have "length (out @ escape s) < n" using n length_escape [of s] by simp
  with m3(2) obtain mem4 where m4: "put mem3 (length (out @ escape s)) dquote = Inr mem4"
      "holds mem4 n ((out @ escape s) @ [dquote])"
    by (rule put_holds)
  have len2: "length mem2 = n" using m2(2) by (simp add: holds_def)
  show ?thesis using m2(1) m3(1) m4 n len1 len2 by (simp add: write_escaped_def)
qed

lemma write_quoted_text:
  assumes h: "holds mem n out" and n: "length out + 2 * length s + 2 \<le> n"
  shows "\<exists>mem'. write_quoted mem (length out) (length s + 1) (Text s) =
      Inr (length (out @ field_text (Text s)), mem') \<and> holds mem' n (out @ field_text (Text s))"
proof -
  have "length out < n" using n by simp
  with h obtain mem1 where m1: "put mem (length out) dquote = Inr mem1" "holds mem1 n (out @ [dquote])"
    by (rule put_holds)
  with write_escaped_text [OF m1(2), of s] n show ?thesis by (simp add: write_quoted_def)
qed

text \<open>The sizes, with the failure of an empty optional apart.\<close>

fun field_size :: "sql_value \<Rightarrow> nat" where
  "field_size (Text s) = 2 * length s + 2"
| "field_size _ = 5"

lemma size_composite_field: "v \<noteq> No_text \<Longrightarrow> size_composite_field_buffer v = Inr (field_size v)"
  by (cases v) simp_all

lemma sum_sizes_fields:
  "No_text \<notin> set vs \<Longrightarrow> sum_sizes size_composite_field_buffer vs = Inr (sum_list (map field_size vs))"
  by (induction vs) (auto simp: size_composite_field)

text \<open>The part of a field's writing before the comma.\<close>

definition write_value :: "string \<Rightarrow> nat \<Rightarrow> sql_value \<Rightarrow> pqxx_error + (nat \<times> string)" where
  "write_value mem pos v =
     (case v of
         Bool b \<Rightarrow> and_then (generic_into_buf mem pos ''bool'' (bool_text b)) (\<lambda>(p, mem). Inr (p - 1, mem))
       | _ \<Rightarrow> and_then (size_buffer v) (\<lambda>budget. write_quoted mem pos budget v))"

lemma write_value_spec:
  assumes h: "holds mem n out" and v: "v \<noteq> No_text" and n: "length out + field_size v + 1 \<le> n"
  shows "\<exists>mem'. write_value mem (length out) v = Inr (length (out @ field_text v), mem') \<and>
    holds mem' n (out @ field_text v)"
proof (cases v)
  case (Text s)
  with write_quoted_text [OF h, of s] n show ?thesis by (auto simp: write_value_def)
next
  case (Bool b)
  have l: "length (bool_text b) \<le> 5" by (simp add: bool_text_def)
  from copy_to_end [OF h, of "bool_text b @ [CHR 0x00]"] n l Bool
  obtain mem' where m: "copy_to mem (length out) (bool_text b @ [CHR 0x00]) = Inr mem'"
    "holds mem' n ((out @ bool_text b) @ [CHR 0x00])" by auto
  with holds_prefix [OF m(2)] Bool n l h show ?thesis
    by (auto simp: write_value_def generic_into_buf_def Let_def holds_def)
next
  case No_text
  with v show ?thesis by simp
qed

lemma length_field_text: "v \<noteq> No_text \<Longrightarrow> length (field_text v) \<le> field_size v"
  using length_escape by (cases v) (auto simp: bool_text_def)

lemma write_composite_field_spec:
  assumes h: "holds mem n out" and v: "v \<noteq> No_text" and n: "length out + field_size v + 1 \<le> n"
  shows "\<exists>mem'. write_composite_field mem (length out) v = Inr (length (out @ field_text v @ '',''), mem') \<and>
    holds mem' n (out @ field_text v @ '','')"
proof -
  from write_value_spec [OF assms] obtain mem1
    where m1: "write_value mem (length out) v = Inr (length (out @ field_text v), mem1)"
      and h1: "holds mem1 n (out @ field_text v)" by blast
  have "length (out @ field_text v) < n" using n length_field_text [OF v] by simp
  with h1 obtain mem2 where "put mem1 (length (out @ field_text v)) (CHR '','') = Inr mem2"
    "holds mem2 n ((out @ field_text v) @ '','')"
    by (rule put_holds)
  with m1 show ?thesis by (simp add: write_composite_field_def write_value_def)
qed

fun fields_text :: "sql_value list \<Rightarrow> string" where
  "fields_text [] = []"
| "fields_text (v # vs) = field_text v @ '','' @ fields_text vs"

lemma write_composite_fields_spec:
  assumes "holds mem n out" and "No_text \<notin> set vs" and "length out + sum_list (map field_size vs) + length vs \<le> n"
  shows "\<exists>mem'. write_composite_fields vs mem (length out) = Inr (length (out @ fields_text vs), mem') \<and>
    holds mem' n (out @ fields_text vs)"
  using assms
proof (induction vs arbitrary: mem out)
  case (Cons v vs)
  from write_composite_field_spec [OF Cons.prems(1), of v] Cons.prems
  obtain mem1 where m1: "write_composite_field mem (length out) v = Inr (length (out @ field_text v @ '',''), mem1)"
    and h1: "holds mem1 n (out @ field_text v @ '','')" by auto
  have "length (field_text v) \<le> field_size v"
    using length_field_text [of v] Cons.prems(2) by auto
  with Cons.IH [OF h1] Cons.prems m1 show ?case by simp
qed simp

text \<open>The comma after the last field is written over when there are several fields, and only then.\<close>

definition composite_text :: "sql_value list \<Rightarrow> string" where
  "composite_text vs = ''('' @ (if length vs > 1 then butlast (fields_text vs) else fields_text vs) @ '')''"

lemma fields_text_last: "vs \<noteq> [] \<Longrightarrow> fields_text vs = butlast (fields_text vs) @ '',''"
proof (induction vs)
  case (Cons v vs)
  then show ?case by (cases vs) (simp_all add: butlast_append)
qed simp

lemma length_fields_text:
  "No_text \<notin> set vs \<Longrightarrow> length (fields_text vs) \<le> sum_list (map field_size vs) + length vs"
proof (induction vs)
  case (Cons v vs)
  with length_field_text [of v] show ?case by auto
qed simp

lemma composite_close:
  assumes "holds mem n out" and "length out + 1 < n"
  obtains mem1 mem2 where "put mem (length out) (CHR '')'') = Inr mem1"
    and "put mem1 (length out + 1) (CHR 0x00) = Inr mem2" and "holds mem2 n (out @ '')'' @ [CHR 0x00])"
proof -
  have "length out < n" using assms(2) by simp
  with assms(1) obtain mem1 where m1: "put mem (length out) (CHR '')'') = Inr mem1" "holds mem1 n (out @ '')'')"
    by (rule put_holds)
  have "length (out @ '')'') < n" using assms(2) by simp
  with m1(2) obtain mem2 where m2: "put mem1 (length (out @ '')'')) (CHR 0x00) = Inr mem2"
    "holds mem2 n ((out @ '')'') @ [CHR 0x00])"
    by (rule put_holds)
  with m1(1) show ?thesis by (intro that) simp_all
qed

lemma composite_into_buf_spec:
  assumes v: "No_text \<notin> set vs" "length vs > 1" and size: "composite_size_buffer vs = Inr budget" "budget \<le> length mem"
  shows "\<exists>mem'. composite_into_buf mem vs = Inr (length (composite_text vs) + 1, mem') \<and>
    holds mem' (length mem) (composite_text vs @ [CHR 0x00])"
proof -
  have n: "1 + sum_list (map field_size vs) + length vs + 1 \<le> length mem"
    using size v sum_sizes_fields [of vs] by (auto simp: composite_size_buffer_def split: if_splits)
  have "holds mem (length mem) []" and "length ([] :: string) < length mem" using n by (auto simp: holds_def)
  then obtain mem1 where m1: "put mem (length ([] :: string)) (CHR ''('') = Inr mem1" "holds mem1 (length mem) ([] @ ''('')"
    by (rule put_holds)
  then obtain mem2 where m2: "write_composite_fields vs mem1 1 = Inr (length (''('' @ fields_text vs), mem2)"
    "holds mem2 (length mem) (''('' @ fields_text vs)"
    using write_composite_fields_spec [of mem1 "length mem" "''(''" vs] v n by auto
  from v(2) have "vs \<noteq> []" by auto
  from fields_text_last [OF this] obtain w where w: "fields_text vs = w @ '',''" by blast
  have "holds mem2 (length mem) (''('' @ w)"
    by (rule holds_prefix [of mem2 _ "''('' @ w" "'',''"]) (use m2(2) in \<open>simp add: w\<close>)
  moreover have "length (''('' @ w) + 1 < length mem" using length_fields_text [OF v(1)] n by (simp add: w)
  ultimately obtain mem3 mem4 where m3: "put mem2 (length (''('' @ w)) (CHR '')'') = Inr mem3"
    "put mem3 (length (''('' @ w) + 1) (CHR 0x00) = Inr mem4" "holds mem4 (length mem) ((''('' @ w) @ '')'' @ [CHR 0x00])"
    by (rule composite_close)
  have "vs \<noteq> []" and "\<not> length mem < budget" using v(2) size(2) by auto
  with m1(1) m2(1) m3 size(1) v(2) show ?thesis
    by (simp add: composite_into_buf_def composite_text_def Let_def w)
qed

section \<open>Parsing\<close>

text \<open>
  What the parser uses of a field's C++ type: its null value if it has one, its name, and the
  conversion from text.  The parsed fields are the values the code assigns to its output
  parameters; the ones assigned before an exception are not modelled.
\<close>

record 'v field_type =
  null_value :: "'v option"
  type_name :: string
  from_string :: "string \<Rightarrow> pqxx_error + 'v"

definition text_type :: "sql_value field_type" where
  "text_type = \<lparr>null_value = None, type_name = ''std::string'', from_string = \<lambda>s. Inr (Text s)\<rparr>"

text \<open>The value of the field, and the position after it.\<close>

definition parse_composite_value ::
    "encoding_group \<Rightarrow> 'v field_type \<Rightarrow> nat \<Rightarrow> string \<Rightarrow> nat \<Rightarrow> pqxx_error + ('v \<times> nat)" where
  "parse_composite_value enc ft index input pos =
     (if input ! pos \<in> set '',)]'' then
        (case null_value ft of
           Some v \<Rightarrow> Inr (v, pos)
         | None \<Rightarrow> Inl (conversion_error (''Can't read composite field '' @ dec index @ '': C++ type '' @
             type_name ft @ '' does not support nulls.'')))
      else if input ! pos = dquote then
        and_then (scan_double_quoted_string enc input pos) (\<lambda>stop.
        and_then (pqxx_assume (stop > pos)) (\<lambda>_.
        and_then (parse_double_quoted_string enc input stop pos) (\<lambda>text.
        and_then (from_string ft text) (\<lambda>v. Inr (v, stop)))))
      else
        and_then (scan_unquoted_string enc '',)]'' input pos) (\<lambda>stop.
        and_then (pqxx_assume (stop \<ge> pos)) (\<lambda>_.
        and_then (from_string ft (segment input pos stop)) (\<lambda>v. Inr (v, stop)))))"

definition parse_composite_field ::
    "encoding_group \<Rightarrow> 'v field_type \<Rightarrow> nat \<Rightarrow> string \<Rightarrow> nat \<Rightarrow> nat \<Rightarrow> pqxx_error + ('v \<times> nat \<times> nat)" where
  "parse_composite_field enc ft index input pos last_field =
     and_then (scan_next enc input pos) (\<lambda>next.
     if next - pos \<noteq> 1 then Inl (conversion_error ''Non-ASCII character in composite-type syntax.'')
     else and_then (parse_composite_value enc ft index input pos) (\<lambda>(v, pos).
     and_then (scan_next enc input pos) (\<lambda>next.
     if next - pos \<noteq> 1 then
       Inl (conversion_error (''Unexpected non-ASCII character after composite field: '' @ input))
     else if index < last_field then
       (if input ! pos \<noteq> CHR '','' then
          Inl (conversion_error (''Found '' @ [CHR 0x27] @ [input ! pos] @ [CHR 0x27] @
            '' in composite value where comma was expected: '' @ c_str input))
        else Inr (v, index + 1, next))
     else if input ! pos = CHR '','' then
       Inl (conversion_error (''Composite value contained more fields than the expected '' @ dec last_field @
         '': '' @ c_str input))
     else if input ! pos \<noteq> CHR '')'' \<and> input ! pos \<noteq> CHR '']'' then
       Inl (conversion_error (''Composite value has unexpected characters where closing parenthesis was expected: '' @ input))
     else if next \<noteq> length input then
       Inl (conversion_error (''Composite value has unexpected text after closing parenthesis: '' @ input))
     else Inr (v, index + 1, next))))"

text \<open>The switch over all encoding groups picks the instance for the group.\<close>

definition specialize_parse_composite_field ::
    "'v field_type \<Rightarrow> encoding_group \<Rightarrow>
     pqxx_error + (nat \<Rightarrow> string \<Rightarrow> nat \<Rightarrow> nat \<Rightarrow> pqxx_error + ('v \<times> nat \<times> nat))" where
  "specialize_parse_composite_field ft enc =
     (if enc \<in> {MONOBYTE, BIG5, EUC_CN, EUC_JP, EUC_KR, EUC_TW, GB18030, GBK, JOHAB, MULE_INTERNAL, SJIS, UHC, UTF8}
      then Inr (parse_composite_field enc ft)
      else Inl (internal_error (''Unexpected encoding group code: '' @ dec (group_code enc) @ ''.'')))"

text \<open>The fold over the fields.\<close>

fun parse_fields :: "encoding_group \<Rightarrow> 'v field_type list \<Rightarrow> nat \<Rightarrow> string \<Rightarrow> nat \<Rightarrow> nat \<Rightarrow> pqxx_error + ('v list \<times> nat)" where
  "parse_fields enc [] index text here last_field = Inr ([], here)"
| "parse_fields enc (ft # fts) index text here last_field =
     and_then (specialize_parse_composite_field ft enc) (\<lambda>parse.
     and_then (parse index text here last_field) (\<lambda>(v, index, here).
     and_then (parse_fields enc fts index text here last_field) (\<lambda>(vs, here). Inr (v # vs, here))))"

definition parse_composite :: "encoding_group \<Rightarrow> 'v field_type list \<Rightarrow> string \<Rightarrow> pqxx_error + 'v list" where
  "parse_composite enc fts text =
     (if text = [] then Inl (conversion_error ''Cannot parse composite value from empty string.'')
      else and_then (glyph_scanner enc text 0) (\<lambda>next.
        if next \<noteq> 1 \<or> text ! 0 \<noteq> CHR ''('' then
          Inl (conversion_error (''Invalid composite value string: '' @ text))
        else and_then (parse_fields enc fts 0 text next (length fts - 1)) (\<lambda>(vs, here).
        if here \<noteq> length text then
          Inl (conversion_error (''Composite value did not end at the closing parenthesis: '' @
            [CHR 0x27] @ text @ [CHR 0x27] @ ''.''))
        else if text ! (here - 1) \<noteq> CHR '')'' then
          Inl (conversion_error (''Composive value did not end in parenthesis: '' @ [CHR 0x27] @ text @ [CHR 0x27]))
        else Inr vs)))"

section \<open>Round trip\<close>

lemma parse_text_field:
  assumes bt: "byte_text enc (pre @ field_text (Text t) @ c # rest)"
    and c: "index < last_field \<and> c = CHR '','' \<or> index = last_field \<and> c = CHR '')'' \<and> rest = []"
  shows "parse_composite_field enc text_type index (pre @ field_text (Text t) @ c # rest) (length pre) last_field =
    Inr (Text t, index + 1, length pre + length (field_text (Text t)) + 1)"
proof -
  let ?b = "pre @ dquote # escape t @ dquote # c # rest"
  have bt: "byte_text enc ?b" using bt by simp
  have nd: "c \<noteq> dquote" using c by (auto simp: dquote_def)
  have at: "?b ! length pre = dquote" and at2: "?b ! (length pre + length (escape t) + 2) = c"
    by (simp_all add: nth_append)
  have dq: "dquote \<notin> set '',)]''" by (simp add: dquote_def)
  have "parse_composite_value enc text_type index ?b (length pre) = Inr (Text t, length pre + length (escape t) + 2)"
    using scan_double_quoted_escape [of "c # rest" enc pre t] parse_double_quoted_escape [of enc pre t "c # rest"] bt nd dq
    by (simp add: parse_composite_value_def text_type_def)
  with scan_next_byte [OF bt, of "length pre"] scan_next_byte [OF bt, of "length pre + length (escape t) + 2"] at2 c
  show ?thesis by (auto simp: parse_composite_field_def)
qed

lemma specialize_parse_composite_field [simp]:
  "specialize_parse_composite_field ft enc = Inr (parse_composite_field enc ft)"
  by (cases enc) (simp_all add: specialize_parse_composite_field_def)

lemma parse_text_fields:
  assumes "ts \<noteq> []" and "byte_text enc (pre @ butlast (fields_text (map Text ts)) @ '')'')" and "index + length ts = last_field + 1"
  shows "parse_fields enc (replicate (length ts) text_type) index (pre @ butlast (fields_text (map Text ts)) @ '')'')
    (length pre) last_field = Inr (map Text ts, length (pre @ butlast (fields_text (map Text ts)) @ '')''))"
  using assms
proof (induction ts arbitrary: pre index)
  case (Cons t ts)
  show ?case
  proof (cases "ts = []")
    case True
    with Cons.prems parse_text_field [of enc pre t "CHR '')''" "[]" index last_field] show ?thesis
      by (simp add: butlast_append)
  next
    case False
    let ?rest = "butlast (fields_text (map Text ts)) @ '')''"
    have "fields_text (map Text ts) \<noteq> []" using False by (cases ts) simp_all
    then have b: "pre @ butlast (fields_text (map Text (t # ts))) @ '')'' = pre @ field_text (Text t) @ CHR '','' # ?rest"
      by (simp add: butlast_append)
    have "parse_composite_field enc text_type index (pre @ field_text (Text t) @ CHR '','' # ?rest) (length pre) last_field =
        Inr (Text t, index + 1, length pre + length (field_text (Text t)) + 1)"
      using Cons.prems False unfolding b by (intro parse_text_field) (auto simp: neq_Nil_conv)
    with Cons.IH [of "pre @ field_text (Text t) @ '',''" "index + 1"] Cons.prems False show ?thesis
      unfolding b by simp
  qed
qed simp

lemma parse_composite_text:
  assumes "length ts > 1" and "byte_text enc (composite_text (map Text ts))"
  shows "parse_composite enc (replicate (length ts) text_type) (composite_text (map Text ts)) = Inr (map Text ts)"
proof -
  let ?b = "''('' @ butlast (fields_text (map Text ts)) @ '')''"
  from assms have b: "composite_text (map Text ts) = ?b" and bt: "byte_text enc ?b" by (simp_all add: composite_text_def)
  have ne: "ts \<noteq> []" using assms(1) by auto
  have "parse_fields enc (replicate (length ts) text_type) 0 ?b 1 (length ts - 1) = Inr (map Text ts, length ?b)"
    using parse_text_fields [OF ne, of enc "''(''" 0 "length ts - 1"] assms(1) bt by simp
  moreover have "glyph_scanner enc ?b 0 = Inr 1" using scan_byte_text [OF bt, of 0] by simp
  ultimately show ?thesis unfolding b parse_composite_def by (simp add: nth_append)
qed

text \<open>
  C22. Writing a composite value of at least two text fields and reading it back gives the fields, when
  the client encoding is a single-byte one, or is any one and the written text is all ASCII (in an
  encoding such as SJIS the second byte of a character may be a backslash or a quote, which the
  writer, working byte by byte, escapes): a
  buffer of \<open>composite_size_buffer\<close> characters is enough for \<open>composite_into_buf\<close> to finish without
  an error and without writing outside the buffer (although it converts each field in the tail of the
  buffer it is writing), and \<open>parse_composite\<close> of the characters before the trailing zero returns
  the fields, whatever quotes, backslashes, commas and parentheses they hold.
\<close>
theorem composite_roundtrip:
  assumes "length ts > 1" and "byte_text enc (composite_text (map Text ts))"
    and "composite_size_buffer (map Text ts) = Inr (length mem)"
  shows "\<exists>len mem'. composite_into_buf mem (map Text ts) = Inr (len, mem') \<and> len \<le> length mem \<and>
    mem' ! (len - 1) = CHR 0x00 \<and>
    parse_composite enc (replicate (length ts) text_type) (take (len - 1) mem') = Inr (map Text ts)"
proof -
  let ?t = "composite_text (map Text ts)"
  have "No_text \<notin> set (map Text ts)" "length (map Text ts) > 1" using assms(1) by auto
  from composite_into_buf_spec [OF this assms(3)] obtain mem'
    where w: "composite_into_buf mem (map Text ts) = Inr (length ?t + 1, mem')"
      and h: "holds mem' (length mem) (?t @ [CHR 0x00])" by auto
  from h have "take (length ?t + 1) mem' = ?t @ [CHR 0x00]" and len: "length ?t + 1 \<le> length mem" "length mem' = length mem"
    by (simp_all add: holds_def)
  then obtain rest where "mem' = ?t @ CHR 0x00 # rest" by (metis append.assoc append_Cons append_Nil append_take_drop_id)
  with w len parse_composite_text [OF assms(1,2)] show ?thesis by simp
qed

lemma composite_roundtrip_witness:
  "\<exists>len mem'. composite_into_buf (replicate 20 CHR ''?'') (map Text [[dquote, CHR ''a''], ''(b,'' @ [backslash]]) = Inr (len, mem') \<and>
    len \<le> 20 \<and> parse_composite UTF8 (replicate 2 text_type) (take (len - 1) mem') =
      Inr (map Text [[dquote, CHR ''a''], ''(b,'' @ [backslash]])"
proof -
  let ?ts = "[[dquote, CHR ''a''], ''(b,'' @ [backslash]]"
  have "byte_text UTF8 (composite_text (map Text ?ts))" by (rule byte_text_small) code_simp+
  moreover have "composite_size_buffer (map Text ?ts) = Inr 20" by code_simp
  ultimately show ?thesis
    using composite_roundtrip [of ?ts UTF8 "replicate 20 CHR ''?''"] by (auto simp: numeral_2_eq_2)
qed

lemma composite_one_text:
  assumes "composite_size_buffer [Text t] = Inr (length mem)"
  obtains mem' where "holds mem' (length mem) (composite_text [Text t])" and
    "composite_into_buf mem [Text t] =
      and_then (put mem' (length (escape t) + 5) (CHR 0x00)) (\<lambda>mem. Inr (length (escape t) + 6, mem))"
proof -
  have n: "length mem = 2 * length t + 5" using assms by (simp add: composite_size_buffer_def)
  have "holds mem (length mem) []" and "length ([] :: string) < length mem" using n by (auto simp: holds_def)
  then obtain mem1 where m1: "put mem (length ([] :: string)) (CHR ''('') = Inr mem1" "holds mem1 (length mem) ([] @ ''('')"
    by (rule put_holds)
  then obtain mem2 where m2: "write_composite_fields [Text t] mem1 1 = Inr (length (''('' @ fields_text [Text t]), mem2)"
    "holds mem2 (length mem) (''('' @ fields_text [Text t])"
    using write_composite_fields_spec [of mem1 "length mem" "''(''" "[Text t]"] n by auto
  have "length (''('' @ fields_text [Text t]) < length mem" using n length_escape [of t] by simp
  with m2(2) obtain mem3 where m3: "put mem2 (length (''('' @ fields_text [Text t])) (CHR '')'') = Inr mem3"
    "holds mem3 (length mem) ((''('' @ fields_text [Text t]) @ '')'')"
    by (rule put_holds)
  show ?thesis
    using m1(1) m2(1) m3 n
    by (intro that [of mem3]) (simp_all add: composite_into_buf_def composite_text_def assms Let_def eval_nat_numeral)
qed

lemma parse_one_text:
  assumes bt: "byte_text enc (composite_text [Text t])"
  shows "parse_composite enc [text_type] (composite_text [Text t]) =
    Inl (conversion_error (''Composite value contained more fields than the expected 0: '' @ c_str (composite_text [Text t])))"
proof -
  let ?b = "''('' @ dquote # escape t @ dquote # '',)''"
  have b: "composite_text [Text t] = ?b" by (simp add: composite_text_def)
  with bt have bt: "byte_text enc ?b" by simp
  have at: "?b ! (length (escape t) + 3) = CHR '',''" by (simp add: nth_append)
  have dq: "dquote \<notin> set '',)]''" by (simp add: dquote_def)
  have "parse_composite_value enc text_type 0 ?b 1 = Inr (Text t, length (escape t) + 3)"
    using scan_double_quoted_escape [of "'',)''" enc "''(''" t] parse_double_quoted_escape [of enc "''(''" t "'',)''"] bt dq
    by (simp add: parse_composite_value_def text_type_def dquote_def)
  moreover have "scan_next enc ?b 1 = Inr 2" and "scan_next enc ?b (length (escape t) + 3) = Inr (length (escape t) + 4)"
    using scan_next_byte [OF bt, of 1] scan_next_byte [OF bt, of "length (escape t) + 3"] by simp_all
  moreover have "dec 0 = ''0''" by code_simp
  ultimately have "parse_composite_field enc text_type 0 ?b 1 0 =
      Inl (conversion_error (''Composite value contained more fields than the expected 0: '' @ c_str ?b))"
    using at by (simp add: parse_composite_field_def)
  with scan_byte_text [OF bt, of 0] show ?thesis by (simp add: b parse_composite_def)
qed

text \<open>
  A composite value of one field is not written correctly.  The comma after the field stays, so
  the text is not one that \<open>parse_composite\<close> reads back (it reports more fields than expected), and
  the text is one character longer than \<open>composite_size_buffer\<close> allows for: in a buffer of that
  size, a field that has nothing but quotes and backslashes (an empty one, for instance) makes
  \<open>composite_into_buf\<close> write its trailing zero past the end.
\<close>
lemma composite_single_field:
  assumes "composite_size_buffer [Text t] = Inr (length mem)" and "byte_text enc (composite_text [Text t])"
  shows "parse_composite enc [text_type] (composite_text [Text t]) =
      Inl (conversion_error (''Composite value contained more fields than the expected 0: '' @ c_str (composite_text [Text t]))) \<and>
    (if length (escape t) = 2 * length t
     then composite_into_buf mem [Text t] = Inl (write_out_of_bounds (length mem))
     else \<exists>mem'. composite_into_buf mem [Text t] = Inr (length (composite_text [Text t]) + 1, mem') \<and>
       take (length (composite_text [Text t])) mem' = composite_text [Text t])"
proof
  show "parse_composite enc [text_type] (composite_text [Text t]) =
      Inl (conversion_error (''Composite value contained more fields than the expected 0: '' @ c_str (composite_text [Text t])))"
    by (rule parse_one_text) (rule assms(2))
  have n: "length mem = 2 * length t + 5" using assms(1) by (simp add: composite_size_buffer_def)
  from composite_one_text [OF assms(1)] obtain mem' where h: "holds mem' (length mem) (composite_text [Text t])" and
    w: "composite_into_buf mem [Text t] =
      and_then (put mem' (length (escape t) + 5) (CHR 0x00)) (\<lambda>mem. Inr (length (escape t) + 6, mem))" .
  have c: "length (composite_text [Text t]) = length (escape t) + 5" by (simp add: composite_text_def)
  show "if length (escape t) = 2 * length t
     then composite_into_buf mem [Text t] = Inl (write_out_of_bounds (length mem))
     else \<exists>mem'. composite_into_buf mem [Text t] = Inr (length (composite_text [Text t]) + 1, mem') \<and>
       take (length (composite_text [Text t])) mem' = composite_text [Text t]"
    using h w c n length_escape [of t] by (auto simp: put_def holds_def)
qed

lemma composite_single_field_witness:
  "composite_into_buf ''abcde'' [Text []] = Inl (write_out_of_bounds 5)"
proof -
  have size: "composite_size_buffer [Text []] = Inr (length ''abcde'')" by code_simp
  have "byte_text UTF8 (composite_text [Text []])" by (rule byte_text_small) code_simp+
  from composite_single_field [OF size this] show ?thesis by simp
qed

end
