(* ===== verification/Pqxx_Range.thy ===== *)
theory Pqxx_Range
  imports Pqxx_Composite
begin

text \<open>
  SQL ranges in the database client (\<open>pqxx/range.hxx\<close>): bounds, ranges and their intersection, and
  their conversion to and from text.  The value type \<open>TYPE\<close> is a type with a linear order, which is
  what the header asks of it; its null test, default value and string conversions are a parameter.
\<close>

section \<open>Bounds\<close>

text \<open>The variant of the three kinds of bound.\<close>

datatype 'a range_bound = No_bound | Inclusive_bound 'a | Exclusive_bound 'a

text \<open>The value type, as ranges use it: \<open>text_of\<close> is what its \<open>into_buf\<close> writes before the trailing zero.\<close>

record 'a value_type =
  null_test :: "'a \<Rightarrow> bool"
  default_value :: 'a
  text_of :: "'a \<Rightarrow> string"
  value_size :: "'a \<Rightarrow> nat"
  value_name :: string
  parse_value :: "string \<Rightarrow> pqxx_error + 'a"

definition inclusive_bound :: "'a value_type \<Rightarrow> 'a \<Rightarrow> pqxx_error + 'a range_bound" where
  "inclusive_bound vt value =
     (if null_test vt value then Inl (argument_error ''Got null value as an inclusive range bound.'')
      else Inr (Inclusive_bound value))"

definition exclusive_bound :: "'a value_type \<Rightarrow> 'a \<Rightarrow> pqxx_error + 'a range_bound" where
  "exclusive_bound vt value =
     (if null_test vt value then Inl (argument_error ''Got null value as an exclusive range bound.'')
      else Inr (Exclusive_bound value))"

fun is_limited :: "'a range_bound \<Rightarrow> bool" where
  "is_limited No_bound = False"
| "is_limited _ = True"

fun is_inclusive :: "'a range_bound \<Rightarrow> bool" where
  "is_inclusive (Inclusive_bound _) = True"
| "is_inclusive _ = False"

fun is_exclusive :: "'a range_bound \<Rightarrow> bool" where
  "is_exclusive (Exclusive_bound _) = True"
| "is_exclusive _ = False"

fun bound_value :: "'a range_bound \<Rightarrow> 'a option" where
  "bound_value No_bound = None"
| "bound_value (Inclusive_bound v) = Some v"
| "bound_value (Exclusive_bound v) = Some v"

fun extends_down_to :: "('a::linorder) range_bound \<Rightarrow> 'a \<Rightarrow> bool" where
  "extends_down_to No_bound v = True"
| "extends_down_to (Inclusive_bound m) v = (\<not> v < m)"
| "extends_down_to (Exclusive_bound m) v = (m < v)"

fun extends_up_to :: "('a::linorder) range_bound \<Rightarrow> 'a \<Rightarrow> bool" where
  "extends_up_to No_bound v = True"
| "extends_up_to (Inclusive_bound m) v = (\<not> m < v)"
| "extends_up_to (Exclusive_bound m) v = (v < m)"

definition bound_eq :: "'a range_bound \<Rightarrow> 'a range_bound \<Rightarrow> bool" where
  "bound_eq a b =
     (if is_limited a
      then is_limited b \<and> is_inclusive a = is_inclusive b \<and> the (bound_value a) = the (bound_value b)
      else \<not> is_limited b)"

text \<open>The code's comparison of bounds is equality of the variants.\<close>

lemma bound_eq_iff: "bound_eq a b \<longleftrightarrow> a = b"
  by (cases a; cases b) (auto simp: bound_eq_def)

section \<open>Ranges\<close>

record 'a range =
  lower_bound :: "'a range_bound"
  upper_bound :: "'a range_bound"

text \<open>
  Both bounds are limited and the upper is below the lower: the test of the constructor and of the
  intersection.
\<close>

definition crossed :: "('a::linorder) range_bound \<Rightarrow> 'a range_bound \<Rightarrow> bool" where
  "crossed lower upper \<longleftrightarrow>
     is_limited lower \<and> is_limited upper \<and> the (bound_value upper) < the (bound_value lower)"

definition make_range :: "('a::linorder) value_type \<Rightarrow> 'a range_bound \<Rightarrow> 'a range_bound \<Rightarrow> pqxx_error + 'a range" where
  "make_range vt lower upper =
     (if crossed lower upper then
        Inl (range_error (''Range's lower bound ('' @ text_of vt (the (bound_value lower)) @
          '') is greater than its upper bound ('' @ text_of vt (the (bound_value upper)) @ '').''))
      else Inr \<lparr>lower_bound = lower, upper_bound = upper\<rparr>)"

definition empty_range :: "'a value_type \<Rightarrow> pqxx_error + 'a range" where
  "empty_range vt =
     and_then (exclusive_bound vt (default_value vt)) (\<lambda>lower.
     and_then (exclusive_bound vt (default_value vt)) (\<lambda>upper.
     Inr \<lparr>lower_bound = lower, upper_bound = upper\<rparr>))"

definition range_empty :: "('a::linorder) range \<Rightarrow> bool" where
  "range_empty r \<longleftrightarrow>
     (is_exclusive (lower_bound r) \<or> is_exclusive (upper_bound r)) \<and>
     is_limited (lower_bound r) \<and> is_limited (upper_bound r) \<and>
     \<not> the (bound_value (lower_bound r)) < the (bound_value (upper_bound r))"

definition range_eq :: "('a::linorder) range \<Rightarrow> 'a range \<Rightarrow> bool" where
  "range_eq a b \<longleftrightarrow>
     bound_eq (lower_bound a) (lower_bound b) \<and> bound_eq (upper_bound a) (upper_bound b) \<or>
     range_empty a \<and> range_empty b"

definition contains :: "('a::linorder) range \<Rightarrow> 'a \<Rightarrow> bool" where
  "contains r value \<longleftrightarrow> extends_down_to (lower_bound r) value \<and> extends_up_to (upper_bound r) value"

definition range_and :: "('a::linorder) value_type \<Rightarrow> 'a range \<Rightarrow> 'a range \<Rightarrow> pqxx_error + 'a range" where
  "range_and vt this other =
     (let lower =
        (if \<not> is_limited (lower_bound this) then lower_bound other
         else if \<not> is_limited (lower_bound other) then lower_bound this
         else if the (bound_value (lower_bound this)) < the (bound_value (lower_bound other)) then lower_bound other
         else if the (bound_value (lower_bound other)) < the (bound_value (lower_bound this)) then lower_bound this
         else if is_exclusive (lower_bound this) then lower_bound this
         else lower_bound other);
       upper =
        (if \<not> is_limited (upper_bound this) then upper_bound other
         else if \<not> is_limited (upper_bound other) then upper_bound this
         else if the (bound_value (upper_bound other)) < the (bound_value (upper_bound this)) then upper_bound other
         else if the (bound_value (upper_bound this)) < the (bound_value (upper_bound other)) then upper_bound this
         else if is_exclusive (upper_bound this) then upper_bound this
         else upper_bound other)
      in if crossed lower upper then empty_range vt else make_range vt lower upper)"

definition contains_range :: "('a::linorder) value_type \<Rightarrow> 'a range \<Rightarrow> 'a range \<Rightarrow> pqxx_error + bool" where
  "contains_range vt this other = and_then (range_and vt this other) (\<lambda>r. Inr (range_eq r other))"

text \<open>Conversion to a range of another value type: \<open>conv\<close> is the implicit conversion of the values.\<close>

definition convert_bound :: "'b value_type \<Rightarrow> ('a \<Rightarrow> 'b) \<Rightarrow> 'a range_bound \<Rightarrow> pqxx_error + 'b range_bound" where
  "convert_bound vt conv b =
     (if is_inclusive b then inclusive_bound vt (conv (the (bound_value b)))
      else if is_exclusive b then exclusive_bound vt (conv (the (bound_value b)))
      else Inr No_bound)"

definition convert_range :: "('b::linorder) value_type \<Rightarrow> ('a \<Rightarrow> 'b) \<Rightarrow> 'a range \<Rightarrow> pqxx_error + 'b range" where
  "convert_range vt conv r =
     and_then (convert_bound vt conv (lower_bound r)) (\<lambda>lower.
     and_then (convert_bound vt conv (upper_bound r)) (\<lambda>upper.
     make_range vt lower upper))"

section \<open>Intersection and containment\<close>

lemma empty_contains: "range_empty r \<Longrightarrow> \<not> contains r v"
  by (cases "lower_bound r"; cases "upper_bound r") (auto simp: range_empty_def contains_def)

lemma range_eq_contains: "range_eq a b \<Longrightarrow> contains a v \<longleftrightarrow> contains b v"
  by (auto simp: range_eq_def bound_eq_iff empty_contains) (simp_all add: contains_def)

lemma crossed_contains: "crossed l u \<Longrightarrow> \<not> (extends_down_to l v \<and> extends_up_to u v)"
  by (cases l; cases u) (auto simp: crossed_def)

lemma empty_range_empty:
  "\<not> null_test vt (default_value vt) \<Longrightarrow> \<exists>r. empty_range vt = Inr r \<and> range_empty r"
  by (simp add: empty_range_def exclusive_bound_def range_empty_def)

lemma lower_meet:
  "extends_down_to (if \<not> is_limited a then b else if \<not> is_limited b then a
      else if the (bound_value a) < the (bound_value b) then b
      else if the (bound_value b) < the (bound_value a) then a
      else if is_exclusive a then a else b) v \<longleftrightarrow> extends_down_to a v \<and> extends_down_to b v"
  by (cases a; cases b) auto

lemma upper_meet:
  "extends_up_to (if \<not> is_limited a then b else if \<not> is_limited b then a
      else if the (bound_value b) < the (bound_value a) then b
      else if the (bound_value a) < the (bound_value b) then a
      else if is_exclusive a then a else b) v \<longleftrightarrow> extends_up_to a v \<and> extends_up_to b v"
  by (cases a; cases b) auto

text \<open>The meet of the bounds crosses exactly when a lower bound of the two ranges lies above an upper one.\<close>

lemma lower_meet_crossed:
  "crossed (if \<not> is_limited a then b else if \<not> is_limited b then a
      else if the (bound_value a) < the (bound_value b) then b
      else if the (bound_value b) < the (bound_value a) then a
      else if is_exclusive a then a else b) u \<longleftrightarrow> crossed a u \<or> crossed b u"
  by (cases a; cases b) (auto simp: crossed_def)

lemma upper_meet_crossed:
  "crossed l (if \<not> is_limited a then b else if \<not> is_limited b then a
      else if the (bound_value b) < the (bound_value a) then b
      else if the (bound_value a) < the (bound_value b) then a
      else if is_exclusive a then a else b) \<longleftrightarrow> crossed l a \<or> crossed l b"
  by (cases a; cases b) (auto simp: crossed_def)

lemma empty_range_null:
  "null_test vt (default_value vt) \<Longrightarrow>
     empty_range vt = Inl (argument_error ''Got null value as an exclusive range bound.'')"
  by (simp add: empty_range_def exclusive_bound_def)

lemma range_and_meet:
  obtains l u where
    "range_and vt a b = (if crossed l u then empty_range vt else make_range vt l u)"
    "\<And>v. extends_down_to l v \<and> extends_up_to u v \<longleftrightarrow> contains a v \<and> contains b v"
    "crossed l u \<longleftrightarrow> (\<exists>x \<in> {a, b}. \<exists>y \<in> {a, b}. crossed (lower_bound x) (upper_bound y))"
proof -
  define l where "l = (if \<not> is_limited (lower_bound a) then lower_bound b else if \<not> is_limited (lower_bound b) then lower_bound a
      else if the (bound_value (lower_bound a)) < the (bound_value (lower_bound b)) then lower_bound b
      else if the (bound_value (lower_bound b)) < the (bound_value (lower_bound a)) then lower_bound a
      else if is_exclusive (lower_bound a) then lower_bound a else lower_bound b)"
  define u where "u = (if \<not> is_limited (upper_bound a) then upper_bound b else if \<not> is_limited (upper_bound b) then upper_bound a
      else if the (bound_value (upper_bound b)) < the (bound_value (upper_bound a)) then upper_bound b
      else if the (bound_value (upper_bound a)) < the (bound_value (upper_bound b)) then upper_bound a
      else if is_exclusive (upper_bound a) then upper_bound a else upper_bound b)"
  have 1: "range_and vt a b = (if crossed l u then empty_range vt else make_range vt l u)"
    unfolding range_and_def l_def u_def Let_def by (rule refl)
  have 2: "extends_down_to l v \<and> extends_up_to u v \<longleftrightarrow> contains a v \<and> contains b v" for v
    unfolding l_def u_def lower_meet upper_meet contains_def by blast
  have 3: "crossed l u \<longleftrightarrow> (\<exists>x \<in> {a, b}. \<exists>y \<in> {a, b}. crossed (lower_bound x) (upper_bound y))"
    unfolding l_def u_def lower_meet_crossed upper_meet_crossed by blast
  from that [OF 1 2 3] show ?thesis .
qed

text \<open>An instance of the value type: unsigned decimal numbers.\<close>

definition parse_dec :: "string \<Rightarrow> pqxx_error + nat" where
  "parse_dec s =
     (if s \<noteq> [] \<and> list_all (\<lambda>c. 48 \<le> byte_of c \<and> byte_of c \<le> 57) s
      then Inr (foldl (\<lambda>n c. 10 * n + (byte_of c - 48)) 0 s)
      else Inl (conversion_error s))"

definition nat_type :: "nat value_type" where
  "nat_type = \<lparr>null_test = \<lambda>_. False, default_value = 0, text_of = dec, value_size = \<lambda>n. length (dec n) + 1,
     value_name = ''unsigned'', parse_value = parse_dec\<rparr>"

text \<open>The same numbers as a type whose default value is null, as a pointer-like type has.\<close>

definition nullable_type :: "nat value_type" where
  "nullable_type = nat_type\<lparr>null_test := \<lambda>n. n = 0\<rparr>"

text \<open>
  C27. The intersection of two ranges.  It fails exactly when a lower bound of the two ranges lies above
  an upper bound of them and the value-initialised value of the type is null: the empty range that
  the code then wants to return cannot be built, and the constructor of its bound throws an
  argument error.  In every other case (for every type whose default value is not null, always) it
  returns a range that contains exactly the values both contain.  \<open>contains\<close> of a range fails in the
  same cases; where it answers, it answers whether the intersection equals the other range, and when
  it says yes, every value of the other range is in the first.
\<close>
theorem range_intersection:
  "case range_and vt a b of
     Inl e \<Rightarrow>
       null_test vt (default_value vt) \<and> (\<exists>x \<in> {a, b}. \<exists>y \<in> {a, b}. crossed (lower_bound x) (upper_bound y)) \<and>
       e = argument_error ''Got null value as an exclusive range bound.'' \<and> contains_range vt a b = Inl e
   | Inr r \<Rightarrow>
       \<not> (null_test vt (default_value vt) \<and> (\<exists>x \<in> {a, b}. \<exists>y \<in> {a, b}. crossed (lower_bound x) (upper_bound y))) \<and>
       (\<forall>v. contains r v \<longleftrightarrow> contains a v \<and> contains b v) \<and>
       contains_range vt a b = Inr (range_eq r b) \<and> (range_eq r b \<longrightarrow> (\<forall>v. contains b v \<longrightarrow> contains a v))"
proof -
  obtain l u where r: "range_and vt a b = (if crossed l u then empty_range vt else make_range vt l u)"
    and lu: "\<And>v. extends_down_to l v \<and> extends_up_to u v \<longleftrightarrow> contains a v \<and> contains b v"
    and c: "crossed l u \<longleftrightarrow> (\<exists>x \<in> {a, b}. \<exists>y \<in> {a, b}. crossed (lower_bound x) (upper_bound y))"
    by (rule range_and_meet [of vt a b]) (rule that)
  show ?thesis
  proof (cases "crossed l u \<and> null_test vt (default_value vt)")
    case True
    with r c show ?thesis by (simp add: empty_range_null contains_range_def)
  next
    case False
    have "\<exists>r. range_and vt a b = Inr r \<and> (\<forall>v. contains r v \<longleftrightarrow> contains a v \<and> contains b v)"
    proof (cases "crossed l u")
      case True
      with False empty_range_empty [of vt] r lu crossed_contains [OF True] empty_contains show ?thesis by fastforce
    next
      case n: False
      with r lu show ?thesis by (simp add: make_range_def contains_def)
    qed
    then obtain r where "range_and vt a b = Inr r" "\<forall>v. contains r v \<longleftrightarrow> contains a v \<and> contains b v" by blast
    with False c range_eq_contains [of r b] show ?thesis by (auto simp: contains_range_def)
  qed
qed

lemma range_intersection_witness:
  "\<exists>r. range_and nat_type \<lparr>lower_bound = Inclusive_bound 3, upper_bound = No_bound\<rparr>
      \<lparr>lower_bound = Exclusive_bound 3, upper_bound = Exclusive_bound 7\<rparr> = Inr r \<and> contains r 4 \<and> \<not> contains r 3 \<and>
    (\<exists>e. range_and nullable_type \<lparr>lower_bound = Inclusive_bound 3, upper_bound = No_bound\<rparr>
      \<lparr>lower_bound = No_bound, upper_bound = Exclusive_bound 2\<rparr> = Inl e)"
proof -
  let ?a = "\<lparr>lower_bound = Inclusive_bound (3::nat), upper_bound = No_bound\<rparr>"
  let ?b = "\<lparr>lower_bound = Exclusive_bound (3::nat), upper_bound = Exclusive_bound 7\<rparr>"
  let ?c = "\<lparr>lower_bound = No_bound, upper_bound = Exclusive_bound (2::nat)\<rparr>"
  have "\<not> null_test nat_type (default_value nat_type)" by (simp add: nat_type_def)
  with range_intersection [of nat_type ?a ?b]
  obtain r where "range_and nat_type ?a ?b = Inr r" "\<forall>v. contains r v \<longleftrightarrow> contains ?a v \<and> contains ?b v"
    by (auto split: sum.splits)
  moreover have "contains ?a 4" "contains ?b 4" "\<not> contains ?b 3" by (simp_all add: contains_def)
  moreover have "null_test nullable_type (default_value nullable_type)" "crossed (lower_bound ?a) (upper_bound ?c)"
    by (simp_all add: nullable_type_def nat_type_def crossed_def)
  with range_intersection [of nullable_type ?a ?c] have "\<exists>e. range_and nullable_type ?a ?c = Inl e"
    by (auto split: sum.splits)
  ultimately show ?thesis by blast
qed

section \<open>Conversion to text\<close>

definition s_overrun :: string where
  "s_overrun = ''Not enough space in buffer for range.''"

definition range_size_buffer :: "('a::linorder) value_type \<Rightarrow> 'a range \<Rightarrow> nat" where
  "range_size_buffer vt r =
     (let lsz = (case bound_value (lower_bound r) of None \<Rightarrow> 0 | Some v \<Rightarrow> value_size vt v - 1);
          usz = (case bound_value (upper_bound r) of None \<Rightarrow> 0 | Some v \<Rightarrow> value_size vt v - 1)
      in if range_empty r then 5 + 1 else 1 + lsz + 1 + usz + 2)"

text \<open>A bound's value, written without its trailing zero; nothing for an unlimited bound.\<close>

definition write_bound :: "'a value_type \<Rightarrow> string \<Rightarrow> nat \<Rightarrow> 'a option \<Rightarrow> pqxx_error + (nat \<times> string)" where
  "write_bound vt mem here b =
     (case b of
        None \<Rightarrow> Inr (here, mem)
      | Some v \<Rightarrow> and_then (generic_into_buf mem here (value_name vt) (text_of vt v)) (\<lambda>(p, mem). Inr (p - 1, mem)))"

definition range_into_buf :: "('a::linorder) value_type \<Rightarrow> string \<Rightarrow> 'a range \<Rightarrow> pqxx_error + (nat \<times> string)" where
  "range_into_buf vt mem r =
     (if range_empty r then
        (if length mem \<le> 5 then Inl (conversion_overrun s_overrun)
         else and_then (copy_to mem 0 ''empty'') (\<lambda>mem.
              and_then (put mem 5 (CHR 0x00)) (\<lambda>mem. Inr (6, mem))))
      else if length mem < 4 then Inl (conversion_overrun s_overrun)
      else
        and_then (put mem 0 (if is_inclusive (lower_bound r) then CHR ''['' else CHR ''('')) (\<lambda>mem.
        and_then (write_bound vt mem 1 (bound_value (lower_bound r))) (\<lambda>(here, mem).
        and_then (put mem here (CHR '','')) (\<lambda>mem.
        and_then (write_bound vt mem (here + 1) (bound_value (upper_bound r))) (\<lambda>(here, mem).
        if length mem - here < 2 then Inl (conversion_overrun s_overrun)
        else
          and_then (put mem here (if is_inclusive (upper_bound r) then CHR '']'' else CHR '')'')) (\<lambda>mem.
          and_then (put mem (here + 1) (CHR 0x00)) (\<lambda>mem. Inr (here + 2, mem))))))))"

definition err_bad_input :: "string \<Rightarrow> pqxx_error" where
  "err_bad_input text = conversion_error (''Invalid range input: '' @ [CHR 0x27] @ text @ [CHR 0x27])"

text \<open>\<open>std::optional<TYPE>\<close> as the type of a field.\<close>

definition optional_value :: "'a value_type \<Rightarrow> 'a option field_type" where
  "optional_value vt = \<lparr>null_value = Some None, type_name = ''std::optional<'' @ value_name vt @ ''>'',
     from_string = \<lambda>s. and_then (parse_value vt s) (\<lambda>v. Inr (Some v))\<rparr>"

definition parsed_bound :: "'a value_type \<Rightarrow> bool \<Rightarrow> 'a option \<Rightarrow> pqxx_error + 'a range_bound" where
  "parsed_bound vt inc b =
     (case b of None \<Rightarrow> Inr No_bound
      | Some v \<Rightarrow> if inc then inclusive_bound vt v else exclusive_bound vt v)"

definition range_from_string :: "('a::linorder) value_type \<Rightarrow> string \<Rightarrow> pqxx_error + 'a range" where
  "range_from_string vt text =
     (if length text < 3 then Inl (err_bad_input text)
      else if text ! 0 = CHR ''e'' \<or> text ! 0 = CHR ''E'' then
        (if length text \<noteq> 5 \<or> text ! 1 \<notin> set ''mM'' \<or> text ! 2 \<notin> set ''pP'' \<or> text ! 3 \<notin> set ''tT'' \<or> text ! 4 \<notin> set ''yY''
         then Inl (err_bad_input text) else empty_range vt)
      else if text ! 0 \<noteq> CHR ''['' \<and> text ! 0 \<noteq> CHR ''('' then Inl (err_bad_input text)
      else
        and_then (specialize_parse_composite_field (optional_value vt) UTF8) (\<lambda>field_parser.
        and_then (field_parser 0 text 1 1) (\<lambda>(lower, index, pos).
        and_then (field_parser index text pos 1) (\<lambda>(upper, index, pos).
        if pos \<noteq> length text then Inl (err_bad_input text)
        else if text ! (pos - 1) \<noteq> CHR '')'' \<and> text ! (pos - 1) \<noteq> CHR '']'' then Inl (err_bad_input text)
        else
          and_then (parsed_bound vt (text ! 0 = CHR ''['') lower) (\<lambda>lower_bound.
          and_then (parsed_bound vt (text ! (pos - 1) = CHR '']'') upper) (\<lambda>upper_bound.
          make_range vt lower_bound upper_bound))))))"

section \<open>Round trip\<close>

definition bound_text :: "'a value_type \<Rightarrow> 'a range_bound \<Rightarrow> string" where
  "bound_text vt b = (case bound_value b of None \<Rightarrow> [] | Some v \<Rightarrow> text_of vt v)"

definition range_text :: "('a::linorder) value_type \<Rightarrow> 'a range \<Rightarrow> string" where
  "range_text vt r =
     (if range_empty r then ''empty''
      else [if is_inclusive (lower_bound r) then CHR ''['' else CHR ''(''] @ bound_text vt (lower_bound r) @ '','' @
        bound_text vt (upper_bound r) @ [if is_inclusive (upper_bound r) then CHR '']'' else CHR '')''])"

text \<open>
  What the round trip needs of a value and the string conversions of its type: it is not null, its
  text reads back as it, fits the size the type gives, is ASCII and needs no quotes.
\<close>

definition plain_value :: "'a value_type \<Rightarrow> 'a \<Rightarrow> bool" where
  "plain_value vt v \<longleftrightarrow> \<not> null_test vt v \<and> parse_value vt (text_of vt v) = Inr v \<and> length (text_of vt v) < value_size vt v \<and>
     text_of vt v \<noteq> [] \<and> list_all (\<lambda>c. ascii c \<and> c \<notin> set (dquote # '',)]'')) (text_of vt v)"

definition plain_bound :: "'a value_type \<Rightarrow> 'a range_bound \<Rightarrow> bool" where
  "plain_bound vt b \<longleftrightarrow> (case bound_value b of None \<Rightarrow> True | Some v \<Rightarrow> plain_value vt v)"

lemma write_bound_spec:
  assumes h: "holds mem n out" and n: "length out + length (bound_text vt b) + 1 \<le> n"
  shows "\<exists>mem'. write_bound vt mem (length out) (bound_value b) = Inr (length (out @ bound_text vt b), mem') \<and>
    holds mem' n (out @ bound_text vt b)"
proof (cases "bound_value b")
  case (Some v)
  with copy_to_end [OF h, of "text_of vt v @ [CHR 0x00]"] n
  obtain mem' where m: "copy_to mem (length out) (text_of vt v @ [CHR 0x00]) = Inr mem'"
    "holds mem' n ((out @ text_of vt v) @ [CHR 0x00])" by (auto simp: bound_text_def)
  with holds_prefix [OF m(2)] Some n h show ?thesis
    by (simp add: write_bound_def bound_text_def generic_into_buf_def Let_def holds_def)
qed (use h in \<open>simp add: write_bound_def bound_text_def\<close>)

lemma put_end:
  "holds mem n out \<Longrightarrow> length out < n \<Longrightarrow> \<exists>mem'. put mem (length out) c = Inr mem' \<and> holds mem' n (out @ [c])"
  by (rule put_holds) blast+

lemma range_into_buf_spec:
  assumes "range_empty r \<or> 4 + length (bound_text vt (lower_bound r)) + length (bound_text vt (upper_bound r)) \<le> length mem"
    and "range_empty r \<Longrightarrow> 6 \<le> length mem"
  shows "\<exists>mem'. range_into_buf vt mem r = Inr (length (range_text vt r) + 1, mem') \<and>
    holds mem' (length mem) (range_text vt r @ [CHR 0x00])"
proof -
  have h: "holds mem (length mem) []" by (simp add: holds_def)
  show ?thesis
  proof (cases "range_empty r")
    case True
    from copy_to_end [OF h, of "''empty''"] assms(2) [OF True] obtain mem1
      where m1: "copy_to mem 0 ''empty'' = Inr mem1" "holds mem1 (length mem) ''empty''" by (auto simp del: copy_to.simps)
    from put_end [OF m1(2), of "CHR 0x00"] assms(2) [OF True] obtain mem2
      where "put mem1 5 (CHR 0x00) = Inr mem2" "holds mem2 (length mem) (''empty'' @ [CHR 0x00])"
      by (auto simp: eval_nat_numeral)
    with m1(1) True assms(2) show ?thesis by (simp add: range_into_buf_def range_text_def del: copy_to.simps)
  next
    case False
    define oc where "oc = (if is_inclusive (lower_bound r) then CHR ''['' else CHR ''('')"
    define cc where "cc = (if is_inclusive (upper_bound r) then CHR '']'' else CHR '')'')"
    let ?l = "bound_text vt (lower_bound r)" and ?u = "bound_text vt (upper_bound r)"
    from False assms(1) have n: "4 + length ?l + length ?u \<le> length mem" by simp
    have "0 < length mem" using n by linarith
    with put_end [OF h, of oc] obtain mem1 where m1: "put mem 0 oc = Inr mem1" "holds mem1 (length mem) [oc]" by auto
    from write_bound_spec [OF m1(2), of vt "lower_bound r"] n obtain mem2
      where m2: "write_bound vt mem1 1 (bound_value (lower_bound r)) = Inr (length (oc # ?l), mem2)" "holds mem2 (length mem) (oc # ?l)" by auto
    from put_end [OF m2(2), of "CHR '',''"] n obtain mem3
      where m3: "put mem2 (length (oc # ?l)) (CHR '','') = Inr mem3" "holds mem3 (length mem) (oc # ?l @ '','')" by auto
    from write_bound_spec [OF m3(2), of vt "upper_bound r"] n obtain mem4
      where m4: "write_bound vt mem3 (length (oc # ?l) + 1) (bound_value (upper_bound r)) = Inr (length (oc # ?l @ '','' @ ?u), mem4)"
        "holds mem4 (length mem) (oc # ?l @ '','' @ ?u)" by auto
    from put_end [OF m4(2), of cc] n obtain mem5
      where m5: "put mem4 (length (oc # ?l @ '','' @ ?u)) cc = Inr mem5" "holds mem5 (length mem) (oc # ?l @ '','' @ ?u @ [cc])" by auto
    from put_end [OF m5(2), of "CHR 0x00"] n obtain mem6
      where m6: "put mem5 (length (oc # ?l @ '','' @ ?u) + 1) (CHR 0x00) = Inr mem6"
        "holds mem6 (length mem) (oc # ?l @ '','' @ ?u @ [cc] @ [CHR 0x00])" by auto
    have "length mem4 = length mem" using m4(2) by (simp add: holds_def)
    with False n m1(1) m2(1) m3(1) m4(1) m5(1) m6 show ?thesis
      by (simp add: range_into_buf_def range_text_def del: copy_to.simps flip: oc_def cc_def)
  qed
qed

lemma parse_bound_field:
  assumes b: "plain_bound vt b" and bt: "byte_text UTF8 (pre @ bound_text vt b @ c # rest)"
    and c: "index < 1 \<and> c = CHR '','' \<or> index = 1 \<and> c \<in> set '')]'' \<and> rest = []"
  shows "parse_composite_field UTF8 (optional_value vt) index (pre @ bound_text vt b @ c # rest) (length pre) 1 =
    Inr (bound_value b, index + 1, length pre + length (bound_text vt b) + 1)"
proof -
  let ?w = "bound_text vt b" and ?b = "pre @ bound_text vt b @ c # rest"
  have c3: "c \<in> set '',)]''" using c by auto
  have val: "parse_composite_value UTF8 (optional_value vt) index ?b (length pre) = Inr (bound_value b, length pre + length ?w)"
  proof (cases "bound_value b")
    case None
    with c3 show ?thesis by (simp add: parse_composite_value_def bound_text_def optional_value_def)
  next
    case (Some v)
    with b have v: "plain_value vt v" and w: "?w = text_of vt v" by (simp_all add: plain_bound_def bound_text_def)
    then obtain x xs where x: "text_of vt v = x # xs" by (cases "text_of vt v") (auto simp: plain_value_def)
    with v have x': "x \<noteq> dquote" "x \<notin> set '',)]''" by (auto simp: plain_value_def)
    have "list_all (\<lambda>x. x \<notin> set '',)]'') ?w" using v w by (auto simp: plain_value_def list_all_iff)
    from scan_unquoted_stop [OF c3 bt this] have "scan_unquoted_string UTF8 '',)]'' ?b (length pre) = Inr (length pre + length ?w)" .
    moreover have "segment ?b (length pre) (length pre + length ?w) = ?w" by (simp add: segment_def)
    moreover have "?b ! length pre = x" using w x by simp
    ultimately show ?thesis
      using v w x' Some by (simp add: parse_composite_value_def optional_value_def plain_value_def)
  qed
  have "scan_next UTF8 ?b (length pre) = Inr (Suc (length pre))"
    using scan_next_byte [OF bt, of "length pre"] by simp
  moreover have "scan_next UTF8 ?b (length pre + length ?w) = Inr (Suc (length pre + length ?w))"
    using scan_next_byte [OF bt, of "length pre + length ?w"] by simp
  moreover have "?b ! (length pre + length ?w) = c" by (simp add: nth_append)
  ultimately show ?thesis using val c by (auto simp: parse_composite_field_def)
qed

lemma bound_text_ascii: "plain_bound vt b \<Longrightarrow> list_all ascii (bound_text vt b)"
  by (auto simp: plain_bound_def bound_text_def plain_value_def list_all_iff split: option.splits)

lemma parsed_bound_back:
  "plain_bound vt b \<Longrightarrow> parsed_bound vt (is_inclusive b) (bound_value b) = Inr b"
  by (cases b) (simp_all add: parsed_bound_def plain_bound_def plain_value_def inclusive_bound_def exclusive_bound_def)

lemma range_from_text:
  assumes r: "\<not> range_empty r" "\<not> crossed (lower_bound r) (upper_bound r)"
    and plain: "plain_bound vt (lower_bound r)" "plain_bound vt (upper_bound r)" and len: "length (range_text vt r) < npos"
  shows "range_from_string vt (range_text vt r) = Inr r"
proof -
  define oc where "oc = (if is_inclusive (lower_bound r) then CHR ''['' else CHR ''('')"
  define cc where "cc = (if is_inclusive (upper_bound r) then CHR '']'' else CHR '')'')"
  let ?l = "bound_text vt (lower_bound r)" and ?u = "bound_text vt (upper_bound r)"
  let ?t = "[oc] @ ?l @ CHR '','' # ?u @ [cc]"
  have t: "range_text vt r = ?t" using r(1) by (simp add: range_text_def oc_def cc_def)
  have "ascii oc" "ascii cc" "ascii (CHR '','')" by (simp_all add: ascii_def byte_of_def oc_def cc_def)
  then have "list_all ascii ?t" using bound_text_ascii plain by auto
  with len t have bt: "byte_text UTF8 ?t" by (simp add: byte_text_def)
  have cc: "cc \<in> set '')]''" by (simp add: cc_def)
  have oc: "oc = CHR ''['' \<longleftrightarrow> is_inclusive (lower_bound r)" "oc = CHR ''('' \<longleftrightarrow> \<not> is_inclusive (lower_bound r)"
    "oc \<noteq> CHR ''e''" "oc \<noteq> CHR ''E''" and cc2: "cc = CHR '']'' \<longleftrightarrow> is_inclusive (upper_bound r)"
    by (simp_all add: oc_def cc_def)
  have 1: "parse_composite_field UTF8 (optional_value vt) 0 ?t 1 1 = Inr (bound_value (lower_bound r), 1, length ?l + 2)"
    using parse_bound_field [OF plain(1), of "[oc]" "CHR '',''" "?u @ [cc]" 0] bt by simp
  have t2: "?t = ([oc] @ ?l @ '','') @ ?u @ [cc]" by simp
  have 2: "parse_composite_field UTF8 (optional_value vt) 1 ?t (length ?l + 2) 1 = Inr (bound_value (upper_bound r), 2, length ?t)"
    using parse_bound_field [OF plain(2), of "[oc] @ ?l @ '',''" cc "[]" 1] bt cc unfolding t2 by simp
  have last: "?t ! (length ?t - 1) = cc" unfolding t2 by (simp add: nth_append)
  have "\<not> length ?t < 3" and first: "?t ! 0 = oc" by simp_all
  moreover have "range_from_string vt t = and_then (parsed_bound vt (is_inclusive (lower_bound r)) (bound_value (lower_bound r))) (\<lambda>lb.
      and_then (parsed_bound vt (is_inclusive (upper_bound r)) (bound_value (upper_bound r))) (make_range vt lb))"
    if t: "\<not> length t < 3" "t ! 0 = oc" "t ! (length t - 1) = cc"
      and f: "parse_composite_field UTF8 (optional_value vt) 0 t 1 1 = Inr (bound_value (lower_bound r), 1, length ?l + 2)"
        "parse_composite_field UTF8 (optional_value vt) 1 t (length ?l + 2) 1 = Inr (bound_value (upper_bound r), 2, length t)" for t
    using t f oc cc cc2 by (auto simp: range_from_string_def)
  ultimately show ?thesis
    using 1 2 last parsed_bound_back [OF plain(1)] parsed_bound_back [OF plain(2)] r(2) unfolding t by (simp add: make_range_def)
qed

text \<open>
  C28. Writing a range and reading the text gives an equal range: a buffer of \<open>size_buffer\<close> characters
  is enough, nothing is written outside it, and \<open>from_string\<close> of the text returns a range that is
  equal to the one written (the very same bounds, unless the range is empty).  This holds for every
  range the constructor accepts under these conditions: its bounds' values are not null, the type's
  own parser reads their texts back as the values and its \<open>size_buffer\<close> has room for them; their
  texts are not empty, ASCII, and free of the characters that would need quotes (a quote, a comma, a
  closing parenthesis or bracket); and if the range is empty, the default value of the type is not
  null (reading the word empty builds a range of two default bounds, which throws for a null).
\<close>
theorem range_roundtrip:
  assumes "make_range vt lower upper = Inr r" and "plain_bound vt lower" and "plain_bound vt upper"
    and "range_empty r \<longrightarrow> \<not> null_test vt (default_value vt)" and "range_size_buffer vt r \<le> length mem" and "length (range_text vt r) < npos"
  shows "\<exists>len mem' r'. range_into_buf vt mem r = Inr (len, mem') \<and> len \<le> length mem \<and> mem' ! (len - 1) = CHR 0x00 \<and>
    range_from_string vt (take (len - 1) mem') = Inr r' \<and> range_eq r' r \<and> (\<not> range_empty r \<longrightarrow> r' = r)"
proof -
  from assms(1) have b: "lower_bound r = lower" "upper_bound r = upper" and nc: "\<not> crossed lower upper"
    by (auto simp: make_range_def split: if_splits)
  have "length (bound_text vt b) \<le> (case bound_value b of None \<Rightarrow> 0 | Some v \<Rightarrow> value_size vt v - 1)" if "plain_bound vt b" for b
    using that by (auto simp: bound_text_def plain_bound_def plain_value_def split: option.splits)
  from this [OF assms(2)] this [OF assms(3)] assms(5) b
  have "range_empty r \<or> 4 + length (bound_text vt (lower_bound r)) + length (bound_text vt (upper_bound r)) \<le> length mem"
    and "range_empty r \<Longrightarrow> 6 \<le> length mem"
    by (auto simp: range_size_buffer_def Let_def split: if_splits)
  from range_into_buf_spec [OF this] obtain mem' where w: "range_into_buf vt mem r = Inr (length (range_text vt r) + 1, mem')"
    and h: "holds mem' (length mem) (range_text vt r @ [CHR 0x00])" by auto
  have "\<exists>r'. range_from_string vt (range_text vt r) = Inr r' \<and> range_eq r' r \<and> (\<not> range_empty r \<longrightarrow> r' = r)"
  proof (cases "range_empty r")
    case True
    with assms(4) have "\<not> null_test vt (default_value vt)" by blast
    from empty_range_empty [OF this] True show ?thesis
      by (auto simp: range_text_def range_from_string_def range_eq_def)
  next
    case False
    with range_from_text [OF False] nc b assms(2,3,6) show ?thesis by (auto simp: range_eq_def bound_eq_iff)
  qed
  moreover from h have "take (length (range_text vt r) + 1) mem' = range_text vt r @ [CHR 0x00]" and l: "length (range_text vt r) + 1 \<le> length mem"
    by (simp_all add: holds_def)
  then obtain rest where "mem' = range_text vt r @ CHR 0x00 # rest"
    by (metis append.assoc append_Cons append_Nil append_take_drop_id)
  ultimately show ?thesis using w l by auto
qed

lemma range_roundtrip_witness:
  "\<exists>len mem'. range_into_buf nat_type (replicate 6 CHR ''?'') \<lparr>lower_bound = Inclusive_bound 3, upper_bound = Exclusive_bound 7\<rparr> =
      Inr (len, mem') \<and>
    range_from_string nat_type (take (len - 1) mem') = Inr \<lparr>lower_bound = Inclusive_bound 3, upper_bound = Exclusive_bound 7\<rparr>"
proof -
  let ?r = "\<lparr>lower_bound = Inclusive_bound 3, upper_bound = Exclusive_bound (7::nat)\<rparr>"
  have m: "make_range nat_type (Inclusive_bound 3) (Exclusive_bound 7) = Inr ?r" by code_simp
  have p: "plain_bound nat_type (Inclusive_bound 3)" "plain_bound nat_type (Exclusive_bound 7)" by code_simp+
  have d: "range_empty ?r \<longrightarrow> \<not> null_test nat_type (default_value nat_type)" by (simp add: nat_type_def)
  have size: "range_size_buffer nat_type ?r = 6" by code_simp
  have "range_text nat_type ?r = ''[3,7)''" by code_simp
  then have len: "length (range_text nat_type ?r) < npos" by (simp add: npos_def)
  have ne: "\<not> range_empty ?r" by code_simp
  from range_roundtrip [OF m p d _ len, of "replicate 6 CHR ''?''"] size ne show ?thesis by auto
qed

end
