(* ===== verification/Pqxx_Util.thy ===== *)
theory Pqxx_Util
  imports Pqxx_Base
begin

text \<open>
  Integer helpers of the database client (\<open>pqxx/util.hxx\<close>): the comparisons of integers of different
  types and the checked cast.  A C++ integer type is its signedness and width; a value of it is an
  integer in its range.
\<close>

record int_type =
  is_signed :: bool
  bits :: nat

definition lowest :: "int_type \<Rightarrow> int" where
  "lowest t = (if is_signed t then - (2 ^ (bits t - 1)) else 0)"

definition highest :: "int_type \<Rightarrow> int" where
  "highest t = (if is_signed t then 2 ^ (bits t - 1) - 1 else 2 ^ bits t - 1)"

definition in_type :: "int_type \<Rightarrow> int \<Rightarrow> bool" where
  "in_type t x \<longleftrightarrow> lowest t \<le> x \<and> x \<le> highest t"

definition size_t :: int_type where
  "size_t = \<lparr>is_signed = False, bits = 64\<rparr>"

section \<open>Comparisons\<close>

text \<open>
  With \<open>have_cmp\<close> (C++20's \<open>std::cmp_less\<close> is there) the comparison is that of the values; without,
  the header's own code is used.  A positive value keeps its value as unsigned.
\<close>

definition cmp_less :: "bool \<Rightarrow> int_type \<Rightarrow> int_type \<Rightarrow> int \<Rightarrow> int \<Rightarrow> bool" where
  "cmp_less have_cmp left right lhs rhs =
     (if have_cmp then lhs < rhs
      else if is_signed left = is_signed right then lhs < rhs
      else if is_signed left then (if lhs \<le> 0 then True else lhs < rhs)
      else (if rhs \<le> 0 then False else lhs < rhs))"

definition cmp_greater :: "bool \<Rightarrow> int_type \<Rightarrow> int_type \<Rightarrow> int \<Rightarrow> int \<Rightarrow> bool" where
  "cmp_greater have_cmp left right lhs rhs = (if have_cmp then lhs > rhs else cmp_less have_cmp right left rhs lhs)"

definition cmp_less_equal :: "bool \<Rightarrow> int_type \<Rightarrow> int_type \<Rightarrow> int \<Rightarrow> int \<Rightarrow> bool" where
  "cmp_less_equal have_cmp left right lhs rhs = (if have_cmp then lhs \<le> rhs else \<not> cmp_less have_cmp right left rhs lhs)"

definition cmp_greater_equal :: "bool \<Rightarrow> int_type \<Rightarrow> int_type \<Rightarrow> int \<Rightarrow> int \<Rightarrow> bool" where
  "cmp_greater_equal have_cmp left right lhs rhs = (if have_cmp then lhs \<ge> rhs else \<not> cmp_less have_cmp left right lhs rhs)"

text \<open>
  The fallback is the comparison of the values, except that a signed zero counts as less than an
  unsigned zero.
\<close>

lemma cmp_less_iff:
  assumes "in_type left lhs" and "in_type right rhs"
  shows "cmp_less have_cmp left right lhs rhs \<longleftrightarrow>
    lhs < rhs \<or> (\<not> have_cmp \<and> is_signed left \<and> \<not> is_signed right \<and> lhs = 0 \<and> rhs = 0)"
  using assms by (auto simp: cmp_less_def in_type_def lowest_def)

lemma cmp_less_agrees:
  "in_type left lhs \<Longrightarrow> in_type right rhs \<Longrightarrow> lhs \<noteq> 0 \<or> rhs \<noteq> 0 \<Longrightarrow> cmp_less have_cmp left right lhs rhs \<longleftrightarrow> lhs < rhs"
  by (auto simp: cmp_less_iff)

section \<open>The checked cast\<close>

definition check_cast :: "bool \<Rightarrow> int_type \<Rightarrow> int_type \<Rightarrow> int \<Rightarrow> string \<Rightarrow> pqxx_error + int" where
  "check_cast have_cmp from to value description =
     (if is_signed from \<and> is_signed to \<and> value < lowest to then
        Inl (range_error (''Cast underflow: '' @ description))
      else if is_signed from \<and> \<not> is_signed to \<and> value < 0 then
        Inl (range_error (''Casting negative value to unsigned type: '' @ description))
      else if highest from > highest to \<and>
          cmp_greater have_cmp from \<lparr>is_signed = False, bits = bits to\<rparr> value (highest to) then
        Inl (range_error (''Cast overflow: '' @ description))
      else Inr value)"

lemma check_cast_Inr:
  assumes "in_type from value" and "bits from > 0" and "bits to > 0"
  shows "check_cast have_cmp from to value d = Inr r \<longleftrightarrow> in_type to value \<and> r = value"
proof -
  let ?u = "\<lparr>is_signed = False, bits = bits to\<rparr>"
  have "(0::int) \<le> 2 ^ (bits to - Suc 0) - 1" by simp
  moreover have "(2::int) ^ (bits to - Suc 0) - 1 < 2 ^ bits to"
    using power_increasing [of "bits to - Suc 0" "bits to" "2::int"] by linarith
  ultimately have hi: "0 \<le> highest to" and u: "in_type ?u (highest to)"
    by (auto simp: highest_def in_type_def lowest_def)
  have "highest to \<noteq> 0 \<or> value \<noteq> 0 \<Longrightarrow> cmp_greater have_cmp from ?u value (highest to) \<longleftrightarrow> value > highest to"
    using cmp_less_agrees [OF u assms(1), of have_cmp] by (auto simp: cmp_greater_def)
  moreover have "cmp_greater have_cmp from ?u 0 0 \<longleftrightarrow> False"
    by (simp add: cmp_greater_def cmp_less_def)
  ultimately have "cmp_greater have_cmp from ?u value (highest to) \<longleftrightarrow> value > highest to" by fastforce
  moreover have "0 \<le> value \<or> is_signed from" using assms(1) by (auto simp: in_type_def lowest_def split: if_splits)
  moreover have "lowest to \<le> 0" and "\<not> is_signed to \<longrightarrow> lowest to = 0" by (simp_all add: lowest_def)
  ultimately show ?thesis using assms(1) unfolding check_cast_def in_type_def by (auto split: if_splits)
qed

end
