(* ===== verification/Pqxx_Array.thy ===== *)
theory Pqxx_Array
  imports Pqxx_Composite Pqxx_Util
begin

text \<open>
  SQL arrays in the database client: the parser and the indexing of \<open>pqxx::array\<close>
  (\<open>pqxx/array.hxx\<close>) and the writer of \<open>pqxx/internal/conversions.hxx\<close>.  The element type is a
  parameter of the parser (\<open>field_type\<close>), the number of dimensions and the separator are those of
  the template.  \<open>assert\<close> is enabled.
\<close>

section \<open>Syntax checks\<close>

definition check_dims :: "nat \<Rightarrow> string \<Rightarrow> pqxx_error + unit" where
  "check_dims dims data =
     (let sz = length data in
      if sz < dims * 2 then
        Inl (conversion_error (''Trying to parse a '' @ dec dims @ ''-dimensional array out of '' @
          [CHR 0x27] @ data @ [CHR 0x27] @ ''.''))
      else if data ! 0 \<noteq> CHR ''{'' then
        Inl (conversion_error (''Malformed array: does not start with '' @ [CHR 0x27] @ ''{'' @ [CHR 0x27] @ ''.''))
      else case find (\<lambda>i. data ! i \<noteq> CHR ''{'') [0..<dims] of
        Some i \<Rightarrow> Inl (conversion_error (''Expecting '' @ dec dims @ ''-dimensional array, but found '' @ dec i @ ''.''))
      | None \<Rightarrow>
          if data ! dims = CHR ''{'' then
            Inl (conversion_error (''Tried to parse '' @ dec dims @
              ''-dimensional array from array data that has more dimensions.''))
          else if find (\<lambda>i. data ! (sz - 1 - i) \<noteq> CHR ''}'') [0..<dims] \<noteq> None then
            Inl (conversion_error (''Malformed array: does not end in the right number of '' @ [CHR 0x27] @ ''}'' @
              [CHR 0x27] @ ''.''))
          else Inr ())"

definition parse_field_end :: "char \<Rightarrow> string \<Rightarrow> nat \<Rightarrow> pqxx_error + nat" where
  "parse_field_end sep data here =
     (if here < length data then
        if data ! here = sep then
          (if here + 1 \<ge> length data then Inl (conversion_error ''Array looks truncated.'')
           else if data ! (here + 1) = sep then Inl (conversion_error ''Array contains double separator.'')
           else if data ! (here + 1) = CHR ''}'' then Inl (conversion_error ''Array contains trailing separator.'')
           else Inr (here + 1))
        else if data ! here = CHR ''}'' then Inr here
        else Inl (conversion_error (''Unexpected character in array: '' @ dec (byte_of (data ! here)) @
          '' where separator or closing brace expected.''))
      else Inr here)"

lemma parse_field_end_le: "parse_field_end sep data here = Inr h \<Longrightarrow> here \<le> h"
  by (auto simp: parse_field_end_def split: if_splits)

definition estimate_elements :: "char \<Rightarrow> string \<Rightarrow> nat" where
  "estimate_elements sep data = count_list data sep + 1"

section \<open>Parsing\<close>

text \<open>
  The local variables of \<open>parse\<close> and the members it sets.  \<open>dim\<close> is a \<open>size_t\<close>: it starts at the
  largest value, the fictional outer dimension, and rolls over from there to 0 and back.
\<close>

record 'v parse_state =
  elts :: "'v list"
  m_extents :: "nat list"
  know_extents_from :: nat
  dim :: nat
  extents :: "nat list"
  pos_here :: nat

definition outer :: nat where
  "outer = npos"

definition roll_up :: "nat \<Rightarrow> nat" where
  "roll_up d = (if d = npos then 0 else d + 1)"

definition roll_down :: "nat \<Rightarrow> nat" where
  "roll_down d = (if d = 0 then npos else d - 1)"

definition open_brace :: "nat \<Rightarrow> 'v parse_state \<Rightarrow> pqxx_error + 'v parse_state" where
  "open_brace dims s =
     and_then (if dim s = outer then
         (if know_extents_from s \<noteq> dims then
            Inl (conversion_error ''Array text representation closed and reopened its outside brace pair.'')
          else if pos_here s \<noteq> 0 then Inl terminates
          else Inr s)
       else if dim s \<ge> dims - 1 then
         Inl (conversion_error ''Array seems to have inconsistent number of dimensions.'')
       else Inr (s\<lparr>extents := (extents s)[dim s := extents s ! dim s + 1]\<rparr>)) (\<lambda>s.
     let d = roll_up (dim s) in
     Inr (s\<lparr>dim := d, extents := (extents s)[d := 0], pos_here := pos_here s + 1\<rparr>))"

definition close_brace :: "char \<Rightarrow> string \<Rightarrow> 'v parse_state \<Rightarrow> pqxx_error + 'v parse_state" where
  "close_brace sep data s =
     (if dim s = outer then
        Inl (conversion_error (''Array has spurious '' @ [CHR 0x27] @ ''}'' @ [CHR 0x27] @ ''.''))
      else and_then (if dim s < know_extents_from s then
          Inr (s\<lparr>m_extents := (m_extents s)[dim s := extents s ! dim s], know_extents_from := dim s\<rparr>)
        else if extents s ! dim s \<noteq> m_extents s ! dim s then
          Inl (conversion_error ''Rows in array have inconsistent sizes.'')
        else Inr s) (\<lambda>s.
      and_then (parse_field_end sep data (pos_here s + 1)) (\<lambda>here.
      Inr (s\<lparr>dim := roll_down (dim s), pos_here := here\<rparr>))))"

text \<open>The value of the element at \<open>here\<close> and the position after it.\<close>

definition parse_element ::
    "encoding_group \<Rightarrow> 'v field_type \<Rightarrow> char \<Rightarrow> string \<Rightarrow> nat \<Rightarrow> pqxx_error + ('v \<times> nat)" where
  "parse_element enc ft sep data here =
     (if data ! here = CHR 0x00 then Inl (conversion_error ''Unexpected zero byte in array.'')
      else if data ! here = CHR '','' then Inl (conversion_error ''Array contains empty field.'')
      else if data ! here = dquote then
        and_then (scan_double_quoted_string enc data here) (\<lambda>stop.
        and_then (parse_double_quoted_string enc data stop here) (\<lambda>buf.
        and_then (from_string ft buf) (\<lambda>v. Inr (v, stop))))
      else
        and_then (scan_unquoted_string enc [sep, CHR ''}''] data here) (\<lambda>stop.
        if segment data here stop = ''NULL'' then
          (case null_value ft of
             Some v \<Rightarrow> Inr (v, stop)
           | None \<Rightarrow> Inl (unexpected_null (''Array contains a null '' @ type_name ft @
               ''.  Consider making it an array of std::optional<'' @ type_name ft @ ''> instead.'')))
        else and_then (from_string ft (segment data here stop)) (\<lambda>v. Inr (v, stop))))"

definition array_element ::
    "encoding_group \<Rightarrow> 'v field_type \<Rightarrow> nat \<Rightarrow> char \<Rightarrow> string \<Rightarrow> 'v parse_state \<Rightarrow> pqxx_error + 'v parse_state" where
  "array_element enc ft dims sep data s =
     (if dim s \<noteq> dims - 1 then
        Inl (conversion_error ''Malformed array: found element where sub-array was expected.'')
      else if dim s = outer then Inl terminates
      else and_then (parse_element enc ft sep data (pos_here s)) (\<lambda>(v, stop).
        and_then (pqxx_assume (stop \<le> length data)) (\<lambda>_.
        and_then (parse_field_end sep data stop) (\<lambda>here.
        Inr (s\<lparr>extents := (extents s)[dim s := extents s ! dim s + 1], elts := elts s @ [v], pos_here := here\<rparr>)))))"

definition parse_step ::
    "encoding_group \<Rightarrow> 'v field_type \<Rightarrow> nat \<Rightarrow> char \<Rightarrow> string \<Rightarrow> 'v parse_state \<Rightarrow> pqxx_error + 'v parse_state" where
  "parse_step enc ft dims sep data s =
     (if data ! pos_here s = CHR ''{'' then open_brace dims s
      else if data ! pos_here s = CHR ''}'' then close_brace sep data s
      else array_element enc ft dims sep data s)"

text \<open>Every step moves on, so the loop ends.\<close>

lemma scan_quoted_from_moves:
  assumes "scan_quoted_from enc b p q = Inr r"
  shows "r = p \<or> p < length b \<and> (\<exists>p' q'. p < p' \<and> scan_quoted_from enc b p' q' = Inr r)"
proof -
  from assms obtain n where n: "scan_next enc b p = Inr n"
    by (simp add: scan_quoted_from.simps [of enc b p q] and_then_Inr) blast
  then have pn: "p < n" by (rule scan_next_Inr)
  have nxt: "\<exists>p' q'. p < p' \<and> scan_quoted_from enc b p' q' = Inr r"
    if "and_then (scan_next enc b n) (\<lambda>m. scan_quoted_from enc b m False) = Inr r"
  proof -
    from that obtain m where "scan_next enc b n = Inr m" "scan_quoted_from enc b m False = Inr r"
      by (auto simp: and_then_Inr)
    with scan_next_Inr [of enc b n m] pn less_trans show ?thesis by blast
  qed
  have here: "\<exists>p' q'. p < p' \<and> scan_quoted_from enc b p' q' = Inr r" if "scan_quoted_from enc b n q1 = Inr r" for q1
    using that pn by blast
  have "r = p \<or> p < length b \<and> (and_then (scan_next enc b n) (\<lambda>m. scan_quoted_from enc b m False) = Inr r \<or>
      scan_quoted_from enc b n False = Inr r \<or> scan_quoted_from enc b n True = Inr r)"
    using assms n by (simp add: scan_quoted_from.simps [of enc b p q] split: if_splits)
  then show ?thesis using nxt here by blast
qed

lemma scan_quoted_from_le: "scan_quoted_from enc b p q = Inr r \<Longrightarrow> p \<le> r"
proof (induction "length b - p" arbitrary: p q rule: less_induct)
  case less
  from scan_quoted_from_moves [OF less.prems] show ?case
  proof
    assume "p < length b \<and> (\<exists>p' q'. p < p' \<and> scan_quoted_from enc b p' q' = Inr r)"
    then obtain p' q' where "p < length b" "p < p'" "scan_quoted_from enc b p' q' = Inr r" by blast
    with less.hyps [of p' q'] show ?thesis by (simp add: diff_less_mono2)
  qed simp
qed

lemma scan_double_quoted_less: "scan_double_quoted_string enc b p = Inr r \<Longrightarrow> p < r"
  using scan_quoted_from_le scan_next_Inr
  by (fastforce simp: scan_double_quoted_string_def and_then_Inr)

lemma scan_unquoted_progress:
  "scan_unquoted_string enc st b p = Inr r \<Longrightarrow> p \<le> r \<and> (r = p \<longrightarrow> p < length b \<longrightarrow> b ! p \<in> set st)"
proof (induction enc st b p rule: scan_unquoted_string.induct)
  case (1 enc st b p)
  from "1.prems" obtain n where n: "scan_next enc b p = Inr n"
    by (subst (asm) scan_unquoted_string.simps) (auto simp: and_then_Inr)
  then have "p < n" by (rule scan_next_Inr)
  with "1.prems" n "1.IH" [OF n] show ?case
    by (subst (asm) scan_unquoted_string.simps) (auto split: if_splits)
qed

lemma parse_element_progress:
  assumes "parse_element enc ft sep data here = Inr (v, stop)" and "here < length data" and "data ! here \<noteq> CHR ''}''"
  shows "here < stop \<or> stop = here \<and> data ! here = sep"
  using assms scan_double_quoted_less [of enc data here] scan_unquoted_progress [of enc "[sep, CHR ''}'']" data here]
  by (fastforce simp: parse_element_def and_then_Inr split: if_splits option.splits)

lemma parse_step_progress:
  assumes "parse_step enc ft dims sep data s = Inr s'" and "pos_here s < length data"
  shows "pos_here s < pos_here s'"
proof -
  consider "data ! pos_here s = CHR ''{''" | "data ! pos_here s = CHR ''}''"
    | "data ! pos_here s \<noteq> CHR ''{''" "data ! pos_here s \<noteq> CHR ''}''" by blast
  then show ?thesis
  proof cases
    case 1
    with assms(1) show ?thesis
      by (auto simp: parse_step_def open_brace_def and_then_Inr Let_def split: if_splits)
  next
    case 2
    with assms(1) show ?thesis
      by (auto simp: parse_step_def close_brace_def and_then_Inr dest!: parse_field_end_le split: if_splits)
  next
    case 3
    with assms(1) obtain v stop h where e: "parse_element enc ft sep data (pos_here s) = Inr (v, stop)"
      and f: "parse_field_end sep data stop = Inr h" and s': "pos_here s' = h"
      by (auto simp: parse_step_def array_element_def and_then_Inr split: if_splits)
    from parse_element_progress [OF e assms(2) 3(2)] show ?thesis
    proof
      assume "pos_here s < stop"
      with parse_field_end_le [OF f] s' show ?thesis by simp
    next
      assume "stop = pos_here s \<and> data ! pos_here s = sep"
      with f s' assms(2) show ?thesis by (auto simp: parse_field_end_def split: if_splits)
    qed
  qed
qed

function parse_loop ::
    "encoding_group \<Rightarrow> 'v field_type \<Rightarrow> nat \<Rightarrow> char \<Rightarrow> string \<Rightarrow> 'v parse_state \<Rightarrow> pqxx_error + 'v parse_state" where
  "parse_loop enc ft dims sep data s =
     (if pos_here s < length data
      then and_then (parse_step enc ft dims sep data s) (\<lambda>s. parse_loop enc ft dims sep data s)
      else Inr s)"
  by pat_completeness auto
termination
  by (relation "measure (\<lambda>(enc, ft, dims, sep, data, s). length data - pos_here s)")
    (auto dest!: parse_step_progress intro!: diff_less_mono2)

declare parse_loop.simps [simp del]

section \<open>Indexing factors and the constructor\<close>

text \<open>\<open>init_factors\<close>: the loop variable runs from the last dimension down to 1; \<open>size_t\<close> arithmetic.\<close>

fun factors_from :: "nat \<Rightarrow> nat \<Rightarrow> nat list \<Rightarrow> nat list \<Rightarrow> nat list" where
  "factors_from 0 factor exts factors = factors"
| "factors_from (Suc d) factor exts factors =
     (let f = factor * exts ! Suc d mod 2 ^ 64 in factors_from d f exts (factors[d := f]))"

definition init_factors :: "nat list \<Rightarrow> nat list" where
  "init_factors exts = factors_from (length exts - 1) 1 exts (replicate (length exts - 1) 0)"

text \<open>
  The array object.  \<open>m_extents\<close> and \<open>m_factors\<close> start out uninitialised; no element of them is read
  before it is written, so their initial value here does not matter.
\<close>

record 'v sql_array =
  m_elts :: "'v list"
  sizes :: "nat list"
  m_factors :: "nat list"

definition start_state :: "nat \<Rightarrow> 'v parse_state" where
  "start_state dims = \<lparr>elts = [], m_extents = replicate dims 0, know_extents_from = dims, dim = outer,
     extents = replicate dims 0, pos_here = 0\<rparr>"

definition parse_array ::
    "encoding_group \<Rightarrow> 'v field_type \<Rightarrow> nat \<Rightarrow> char \<Rightarrow> string \<Rightarrow> pqxx_error + 'v sql_array" where
  "parse_array enc ft dims sep data =
     and_then (check_dims dims data) (\<lambda>_.
     and_then (parse_loop enc ft dims sep data (start_state dims)) (\<lambda>s.
     if dim s \<noteq> outer then Inl (conversion_error ''Malformed array; may be truncated.'')
     else if know_extents_from s \<noteq> 0 then Inl terminates
     else Inr \<lparr>m_elts = elts s, sizes = m_extents s, m_factors = init_factors (m_extents s)\<rparr>))"

section \<open>Indexing\<close>

text \<open>An index is a value of some integer type, which the checked cast turns into a \<open>size_t\<close>.\<close>

type_synonym index = "int_type \<times> int"

definition cast_index :: "bool \<Rightarrow> index \<Rightarrow> pqxx_error + nat" where
  "cast_index have_cmp i =
     and_then (check_cast have_cmp (fst i) size_t (snd i) ''array index'') (\<lambda>v. Inr (nat v))"

fun check_bounds :: "bool \<Rightarrow> nat list \<Rightarrow> index list \<Rightarrow> pqxx_error + unit" where
  "check_bounds hc exts [] = Inr ()"
| "check_bounds hc exts (i # is) =
     and_then (cast_index hc i) (\<lambda>first.
     let dimension = length exts - (length is + 1) in
     if first \<ge> exts ! dimension then
       Inl (range_error (''Array index for dimension '' @ dec dimension @ '' is out of bounds: '' @ dec first @
         '' >= '' @ dec (exts ! dimension)))
     else check_bounds hc exts is)"

fun add_index :: "bool \<Rightarrow> nat \<Rightarrow> nat list \<Rightarrow> index list \<Rightarrow> pqxx_error + nat" where
  "add_index hc dims factors [] = Inr 0"
| "add_index hc dims factors (i # is) =
     and_then (cast_index hc i) (\<lambda>first.
     if is = [] then Inr first
     else and_then (add_index hc dims factors is) (\<lambda>rest.
       Inr ((first * factors ! (dims - (length is + 1)) + rest) mod 2 ^ 64)))"

text \<open>\<open>at\<close>: the bounds are checked before \<open>locate\<close>, which is \<open>noexcept\<close>, casts the indexes again.\<close>

definition at_index :: "bool \<Rightarrow> 'v sql_array \<Rightarrow> index list \<Rightarrow> pqxx_error + 'v" where
  "at_index hc a idx =
     and_then (check_bounds hc (sizes a) idx) (\<lambda>_.
     case add_index hc (length (sizes a)) (m_factors a) idx of
       Inl e \<Rightarrow> Inl terminates
     | Inr i \<Rightarrow> if i < length (m_elts a) then Inr (m_elts a ! i) else Inl std_out_of_range)"

text \<open>The offset of an index in row-major order: the last dimension is contiguous.\<close>

fun row_major :: "nat list \<Rightarrow> nat list \<Rightarrow> nat" where
  "row_major (e # es) (i # is) = i * prod_list es + row_major es is"
| "row_major _ _ = 0"

lemma row_major_less:
  "list_all2 (<) is exts \<Longrightarrow> row_major exts is < prod_list exts"
proof (induction "is" exts rule: list_all2_induct)
  case (Cons i "is" e es)
  then have "Suc i * prod_list es \<le> e * prod_list es" by (intro mult_right_mono) simp_all
  with Cons.IH show ?case by simp
qed simp

lemma row_major_inject:
  "list_all2 (<) is exts \<Longrightarrow> list_all2 (<) js exts \<Longrightarrow> row_major exts is = row_major exts js \<Longrightarrow> is = js"
proof (induction "is" exts arbitrary: js rule: list_all2_induct)
  case (Cons i "is" e es)
  from Cons.prems(1) obtain j js' where js: "js = j # js'" "list_all2 (<) js' es"
    by (cases js) auto
  let ?p = "prod_list es"
  have r: "row_major es is < ?p" "row_major es js' < ?p" using row_major_less Cons.hyps(2) js(2) by blast+
  from Cons.prems(2) js have eq: "i * ?p + row_major es is = j * ?p + row_major es js'" by simp
  have "(i * ?p + row_major es is) div ?p = i" "(j * ?p + row_major es js') div ?p = j" using r by simp_all
  with eq have "i = j" by simp
  with eq Cons.IH [OF js(2)] js show ?case by simp
qed simp

lemma factors_from_spec:
  assumes "d < length exts" and "length factors = length exts - 1" and "factor = prod_list (drop (Suc d) exts)"
    and "prod_list exts < 2 ^ 64" and "0 \<notin> set exts"
    and "\<forall>k. d \<le> k \<and> k < length factors \<longrightarrow> factors ! k = prod_list (drop (Suc k) exts)"
  shows "length (factors_from d factor exts factors) = length factors \<and>
    (\<forall>k < length factors. factors_from d factor exts factors ! k = prod_list (drop (Suc k) exts))"
  using assms
proof (induction d arbitrary: factor factors)
  case (Suc d)
  let ?f = "factor * exts ! Suc d mod 2 ^ 64"
  have "prod_list (drop (Suc d) exts) = exts ! Suc d * factor"
    using Suc.prems(1,3) by (simp add: Cons_nth_drop_Suc [symmetric])
  moreover have "prod_list (drop (Suc d) exts) \<le> prod_list exts"
  proof -
    have "prod_list (take (Suc d) exts) * prod_list (drop (Suc d) exts) = prod_list exts"
      by (simp flip: prod_list.append)
    moreover have "prod_list (take (Suc d) exts) \<noteq> 0"
      using Suc.prems(5) by (auto simp: prod_list_zero_iff dest: in_set_takeD)
    ultimately show ?thesis by (metis le_numeral_extra(4) mult_le_mono1 nat_mult_1 not_less_eq_eq not_less_zero not_one_le_zero gr0I less_one not_less)
  qed
  ultimately have f: "?f = prod_list (drop (Suc d) exts)" using Suc.prems(4) by (simp add: mult.commute)
  have "d < length factors" using Suc.prems(1,2) by simp
  have "length (factors_from d ?f exts (factors[d := ?f])) = length (factors[d := ?f]) \<and>
    (\<forall>k < length (factors[d := ?f]). factors_from d ?f exts (factors[d := ?f]) ! k = prod_list (drop (Suc k) exts))"
  proof (rule Suc.IH)
    show "\<forall>k. d \<le> k \<and> k < length (factors[d := ?f]) \<longrightarrow> (factors[d := ?f]) ! k = prod_list (drop (Suc k) exts)"
      using Suc.prems(6) f by (auto simp: nth_list_update Suc_le_eq)
  qed (use Suc.prems f in simp_all)
  then show ?case by (simp add: Let_def)
qed auto

lemma init_factors:
  assumes "exts \<noteq> []" and "prod_list exts < 2 ^ 64" and "0 \<notin> set exts"
  shows "length (init_factors exts) = length exts - 1 \<and>
    (\<forall>k < length exts - 1. init_factors exts ! k = prod_list (drop (Suc k) exts))"
  using factors_from_spec [of "length exts - 1" exts "replicate (length exts - 1) 0" 1] assms
  by (simp add: init_factors_def)

lemma cast_index_in:
  assumes "in_type t i" and "bits t > 0" and "0 \<le> i" and "nat i < 2 ^ 64"
  shows "cast_index hc (t, i) = Inr (nat i)"
proof -
  have "in_type size_t i" using assms(3,4) by (simp add: in_type_def size_t_def lowest_def highest_def)
  with check_cast_Inr [OF assms(1,2), of size_t hc "''array index''" i] show ?thesis
    by (simp add: cast_index_def size_t_def)
qed

text \<open>Indexes of a proper type, with a value that is within the extent.\<close>

definition good_index :: "index \<Rightarrow> nat \<Rightarrow> bool" where
  "good_index i e \<longleftrightarrow> in_type (fst i) (snd i) \<and> bits (fst i) > 0 \<and> 0 \<le> snd i \<and> nat (snd i) < e \<and> e < 2 ^ 64"

lemma good_index_cast: "good_index i e \<Longrightarrow> cast_index hc i = Inr (nat (snd i))"
  using cast_index_in [of "fst i" "snd i" hc] by (simp add: good_index_def)

lemma good_index_less: "good_index i e \<Longrightarrow> nat (snd i) < e"
  by (simp add: good_index_def)

lemma check_bounds_good:
  "list_all2 good_index is (drop k exts) \<Longrightarrow> check_bounds hc exts is = Inr ()"
proof (induction "is" arbitrary: k)
  case (Cons i "is")
  then obtain e es where d: "drop k exts = e # es" and g: "good_index i e" and r: "list_all2 good_index is es"
    by (auto simp: list_all2_Cons1)
  from d have k: "k < length exts" by (metis drop_all linorder_not_less list.distinct(1))
  with d have "exts ! k = e" and es: "drop (Suc k) exts = es" by (auto simp: Cons_nth_drop_Suc [symmetric])
  moreover have "length exts - (length is + 1) = k"
    using list_all2_lengthD [OF r] es k by auto
  ultimately show ?case
    using good_index_cast [OF g] good_index_less [OF g] Cons.IH [of "Suc k"] r by (simp add: Let_def)
qed simp

lemma add_index_good:
  assumes exts: "exts \<noteq> []" "prod_list exts < 2 ^ 64" "0 \<notin> set exts"
  shows "list_all2 good_index is (drop k exts) \<Longrightarrow>
    add_index hc (length exts) (init_factors exts) is = Inr (row_major (drop k exts) (map (\<lambda>i. nat (snd i)) is))"
proof (induction "is" arbitrary: k)
  case (Cons i "is")
  then obtain e es where d: "drop k exts = e # es" and g: "good_index i e" and r: "list_all2 good_index is es"
    by (auto simp: list_all2_Cons1)
  from d have k: "k < length exts" by (metis drop_all linorder_not_less list.distinct(1))
  with d have es: "drop (Suc k) exts = es" by (auto simp: Cons_nth_drop_Suc [symmetric])
  have len: "length exts - (length is + 1) = k" using list_all2_lengthD [OF r] es k by auto
  show ?case
  proof (cases "is = []")
    case True
    with r good_index_cast [OF g] d show ?thesis by simp
  next
    case False
    then have "k < length exts - 1" using list_all2_lengthD [OF r] es by (cases "is") auto
    with init_factors [OF exts] es have f: "init_factors exts ! k = prod_list es" by simp
    have "list_all2 (<) (map (\<lambda>i. nat (snd i)) (i # is)) (e # es)"
      using g r by (auto simp: good_index_def list_all2_map1 elim: list_all2_mono)
    from row_major_less [OF this] have "nat (snd i) * prod_list es + row_major es (map (\<lambda>i. nat (snd i)) is) < prod_list (drop k exts)"
      by (simp add: d)
    also have "\<dots> \<le> prod_list exts"
    proof -
      have "prod_list (take k exts) * prod_list (drop k exts) = prod_list exts" by (simp flip: prod_list.append)
      moreover have "prod_list (take k exts) \<noteq> 0" using exts(3) by (auto simp: prod_list_zero_iff dest: in_set_takeD)
      ultimately show ?thesis by (metis One_nat_def Suc_leI mult_le_mono1 nat_mult_1 not_gr_zero)
    qed
    finally show ?thesis
      using Cons.IH [of "Suc k"] r es good_index_cast [OF g] False d f len exts(2) by (simp add: less_trans)
  qed
qed (use assms in \<open>auto simp: Cons_nth_drop_Suc [symmetric]\<close>)

text \<open>An index within the bounds reads the element at its row-major offset; distinct indexes differ there.\<close>

lemma at_index_good:
  assumes "sizes a \<noteq> []" and "prod_list (sizes a) < 2 ^ 64" and "m_factors a = init_factors (sizes a)"
    and "length (m_elts a) = prod_list (sizes a)" and "list_all2 good_index idx (sizes a)"
  shows "at_index hc a idx = Inr (m_elts a ! row_major (sizes a) (map (\<lambda>i. nat (snd i)) idx))"
proof -
  have lt: "list_all2 (<) (map (\<lambda>i. nat (snd i)) idx) (sizes a)"
    using assms(5) by (auto simp: good_index_def list_all2_map1 elim: list_all2_mono)
  then have "0 \<notin> set (sizes a)" by (auto simp: list_all2_conv_all_nth in_set_conv_nth)
  with check_bounds_good [of idx 0 "sizes a" hc] add_index_good [of "sizes a" idx 0 hc] row_major_less [OF lt] assms
  show ?thesis by (simp add: at_index_def)
qed

section \<open>Writing an array\<close>

text \<open>
  \<open>safe\<close> says that the element type is \<open>is_unquoted_safe\<close>: the elements are then \<open>Bool\<close>s, otherwise
  \<open>Text\<close>s, or null.  The separator of both types is the comma.
\<close>

fun elt_size :: "bool \<Rightarrow> nat \<Rightarrow> sql_value \<Rightarrow> pqxx_error + nat" where
  "elt_size safe acc v =
     and_then (if v = No_text then Inr 4 else size_buffer v) (\<lambda>n.
     Inr (if safe then acc + n - 1 else acc + 2 * n + 2))"

fun accumulate_sizes :: "bool \<Rightarrow> nat \<Rightarrow> sql_value list \<Rightarrow> pqxx_error + nat" where
  "accumulate_sizes safe acc [] = Inr acc"
| "accumulate_sizes safe acc (v # vs) = and_then (elt_size safe acc v) (\<lambda>acc. accumulate_sizes safe acc vs)"

definition array_size_buffer :: "bool \<Rightarrow> sql_value list \<Rightarrow> pqxx_error + nat" where
  "array_size_buffer safe vs = and_then (accumulate_sizes safe 0 vs) (\<lambda>n. Inr (3 + n))"

definition write_array_element :: "string \<Rightarrow> nat \<Rightarrow> sql_value \<Rightarrow> pqxx_error + (nat \<times> string)" where
  "write_array_element mem here v =
     (case v of
        No_text \<Rightarrow> and_then (copy_to mem here ''NULL'') (\<lambda>mem. Inr (here + 4, mem))
      | Bool b \<Rightarrow> and_then (generic_into_buf mem here ''bool'' (bool_text b)) (\<lambda>(p, mem). Inr (p - 1, mem))
      | Text s \<Rightarrow>
          and_then (put mem here dquote) (\<lambda>mem.
          and_then (size_buffer v) (\<lambda>elt_budget.
          if \<not> elt_budget < length mem - (here + 1) then Inl terminates
          else write_escaped mem (here + 1) elt_budget v)))"

fun write_array_elements :: "sql_value list \<Rightarrow> string \<Rightarrow> nat \<Rightarrow> pqxx_error + (nat \<times> string)" where
  "write_array_elements [] mem here = Inr (here, mem)"
| "write_array_elements (v # vs) mem here =
     and_then (write_array_element mem here v) (\<lambda>(here, mem).
     and_then (put mem here (CHR '','')) (\<lambda>mem. write_array_elements vs mem (here + 1)))"

definition array_into_buf :: "bool \<Rightarrow> string \<Rightarrow> sql_value list \<Rightarrow> pqxx_error + (nat \<times> string)" where
  "array_into_buf safe mem vs =
     and_then (array_size_buffer safe vs) (\<lambda>budget.
     if length mem < budget
     then Inl (conversion_overrun ''Not enough buffer space to convert array to string.'')
     else and_then (put mem 0 (CHR ''{'')) (\<lambda>mem.
          and_then (write_array_elements vs mem 1) (\<lambda>(here, mem).
          let here = (if vs \<noteq> [] then here - 1 else here) in
          and_then (put mem here (CHR ''}'')) (\<lambda>mem.
          and_then (put mem (here + 1) (CHR 0x00)) (\<lambda>mem. Inr (here + 2, mem))))))"

section \<open>What is written for an array of texts\<close>

fun elt_text :: "sql_value \<Rightarrow> string" where
  "elt_text No_text = ''NULL''"
| "elt_text v = field_text v"

fun elts_text :: "sql_value list \<Rightarrow> string" where
  "elts_text [] = []"
| "elts_text [v] = elt_text v"
| "elts_text (v # vs) = elt_text v @ '','' @ elts_text vs"

definition array_text :: "sql_value list \<Rightarrow> string" where
  "array_text vs = ''{'' @ elts_text vs @ ''}''"

fun textual :: "sql_value \<Rightarrow> bool" where
  "textual (Bool b) \<longleftrightarrow> False"
| "textual v \<longleftrightarrow> True"

fun quoted_size :: "sql_value \<Rightarrow> nat" where
  "quoted_size (Text s) = 2 * length s + 4"
| "quoted_size _ = 10"

lemma accumulate_textual:
  "list_all textual vs \<Longrightarrow> accumulate_sizes False acc vs = Inr (acc + sum_list (map quoted_size vs))"
proof (induction vs arbitrary: acc)
  case (Cons v vs)
  then show ?case by (cases v) simp_all
qed simp

lemma length_elt_text: "textual v \<Longrightarrow> length (elt_text v) + 1 < quoted_size v"
  using length_escape by (cases v) (auto simp: less_Suc_eq_le)

lemma write_array_element_spec:
  assumes h: "holds mem n out" and v: "textual v" and n: "length out + quoted_size v + 1 \<le> n"
  shows "\<exists>mem'. write_array_element mem (length out) v = Inr (length (out @ elt_text v), mem') \<and>
    holds mem' n (out @ elt_text v)"
proof (cases v)
  case (Text s)
  have "length out < n" using n by simp
  with h obtain mem1 where m1: "put mem (length out) dquote = Inr mem1" "holds mem1 n (out @ [dquote])"
    by (rule put_holds)
  then have "length mem1 = n" by (simp add: holds_def)
  with write_escaped_text [OF m1(2), of s] n m1(1) Text show ?thesis
    by (simp add: write_array_element_def)
next
  case No_text
  with copy_to_end [OF h, of "''NULL''"] n show ?thesis by (auto simp: write_array_element_def)
qed (use v in simp)

lemma write_array_elements_spec:
  assumes "holds mem n out" and "list_all textual vs" and "length out + sum_list (map quoted_size vs) + 1 \<le> n"
    and "vs \<noteq> []"
  shows "\<exists>mem'. write_array_elements vs mem (length out) = Inr (length (out @ elts_text vs @ '',''), mem') \<and>
    holds mem' n (out @ elts_text vs @ '','')"
  using assms
proof (induction vs arbitrary: mem out)
  case (Cons v vs)
  then obtain mem1 where m1: "write_array_element mem (length out) v = Inr (length (out @ elt_text v), mem1)"
    "holds mem1 n (out @ elt_text v)"
    using write_array_element_spec [of mem n out v] by auto
  have l: "length (elt_text v) + 1 < quoted_size v" using Cons.prems(2) length_elt_text by simp
  then have "length (out @ elt_text v) < n" using Cons.prems(3) by simp
  with m1(2) obtain mem2 where m2: "put mem1 (length (out @ elt_text v)) (CHR '','') = Inr mem2"
    "holds mem2 n ((out @ elt_text v) @ '','')"
    by (rule put_holds)
  show ?case
  proof (cases vs)
    case Nil
    with m1 m2 show ?thesis by simp
  next
    case (Cons w ws)
    with Cons.IH [OF m2(2)] Cons.prems m1 m2 l show ?thesis by simp
  qed
qed simp

lemma array_close:
  assumes "holds mem n out" and "length out + 1 < n"
  shows "\<exists>mem'. and_then (put mem (length out) (CHR ''}'')) (\<lambda>mem. put mem (length out + 1) (CHR 0x00)) = Inr mem' \<and>
    holds mem' n (out @ ''}'' @ [CHR 0x00])"
proof -
  have "length out < n" using assms(2) by simp
  with assms(1) obtain mem1 where m1: "put mem (length out) (CHR ''}'') = Inr mem1" "holds mem1 n (out @ ''}'')"
    by (rule put_holds)
  have "length (out @ ''}'') < n" using assms(2) by simp
  with m1(2) obtain mem2 where "put mem1 (length (out @ ''}'')) (CHR 0x00) = Inr mem2" "holds mem2 n ((out @ ''}'') @ [CHR 0x00])"
    by (rule put_holds)
  with m1(1) show ?thesis by simp
qed

lemma length_elts_text: "list_all textual vs \<Longrightarrow> vs \<noteq> [] \<Longrightarrow> length (elts_text vs) + 1 < sum_list (map quoted_size vs)"
proof (induction vs rule: elts_text.induct)
  case (3 v w ws)
  with length_elt_text [of v] show ?case by auto
qed (use length_elt_text in auto)

lemma array_into_buf_spec:
  assumes v: "list_all textual vs" and budget: "array_size_buffer False vs = Inr budget" "budget \<le> length mem"
  shows "\<exists>mem'. array_into_buf False mem vs = Inr (length (array_text vs) + 1, mem') \<and>
    holds mem' (length mem) (array_text vs @ [CHR 0x00])"
proof -
  have n: "3 + sum_list (map quoted_size vs) \<le> length mem"
    using budget accumulate_textual [OF v, of 0] by (simp add: array_size_buffer_def)
  have "holds mem (length mem) []" and "length ([] :: string) < length mem" using n by (auto simp: holds_def)
  then obtain mem1 where m1: "put mem (length ([] :: string)) (CHR ''{'') = Inr mem1" "holds mem1 (length mem) ([] @ ''{'')"
    by (rule put_holds)
  have "\<exists>mem2 here. write_array_elements vs mem1 1 = Inr (here, mem2) \<and>
      (if vs \<noteq> [] then here - 1 else here) = length (''{'' @ elts_text vs) \<and> holds mem2 (length mem) (''{'' @ elts_text vs)"
  proof (cases "vs = []")
    case True
    with m1 show ?thesis by simp
  next
    case False
    with write_array_elements_spec [of mem1 "length mem" "''{''" vs] v n m1
    obtain mem2 where m2: "write_array_elements vs mem1 1 = Inr (length (''{'' @ elts_text vs @ '',''), mem2)"
      and h: "holds mem2 (length mem) (''{'' @ elts_text vs @ '','')" by auto
    have "holds mem2 (length mem) (''{'' @ elts_text vs)"
      by (rule holds_prefix [of _ _ _ "'',''"]) (use h in simp)
    with m2 False show ?thesis by simp
  qed
  then obtain mem2 here where m2: "write_array_elements vs mem1 1 = Inr (here, mem2)"
    "(if vs \<noteq> [] then here - 1 else here) = length (''{'' @ elts_text vs)" and h2: "holds mem2 (length mem) (''{'' @ elts_text vs)"
    by blast
  have "length (''{'' @ elts_text vs) + 1 < length mem" using length_elts_text [OF v] n by (cases "vs = []") auto
  from array_close [OF h2 this] obtain mem3 where m3:
    "and_then (put mem2 (length (''{'' @ elts_text vs)) (CHR ''}'')) (\<lambda>mem. put mem (length (''{'' @ elts_text vs) + 1) (CHR 0x00)) = Inr mem3"
    "holds mem3 (length mem) ((''{'' @ elts_text vs) @ ''}'' @ [CHR 0x00])" by blast
  have "\<not> length mem < budget" using budget(2) by simp
  with m1(1) m2 m3 budget(1) show ?thesis
    unfolding array_into_buf_def by (auto simp: array_text_def Let_def and_then_Inr)
qed

section \<open>Round trip of arrays of texts\<close>

text \<open>Elements of type \<open>std::optional<std::string>\<close>.\<close>

definition optional_text :: "sql_value field_type" where
  "optional_text = \<lparr>null_value = Some No_text, type_name = ''std::optional<std::string>'', from_string = \<lambda>s. Inr (Text s)\<rparr>"

lemma special_chars [simp]:
  "dquote \<noteq> CHR 0x00" "dquote \<noteq> CHR '',''" "dquote \<noteq> CHR ''}''" "dquote \<noteq> CHR ''{''"
  by (simp_all add: dquote_def)

lemma parse_element_text:
  assumes bt: "byte_text enc (pre @ elt_text v @ c # rest)" and v: "textual v" and c: "c \<in> set '',}''"
  shows "parse_element enc optional_text (CHR '','') (pre @ elt_text v @ c # rest) (length pre) =
    Inr (v, length pre + length (elt_text v))"
proof (cases v)
  case (Text t)
  let ?b = "pre @ dquote # escape t @ dquote # c # rest"
  have bt: "byte_text enc ?b" using bt Text by simp
  have "c \<noteq> dquote" using c special_chars by auto
  then show ?thesis
    using scan_double_quoted_escape [of "c # rest" enc pre t] parse_double_quoted_escape [of enc pre t "c # rest"] bt Text
    by (simp add: parse_element_def optional_text_def)
next
  case No_text
  have n: "CHR ''N'' \<noteq> dquote" by (simp add: dquote_def)
  have "scan_unquoted_string enc '',}'' (pre @ ''NULL'' @ c # rest) (length pre) = Inr (length pre + 4)"
    using scan_unquoted_stop [OF c, of enc pre "''NULL''" rest] bt No_text by simp
  then show ?thesis using No_text n by (simp add: parse_element_def optional_text_def segment_def)
qed (use v in simp)

text \<open>The state inside the only row, with \<open>n\<close> elements read.\<close>

definition in_row :: "sql_value list \<Rightarrow> nat \<Rightarrow> nat \<Rightarrow> sql_value parse_state" where
  "in_row es n p = \<lparr>elts = es, m_extents = [0], know_extents_from = 1, dim = 0, extents = [n], pos_here = p\<rparr>"

lemma parse_loop_close:
  assumes "Suc p = length b" and "b ! p = CHR ''}''"
  shows "parse_loop enc ft 1 sep b (in_row es n p) =
    Inr \<lparr>elts = es, m_extents = [n], know_extents_from = 0, dim = outer, extents = [n], pos_here = Suc p\<rparr>"
  using assms
  by (subst parse_loop.simps)
    (simp add: in_row_def parse_step_def close_brace_def outer_def npos_def roll_down_def parse_field_end_def parse_loop.simps)

lemma array_element_in_row:
  assumes "parse_element enc ft sep b p = Inr (v, stop)" and "stop \<le> length b" and "parse_field_end sep b stop = Inr h"
    and "p < length b" and "b ! p \<noteq> CHR ''{''" and "b ! p \<noteq> CHR ''}''"
  shows "parse_loop enc ft 1 sep b (in_row es n p) = parse_loop enc ft 1 sep b (in_row (es @ [v]) (Suc n) h)"
  using assms
  by (subst parse_loop.simps) (simp add: in_row_def parse_step_def array_element_def outer_def npos_def)

lemma elt_text_start: "textual v \<Longrightarrow> \<exists>c cs. elt_text v = c # cs \<and> c \<notin> set '',{}''"
  using special_chars by (cases v) auto

lemma elts_text_start: "list_all textual vs \<Longrightarrow> vs \<noteq> [] \<Longrightarrow> \<exists>c cs. elts_text vs = c # cs \<and> c \<notin> set '',{}''"
  using elt_text_start by (cases vs rule: elts_text.cases) fastforce+

lemma parse_loop_elements:
  assumes "list_all textual vs" and "vs \<noteq> []" and "byte_text enc (pre @ elts_text vs @ ''}'')"
  shows "parse_loop enc optional_text 1 (CHR '','') (pre @ elts_text vs @ ''}'') (in_row es n (length pre)) =
    Inr \<lparr>elts = es @ vs, m_extents = [n + length vs], know_extents_from = 0, dim = outer, extents = [n + length vs],
      pos_here = length (pre @ elts_text vs @ ''}'')\<rparr>"
  using assms
proof (induction vs arbitrary: pre es n)
  case (Cons v vs)
  from Cons.prems(1) have v: "textual v" by simp
  from elt_text_start [OF v] obtain c cs where c: "elt_text v = c # cs" "c \<notin> set '',{}''" by blast
  show ?case
  proof (cases vs)
    case Nil
    let ?b = "pre @ elt_text v @ ''}''"
    have "parse_loop enc optional_text 1 (CHR '','') ?b (in_row es n (length pre)) =
        parse_loop enc optional_text 1 (CHR '','') ?b (in_row (es @ [v]) (Suc n) (length pre + length (elt_text v)))"
      using parse_element_text [of enc pre v "CHR ''}''" "[]"] Cons.prems Nil c v
      by (intro array_element_in_row [where stop = "length pre + length (elt_text v)"])
        (auto simp: parse_field_end_def nth_append)
    also have "\<dots> = Inr \<lparr>elts = es @ [v], m_extents = [Suc n], know_extents_from = 0, dim = outer, extents = [Suc n],
        pos_here = Suc (length pre + length (elt_text v))\<rparr>"
      by (intro parse_loop_close) (simp_all add: nth_append)
    finally show ?thesis using Nil by simp
  next
    case (Cons w ws)
    with Cons.prems have "list_all textual vs" "vs \<noteq> []" by simp_all
    then obtain d ds where d: "elts_text vs = d # ds" "d \<notin> set '',{}''" using elts_text_start by blast
    let ?b = "pre @ elt_text v @ CHR '','' # elts_text vs @ ''}''"
    have b: "pre @ elts_text (v # vs) @ ''}'' = ?b" using Cons by simp
    have "parse_loop enc optional_text 1 (CHR '','') ?b (in_row es n (length pre)) =
        parse_loop enc optional_text 1 (CHR '','') ?b (in_row (es @ [v]) (Suc n) (length pre + length (elt_text v) + 1))"
      using parse_element_text [of enc pre v "CHR '',''" "elts_text vs @ ''}''"] Cons.prems(3) b c d v
      by (intro array_element_in_row [where stop = "length pre + length (elt_text v)"])
        (auto simp: parse_field_end_def nth_append)
    with Cons.IH [of "pre @ elt_text v @ '',''" "es @ [v]" "Suc n"] Cons.prems Cons b show ?thesis by simp
  qed
qed simp

lemma check_dims_text: "list_all textual vs \<Longrightarrow> check_dims 1 (array_text vs) = Inr ()"
proof (cases "vs = []")
  case True
  then show ?thesis by (simp add: check_dims_def array_text_def)
next
  case False
  assume "list_all textual vs"
  with False obtain c cs where "elts_text vs = c # cs" "c \<notin> set '',{}''" using elts_text_start by blast
  then show ?thesis by (simp add: check_dims_def array_text_def nth_append)
qed

lemma parse_array_text:
  assumes v: "list_all textual vs" and bt: "byte_text enc (array_text vs)"
  shows "parse_array enc optional_text 1 (CHR '','') (array_text vs) =
    Inr \<lparr>m_elts = vs, sizes = [length vs], m_factors = []\<rparr>"
proof -
  have open_b: "parse_loop enc optional_text 1 (CHR '','') (array_text vs) (start_state 1) =
      parse_loop enc optional_text 1 (CHR '','') (array_text vs) (in_row [] 0 1)"
    by (subst parse_loop.simps)
      (simp add: array_text_def start_state_def parse_step_def open_brace_def in_row_def outer_def roll_up_def Let_def)
  have "\<exists>e p. parse_loop enc optional_text 1 (CHR '','') (array_text vs) (in_row [] 0 1) =
      Inr \<lparr>elts = vs, m_extents = [length vs], know_extents_from = 0, dim = outer, extents = e, pos_here = p\<rparr>"
  proof (cases "vs = []")
    case True
    then show ?thesis using parse_loop_close [of 1 "array_text []"] by (simp add: array_text_def)
  next
    case False
    with parse_loop_elements [OF v False, of enc "''{''" "[]" 0] bt show ?thesis by (simp add: array_text_def)
  qed
  with open_b check_dims_text [OF v] show ?thesis
    by (auto simp: parse_array_def init_factors_def)
qed

text \<open>
  Writing an array of optional strings and parsing the text gives the array back: a buffer of
  \<open>array_size_buffer\<close> characters is enough for \<open>array_into_buf\<close> to finish without an error and
  without writing outside the buffer, and the parser returns the same elements in one dimension,
  nulls included, whatever quotes, backslashes, separators and braces the strings hold (a string
  \<open>NULL\<close> is quoted and stays a string).
\<close>
lemma array_roundtrip:
  assumes "list_all textual vs" and "byte_text enc (array_text vs)" and "array_size_buffer False vs = Inr (length mem)"
  shows "\<exists>len mem'. array_into_buf False mem vs = Inr (len, mem') \<and> len \<le> length mem \<and> mem' ! (len - 1) = CHR 0x00 \<and>
    parse_array enc optional_text 1 (CHR '','') (take (len - 1) mem') =
      Inr \<lparr>m_elts = vs, sizes = [length vs], m_factors = []\<rparr>"
proof -
  let ?t = "array_text vs"
  from array_into_buf_spec [OF assms(1,3)] obtain mem'
    where w: "array_into_buf False mem vs = Inr (length ?t + 1, mem')" and h: "holds mem' (length mem) (?t @ [CHR 0x00])" by auto
  from h have "take (length ?t + 1) mem' = ?t @ [CHR 0x00]" and len: "length ?t + 1 \<le> length mem"
    by (simp_all add: holds_def)
  then obtain rest where "mem' = ?t @ CHR 0x00 # rest" by (metis append.assoc append_Cons append_Nil append_take_drop_id)
  with w len parse_array_text [OF assms(1,2)] show ?thesis by simp
qed

lemma array_roundtrip_witness:
  "\<exists>len mem'. array_into_buf False (replicate 33 CHR ''?'') [Text ''NULL'', No_text, Text [dquote, CHR '','']] = Inr (len, mem') \<and>
    parse_array UTF8 optional_text 1 (CHR '','') (take (len - 1) mem') =
      Inr \<lparr>m_elts = [Text ''NULL'', No_text, Text [dquote, CHR '','']], sizes = [Suc (Suc (Suc 0))], m_factors = []\<rparr>"
proof -
  let ?vs = "[Text ''NULL'', No_text, Text [dquote, CHR '','']]"
  have "byte_text UTF8 (array_text ?vs)" by (rule byte_text_small) code_simp+
  moreover have "list_all textual ?vs" by code_simp
  moreover have "array_size_buffer False ?vs = Inr 33" by code_simp
  ultimately show ?thesis
    using array_roundtrip [of ?vs UTF8 "replicate 33 CHR ''?''"] by auto
qed

section \<open>Arrays of unquoted elements\<close>

text \<open>
  For element types that are not quoted, \<open>size_buffer\<close> leaves no room for the separators: it takes
  one character off each element's budget and adds none.
\<close>

lemma copy_to_overflow:
  "i \<le> length mem \<Longrightarrow> length mem < i + length cs \<Longrightarrow> copy_to mem i cs = Inl (write_out_of_bounds (length mem))"
proof (induction cs arbitrary: i mem)
  case (Cons c cs)
  show ?case
  proof (cases "i = length mem")
    case False
    with Cons.prems Cons.IH [of "Suc i" "mem[i := c]"] show ?thesis by (simp add: put_def)
  qed (simp add: put_def)
qed simp

lemma write_nulls:
  "i \<le> length mem \<Longrightarrow>
    (if i + 5 * n \<le> length mem
     then \<exists>mem'. write_array_elements (replicate n No_text) mem i = Inr (i + 5 * n, mem') \<and> length mem' = length mem
     else write_array_elements (replicate n No_text) mem i = Inl (write_out_of_bounds (length mem)))"
proof (induction n arbitrary: i mem)
  case (Suc n)
  show ?case
  proof (cases "i + 4 \<le> length mem")
    case True
    obtain m where c: "copy_to mem i ''NULL'' = Inr m" and l: "length m = length mem"
      using copy_to_eq [of i "''NULL''" mem] True by (simp del: copy_to.simps)
    show ?thesis
    proof (cases "i + 4 = length mem")
      case True
      with c l show ?thesis by (simp add: write_array_element_def put_def del: copy_to.simps)
    next
      case False
      let ?m = "m[i + 4 := CHR '','']"
      have "write_array_elements (replicate (Suc n) No_text) mem i = write_array_elements (replicate n No_text) ?m (i + 5)"
        using True False c l by (simp add: write_array_element_def put_def add.commute [of 5 i] del: copy_to.simps)
      moreover have "i + 5 * Suc n = i + 5 + 5 * n" and "length ?m = length mem"
        using l by simp_all
      moreover have "i + 5 \<le> length ?m" using True False l by simp
      note Suc.IH [OF this]
      ultimately show ?thesis by (simp only:)
    qed
  next
    case False
    with Suc.prems copy_to_overflow [of i mem "''NULL''"] show ?thesis
      by (simp add: write_array_element_def del: copy_to.simps)
  qed
qed simp

lemma accumulate_nulls: "accumulate_sizes True acc (replicate n No_text) = Inr (acc + 3 * n)"
  by (induction n arbitrary: acc) simp_all

text \<open>
  An array of nulls of a type that needs no quotes always overruns a buffer of the size the code
  itself asks for: each null is given three characters and takes five with its separator, and the
  copy of a null is not checked.
\<close>
lemma array_short_buffer:
  assumes "array_size_buffer True (replicate n No_text) = Inr (length mem)" and "n > 0"
  shows "array_into_buf True mem (replicate n No_text) = Inl (write_out_of_bounds (length mem))"
proof -
  have len: "length mem = 3 + 3 * n" using assms(1) by (simp add: array_size_buffer_def accumulate_nulls)
  let ?m = "mem[0 := CHR ''{'']"
  have p: "put mem 0 (CHR ''{'') = Inr ?m" using len by (simp add: put_def)
  have w: "if 1 + 5 * n \<le> length mem
     then \<exists>mem'. write_array_elements (replicate n No_text) ?m 1 = Inr (1 + 5 * n, mem') \<and> length mem' = length mem
     else write_array_elements (replicate n No_text) ?m 1 = Inl (write_out_of_bounds (length mem))"
    using write_nulls [of 1 ?m n] len by (simp cong: if_cong)
  show ?thesis
  proof (cases "n = 1")
    case True
    with w len obtain mem' where "write_array_elements (replicate n No_text) ?m 1 = Inr (6, mem')" "length mem' = 6"
      by auto
    with True p len assms(1) show ?thesis by (simp add: array_into_buf_def put_def)
  next
    case False
    with assms(2) w len have "write_array_elements (replicate n No_text) ?m 1 = Inl (write_out_of_bounds (length mem))" by simp
    with p len assms show ?thesis by (simp add: array_into_buf_def)
  qed
qed

lemma array_short_buffer_witness:
  "array_into_buf True ''123456789'' [No_text, No_text] = Inl (write_out_of_bounds 9)"
proof -
  have "array_size_buffer True (replicate 2 No_text) = Inr (length ''123456789'')" by code_simp
  from array_short_buffer [OF this] show ?thesis by (simp add: numeral_2_eq_2)
qed

text \<open>
  Values run short as well: two times \<open>false\<close> overrun a buffer of that size, and three times cannot be
  written into one at all.
\<close>

lemma array_of_false:
  "array_size_buffer True [Bool False, Bool False] = Inr 13"
  "array_into_buf True (replicate 13 CHR ''?'') [Bool False, Bool False] = Inl (write_out_of_bounds 13)"
  "array_size_buffer True [Bool False, Bool False, Bool False] = Inr 18"
  "array_into_buf True (replicate 18 CHR ''?'') [Bool False, Bool False, Bool False] =
    Inl (conversion_overrun ''Not enough buffer space to insert bool.  '')"
  by code_simp+

end
