(* ===== verification/Pqxx_Array_Shape.thy ===== *)
theory Pqxx_Array_Shape
  imports Pqxx_Array
begin

text \<open>
  The shape of parsed arrays: the invariant of the loop of \<open>array::parse\<close>, from which every array
  that the parser accepts is rectangular, and what \<open>at\<close> reads of it.
\<close>

section \<open>The loop invariant\<close>

text \<open>The number of elements of a complete sub-array whose outermost dimension is \<open>k\<close>.\<close>

definition block :: "nat list \<Rightarrow> nat \<Rightarrow> nat" where
  "block m k = prod_list (drop k m)"

lemma block_Suc: "k < length m \<Longrightarrow> block m k = m ! k * block m (Suc k)"
  by (simp add: block_def Cons_nth_drop_Suc [symmetric])

lemma block_update: "d < k \<Longrightarrow> block (m[d := x]) k = block m k"
  by (simp add: block_def)

lemma block_end [simp]: "length m \<le> k \<Longrightarrow> block m k = 1"
  by (simp add: block_def)

text \<open>
  The elements read so far, as the counters of the dimensions down to the current one tell: in each
  outer dimension the sub-array being read is counted already and not complete.
\<close>

definition read_so_far :: "nat list \<Rightarrow> nat list \<Rightarrow> nat \<Rightarrow> nat" where
  "read_so_far e m d = (\<Sum>j<d. (e ! j - 1) * block m (Suc j)) + e ! d * block m (Suc d)"

definition parse_inv :: "nat \<Rightarrow> 'v parse_state \<Rightarrow> bool" where
  "parse_inv dims s \<longleftrightarrow>
     length (extents s) = dims \<and> length (m_extents s) = dims \<and> know_extents_from s \<le> dims \<and>
     (if dim s = outer
      then know_extents_from s = dims \<and> elts s = [] \<and> pos_here s = 0 \<or>
        know_extents_from s = 0 \<and> length (elts s) = prod_list (m_extents s)
      else dim s < dims \<and> 0 < know_extents_from s \<and>
        (\<forall>j < dim s. 0 < extents s ! j \<and> (Suc j < know_extents_from s \<longrightarrow> extents s ! j = 1)) \<and>
        (Suc (dim s) < know_extents_from s \<longrightarrow> extents s ! dim s = 0) \<and>
        length (elts s) = read_so_far (extents s) (m_extents s) (dim s))"

lemma read_so_far_open:
  assumes "Suc d < length e"
  shows "read_so_far (e[d := e ! d + 1, Suc d := 0]) m (Suc d) = read_so_far e m d"
proof -
  have "(\<Sum>j<d. (e[d := e ! d + 1, Suc d := 0] ! j - 1) * block m (Suc j)) = (\<Sum>j<d. (e ! j - 1) * block m (Suc j))"
    by (rule sum.cong) simp_all
  with assms show ?thesis by (simp add: read_so_far_def)
qed

lemma read_so_far_element:
  assumes "d < length e" and "length m = Suc d"
  shows "read_so_far (e[d := e ! d + 1]) m d = Suc (read_so_far e m d)"
proof -
  have "(\<Sum>j<d. (e[d := e ! d + 1] ! j - 1) * block m (Suc j)) = (\<Sum>j<d. (e ! j - 1) * block m (Suc j))"
    by (rule sum.cong) simp_all
  with assms show ?thesis by (simp add: read_so_far_def)
qed

lemma read_so_far_close:
  assumes "Suc d < length m" and "m ! Suc d = e ! Suc d" and "0 < e ! d"
  shows "read_so_far e m (Suc d) = read_so_far e m d"
proof -
  have "(e ! d - 1) * block m (Suc d) + e ! Suc d * block m (Suc (Suc d)) = e ! d * block m (Suc d)"
    using block_Suc [OF assms(1)] assms(2,3) by (cases "e ! d") simp_all
  then show ?thesis by (simp add: read_so_far_def)
qed

text \<open>Closing the first row of a dimension sets its extent; nothing read so far counts on the old value.\<close>

lemma read_so_far_first:
  assumes "\<forall>j < d. e ! j = 1"
  shows "read_so_far e (m[d := x]) d = read_so_far e m d"
  using assms by (simp add: read_so_far_def block_update)

lemma open_brace_inv:
  assumes "parse_inv dims s" and "0 < dims" and "dims < npos" and "open_brace dims s = Inr s'"
  shows "parse_inv dims s'"
proof (cases "dim s = outer")
  case True
  with assms show ?thesis
    by (auto simp: parse_inv_def open_brace_def outer_def roll_up_def Let_def read_so_far_def split: if_splits)
next
  case False
  with assms have d: "dim s < dims - 1" "dim s \<noteq> npos"
    and s': "s' = s\<lparr>extents := (extents s)[dim s := extents s ! dim s + 1, Suc (dim s) := 0],
      dim := Suc (dim s), pos_here := pos_here s + 1\<rparr>"
    by (auto simp: open_brace_def outer_def roll_up_def Let_def split: if_splits)
  have "length (extents s) = dims" using assms(1) by (simp add: parse_inv_def)
  with d read_so_far_open [of "dim s" "extents s" "m_extents s"] assms(1,3) False show ?thesis
    by (auto simp: parse_inv_def s' outer_def nth_list_update)
qed

lemma close_brace_inv:
  assumes inv: "parse_inv dims s" and lim: "dims < npos" and c: "close_brace sep data s = Inr s'"
  shows "parse_inv dims s'"
proof -
  from c have no: "dim s \<noteq> outer" by (auto simp: close_brace_def)
  let ?d = "dim s" and ?k = "know_extents_from s" and ?e = "extents s"
  from inv no have d: "?d < dims" and k: "0 < ?k" "?k \<le> dims" and le: "length ?e = dims" "length (m_extents s) = dims"
    and outerdims: "\<forall>j < ?d. 0 < ?e ! j \<and> (Suc j < ?k \<longrightarrow> ?e ! j = 1)"
    and n: "length (elts s) = read_so_far ?e (m_extents s) ?d"
    by (simp_all add: parse_inv_def)
  obtain m k' h where s': "s' = s\<lparr>m_extents := m, know_extents_from := k', dim := roll_down ?d, pos_here := h\<rparr>"
    and m: "?d < ?k \<and> m = (m_extents s)[?d := ?e ! ?d] \<and> k' = ?d \<or> ?k \<le> ?d \<and> m = m_extents s \<and> m ! ?d = ?e ! ?d \<and> k' = ?k"
  proof -
    from c no obtain s1 h where 1: "(if ?d < ?k
        then Inr (s\<lparr>m_extents := (m_extents s)[?d := ?e ! ?d], know_extents_from := ?d\<rparr>)
        else if ?e ! ?d \<noteq> m_extents s ! ?d then Inl (conversion_error ''Rows in array have inconsistent sizes.'')
        else Inr s) = Inr s1" and 2: "s' = s1\<lparr>dim := roll_down (dim s1), pos_here := h\<rparr>"
      by (auto simp: close_brace_def and_then_Inr)
    show ?thesis
    proof (cases "?d < ?k")
      case True
      with 1 2 show ?thesis by (intro that [where m = "(m_extents s)[?d := ?e ! ?d]" and k' = ?d and h = h]) auto
    next
      case False
      with 1 2 show ?thesis by (intro that [where m = "m_extents s" and k' = ?k and h = h]) (auto split: if_splits)
    qed
  qed
  have md: "m ! ?d = ?e ! ?d" and lm: "length m = dims" and k': "k' \<le> ?d" "k' \<le> ?k"
    using m d le by auto
  have n': "length (elts s) = read_so_far ?e m ?d"
    using m outerdims n read_so_far_first [of ?d ?e "m_extents s" "?e ! ?d"] by auto
  show ?thesis
  proof (cases ?d)
    case 0
    with k' md lm d n' block_Suc [of 0 m] show ?thesis
      by (simp add: parse_inv_def s' roll_down_def outer_def le read_so_far_def block_def)
  next
    case (Suc d')
    have "0 < k'" using m k Suc by auto
    moreover have "\<forall>j < d'. 0 < ?e ! j \<and> (Suc j < k' \<longrightarrow> ?e ! j = 1)" using outerdims Suc k'(2) by auto
    moreover have "length (elts s) = read_so_far ?e m d'"
      using n' read_so_far_close [of d' m ?e] outerdims Suc d lm md by simp
    moreover have "d' \<noteq> outer" using d Suc lim by (simp add: outer_def)
    ultimately show ?thesis using Suc d k' le lm k by (simp add: parse_inv_def s' roll_down_def)
  qed
qed

lemma array_element_inv:
  assumes "parse_inv dims s" and "0 < dims" and "array_element enc ft dims sep data s = Inr s'"
  shows "parse_inv dims s'"
proof -
  from assms(3) have d: "dim s = dims - 1" "dim s \<noteq> outer"
    by (simp_all add: array_element_def split: if_splits)
  with assms(3) obtain v h where
    s': "s' = s\<lparr>extents := (extents s)[dim s := extents s ! dim s + 1], elts := elts s @ [v], pos_here := h\<rparr>"
    by (auto simp: array_element_def and_then_Inr)
  from assms(1) have le: "length (extents s) = dims" "length (m_extents s) = dims" by (simp_all add: parse_inv_def)
  with d assms(2) have "read_so_far ((extents s)[dim s := extents s ! dim s + 1]) (m_extents s) (dim s) =
      Suc (read_so_far (extents s) (m_extents s) (dim s))"
    by (intro read_so_far_element) simp_all
  with d(2) assms(1) le show ?thesis by (simp add: parse_inv_def s') (use d(1) in \<open>auto\<close>)
qed

lemma parse_step_inv:
  "parse_inv dims s \<Longrightarrow> 0 < dims \<Longrightarrow> dims < npos \<Longrightarrow> parse_step enc ft dims sep data s = Inr s' \<Longrightarrow> parse_inv dims s'"
  unfolding parse_step_def
  by (auto intro: open_brace_inv close_brace_inv array_element_inv split: if_splits)

lemma parse_loop_inv:
  "parse_loop enc ft dims sep data s = Inr s' \<Longrightarrow> parse_inv dims s \<Longrightarrow> 0 < dims \<Longrightarrow> dims < npos \<Longrightarrow> parse_inv dims s'"
proof (induction enc ft dims sep data s rule: parse_loop.induct)
  case (1 enc ft dims sep data s)
  show ?case
  proof (cases "pos_here s < length data")
    case True
    with 1 obtain s1 where "parse_step enc ft dims sep data s = Inr s1" "parse_loop enc ft dims sep data s1 = Inr s'"
      by (subst (asm) parse_loop.simps) (auto simp: and_then_Inr)
    with "1.IH" [OF True] "1.prems" parse_step_inv show ?thesis by blast
  next
    case False
    with "1.prems" show ?thesis by (subst (asm) parse_loop.simps) simp
  qed
qed

section \<open>Parsed arrays are rectangular\<close>

lemma start_inv: "parse_inv dims (start_state dims)"
  by (simp add: parse_inv_def start_state_def)

lemma parse_array_shape:
  assumes "parse_array enc ft dims sep data = Inr a" and "0 < dims" and "dims < npos"
  shows "length (sizes a) = dims \<and> length (m_elts a) = prod_list (sizes a) \<and> m_factors a = init_factors (sizes a)"
proof -
  from assms(1) obtain s where l: "parse_loop enc ft dims sep data (start_state dims) = Inr s"
    and "dim s = outer" "know_extents_from s = 0"
    and a: "a = \<lparr>m_elts = elts s, sizes = m_extents s, m_factors = init_factors (m_extents s)\<rparr>"
    by (auto simp: parse_array_def and_then_Inr split: if_splits)
  with parse_loop_inv [OF l start_inv assms(2,3)] assms(2) show ?thesis by (auto simp: parse_inv_def)
qed

text \<open>
  C24. Every array the parser accepts, in any encoding, of any number of dimensions and with any
  element type, is rectangular: it has as many elements as the product of its sizes, so every index
  that is within the sizes (whatever integer types it is given in) reads an element, the one at the
  row-major offset; two such indexes with different values read at different offsets.
\<close>
theorem parsed_array_indexing:
  assumes "parse_array enc ft dims sep data = Inr a" and "0 < dims" and "dims < npos" and "prod_list (sizes a) < 2 ^ 64"
    and "list_all2 good_index idx (sizes a)"
  shows "length (m_elts a) = prod_list (sizes a) \<and> row_major (sizes a) (map (\<lambda>i. nat (snd i)) idx) < length (m_elts a) \<and>
    at_index hc a idx = Inr (m_elts a ! row_major (sizes a) (map (\<lambda>i. nat (snd i)) idx)) \<and>
    (\<forall>idx2. list_all2 good_index idx2 (sizes a) \<and>
       row_major (sizes a) (map (\<lambda>i. nat (snd i)) idx2) = row_major (sizes a) (map (\<lambda>i. nat (snd i)) idx) \<longrightarrow>
       map (\<lambda>i. nat (snd i)) idx2 = map (\<lambda>i. nat (snd i)) idx)"
proof -
  have less: "list_all2 (<) (map (\<lambda>i. nat (snd i)) is) (sizes a)" if "list_all2 good_index is (sizes a)" for "is"
    using that by (auto simp: good_index_def list_all2_map1 elim: list_all2_mono)
  from parse_array_shape [OF assms(1-3)] have n: "length (sizes a) = dims" "length (m_elts a) = prod_list (sizes a)"
    and "m_factors a = init_factors (sizes a)" by blast+
  with at_index_good [of a idx hc] assms(2,4,5)
  have "at_index hc a idx = Inr (m_elts a ! row_major (sizes a) (map (\<lambda>i. nat (snd i)) idx))" by force
  with row_major_less [OF less [OF assms(5)]] row_major_inject [OF less less [OF assms(5)]] n(2) show ?thesis by auto
qed

text \<open>A two-dimensional array of strings, read with a signed 32-bit and an unsigned 64-bit index.\<close>

lemma parsed_array_indexing_witness:
  "\<exists>a. parse_array UTF8 optional_text 2 (CHR '','') ''{{a,NULL},{b,c}}'' = Inr a \<and>
     at_index False a [(\<lparr>is_signed = True, bits = 32\<rparr>, 1), (size_t, 1)] = Inr (Text ''c'')"
proof -
  let ?b = "''{{a,NULL},{b,c}}''"
  let ?a = "\<lparr>m_elts = [Text ''a'', No_text, Text ''b'', Text ''c''], sizes = [2, 2], m_factors = [2]\<rparr>"
  let ?idx = "[(\<lparr>is_signed = True, bits = 32\<rparr>, 1), (size_t, 1)]"
  have "parse_element UTF8 optional_text (CHR '','') ?b 2 = Inr (Text ''a'', 3)"
    "parse_element UTF8 optional_text (CHR '','') ?b 4 = Inr (No_text, 8)"
    "parse_element UTF8 optional_text (CHR '','') ?b 11 = Inr (Text ''b'', 12)"
    "parse_element UTF8 optional_text (CHR '','') ?b 13 = Inr (Text ''c'', 14)"
    by code_simp+
  note e = this [unfolded eval_nat_numeral BitM.simps One_nat_def]
  have n: "npos \<noteq> 0" "npos \<noteq> Suc 0" by (simp_all add: npos_def)
  note n' = n [symmetric]
  have "init_factors [2, 2] = [2]" by (simp add: init_factors_def)
  note f = this [unfolded numeral_2_eq_2]
  have p: "parse_array UTF8 optional_text 2 (CHR '','') ?b = Inr ?a"
    by (simp add: e n n' f numeral_2_eq_2 parse_array_def check_dims_def upt_rec start_state_def parse_loop.simps parse_step_def open_brace_def close_brace_def
        array_element_def parse_field_end_def roll_up_def roll_down_def outer_def Let_def)
  have "list_all2 good_index ?idx (sizes ?a)"
    by (simp add: good_index_def in_type_def lowest_def highest_def size_t_def)
  with parsed_array_indexing [OF p, of ?idx False] have "at_index False ?a ?idx = Inr (Text ''c'')"
    by (simp add: npos_def)
  with p show ?thesis by blast
qed

end
