(* ===== verification/Pqxx_Result.thy ===== *)
theory Pqxx_Result
  imports Pqxx_Array_Shape
begin

text \<open>
  Query results in the database client: the checks of \<open>pqxx/result.hxx\<close>, the conversions of a field
  (\<open>pqxx/field.hxx\<close>) and of a row (\<open>pqxx/row.hxx\<close>), and the two loops over a result's rows
  (\<open>pqxx/internal/result_iter.hxx\<close>).  What libpq holds of a result is its table of texts and nulls; the
  accessors that are compiled elsewhere read it.  A type a field is converted to is a \<open>field_type\<close>.
\<close>

section \<open>Results, rows and fields\<close>

record query_result =
  cells :: "string option list list"
  res_columns :: nat
  query_text :: "string option"
  res_encoding :: encoding_group

definition res_size :: "query_result \<Rightarrow> nat" where
  "res_size r = length (cells r)"

text \<open>A row and a field are positions in a result.\<close>

record res_row =
  row_home :: query_result
  row_index :: nat

record res_field =
  field_home :: query_result
  field_row :: nat
  field_col :: nat

text \<open>The text of a field, \<open>None\<close> for null; libpq takes a field outside the table for null.\<close>

definition field_value :: "res_field \<Rightarrow> string option" where
  "field_value f =
     (if field_row f < length (cells (field_home f)) \<and> field_col f < length (cells (field_home f) ! field_row f)
      then cells (field_home f) ! field_row f ! field_col f else None)"

definition is_null :: "res_field \<Rightarrow> bool" where
  "is_null f \<longleftrightarrow> field_value f = None"

definition view :: "res_field \<Rightarrow> string" where
  "view f = (case field_value f of None \<Rightarrow> [] | Some t \<Rightarrow> t)"

text \<open>The checks; a query text that is empty is as good as none.\<close>

definition expect_rows :: "nat \<Rightarrow> query_result \<Rightarrow> pqxx_error + query_result" where
  "expect_rows n r =
     (if res_size r \<noteq> n then
        (case query_text r of
           None \<Rightarrow> Inl (unexpected_rows (''Expected '' @ dec n @ '' row(s) from query, got '' @ dec (res_size r) @ ''.''))
         | Some q \<Rightarrow>
             if q = [] then Inl (unexpected_rows (''Expected '' @ dec n @ '' row(s) from query, got '' @ dec (res_size r) @ ''.''))
             else Inl (unexpected_rows (''Expected '' @ dec n @ '' row(s) from query '' @ [CHR 0x27] @ q @ [CHR 0x27] @
               '', got '' @ dec (res_size r) @ ''.'')))
      else Inr r)"

definition no_rows :: "query_result \<Rightarrow> pqxx_error + query_result" where
  "no_rows r = and_then (expect_rows 0 r) (\<lambda>_. Inr r)"

text \<open>The message says one column whatever number was expected.\<close>

definition expect_columns :: "nat \<Rightarrow> query_result \<Rightarrow> pqxx_error + query_result" where
  "expect_columns n r =
     (if res_columns r \<noteq> n then
        (case query_text r of
           None \<Rightarrow> Inl (usage_error (''Expected 1 column from query, got '' @ dec (res_columns r) @ ''.''))
         | Some q \<Rightarrow>
             if q = [] then Inl (usage_error (''Expected 1 column from query, got '' @ dec (res_columns r) @ ''.''))
             else Inl (usage_error (''Expected 1 column from query '' @ [CHR 0x27] @ q @ [CHR 0x27] @ '', got '' @
               dec (res_columns r) @ ''.'')))
      else Inr r)"

section \<open>Field conversions\<close>

text \<open>The result is the Boolean returned and the object's value.\<close>

definition field_to :: "'v field_type \<Rightarrow> res_field \<Rightarrow> 'v \<Rightarrow> pqxx_error + (bool \<times> 'v)" where
  "field_to ft f obj =
     (if is_null f then Inr (False, obj)
      else and_then (from_string ft (c_str (view f))) (\<lambda>v. Inr (True, v)))"

definition field_to_default :: "'v field_type \<Rightarrow> res_field \<Rightarrow> 'v \<Rightarrow> pqxx_error + (bool \<times> 'v)" where
  "field_to_default ft f default_value =
     (let null = is_null f in
      if null then Inr (\<not> null, default_value)
      else and_then (from_string ft (view f)) (\<lambda>v. Inr (\<not> null, v)))"

definition as_default :: "'v field_type \<Rightarrow> res_field \<Rightarrow> 'v \<Rightarrow> pqxx_error + 'v" where
  "as_default ft f default_value = (if is_null f then Inr default_value else from_string ft (view f))"

definition as_value :: "'v field_type \<Rightarrow> res_field \<Rightarrow> pqxx_error + 'v" where
  "as_value ft f =
     (if is_null f then (case null_value ft of None \<Rightarrow> Inl (null_conversion (type_name ft)) | Some v \<Rightarrow> Inr v)
      else from_string ft (view f))"

definition optional_type :: "'v field_type \<Rightarrow> 'v option field_type" where
  "optional_type ft = \<lparr>null_value = Some None, type_name = ''std::optional<'' @ type_name ft @ ''>'',
     from_string = \<lambda>s. and_then (from_string ft s) (\<lambda>v. Inr (Some v))\<rparr>"

definition field_get :: "'v field_type \<Rightarrow> res_field \<Rightarrow> pqxx_error + 'v option" where
  "field_get ft f = as_value (optional_type ft) f"

definition as_sql_array :: "'v field_type \<Rightarrow> nat \<Rightarrow> char \<Rightarrow> string \<Rightarrow> res_field \<Rightarrow> pqxx_error + 'v sql_array" where
  "as_sql_array ft dims sep array_name f =
     (if is_null f then Inl (null_conversion array_name)
      else parse_array (res_encoding (field_home f)) ft dims sep (view f))"

definition composite_to :: "'v field_type list \<Rightarrow> res_field \<Rightarrow> 'v list \<Rightarrow> pqxx_error + (bool \<times> 'v list)" where
  "composite_to fts f objs =
     (if is_null f then Inr (False, objs)
      else and_then (parse_composite (res_encoding (field_home f)) fts (view f)) (\<lambda>vs. Inr (True, vs)))"

text \<open>The specialisations for strings and views, which take the text as it is.\<close>

definition field_to_text :: "res_field \<Rightarrow> string \<Rightarrow> bool \<times> string" where
  "field_to_text f obj = (let null = is_null f in (\<not> null, if \<not> null then view f else obj))"

definition field_to_text_default :: "res_field \<Rightarrow> string \<Rightarrow> bool \<times> string" where
  "field_to_text_default f default_value = (let null = is_null f in (\<not> null, if null then default_value else view f))"

definition field_to_c_str :: "res_field \<Rightarrow> string \<Rightarrow> bool \<times> string" where
  "field_to_c_str f obj = (let null = is_null f in (\<not> null, if \<not> null then c_str (view f) else obj))"

definition as_view :: "res_field \<Rightarrow> pqxx_error + string" where
  "as_view f = (if is_null f then Inl (null_conversion ''std::string_view'') else Inr (view f))"

definition as_view_default :: "res_field \<Rightarrow> string \<Rightarrow> string" where
  "as_view_default f default_value = (if is_null f then default_value else view f)"

definition field_to_view :: "res_field \<Rightarrow> string \<Rightarrow> bool \<times> string" where
  "field_to_view f obj = (let null = is_null f in (\<not> null, if \<not> null then view f else obj))"

definition field_to_view_default :: "res_field \<Rightarrow> string \<Rightarrow> bool \<times> string" where
  "field_to_view_default f default_value = (let null = is_null f in (\<not> null, if null then default_value else view f))"

text \<open>A \<open>zview\<close> is made of the address of the text and its length; a zero inside does not end it.\<close>

definition zview_of :: "res_field \<Rightarrow> string" where
  "zview_of f = take (length (view f)) (view f @ [CHR 0x00])"

definition field_to_zview :: "res_field \<Rightarrow> string \<Rightarrow> bool \<times> string" where
  "field_to_zview f obj = (let null = is_null f in (\<not> null, if \<not> null then zview_of f else obj))"

definition field_to_zview_default :: "res_field \<Rightarrow> string \<Rightarrow> bool \<times> string" where
  "field_to_zview_default f default_value = (let null = is_null f in (\<not> null, if null then default_value else zview_of f))"

definition as_zview :: "res_field \<Rightarrow> pqxx_error + string" where
  "as_zview f = (if is_null f then Inl (null_conversion ''pqxx::zview'') else Inr (zview_of f))"

definition as_zview_default :: "res_field \<Rightarrow> string \<Rightarrow> string" where
  "as_zview_default f default_value = (if is_null f then default_value else zview_of f)"

text \<open>The text types agree with one another, and a C string with them for a text without a zero.\<close>

lemma text_targets_agree:
  "field_to_view f obj = field_to_text f obj" "field_to_zview f obj = field_to_text f obj"
  "field_to_view_default f obj = field_to_text_default f obj" "field_to_zview_default f obj = field_to_text_default f obj"
  "as_zview_default f obj = snd (field_to_text_default f obj)"
  "as_zview f = Inr t \<longleftrightarrow> field_value f = Some t"
  by (auto simp: field_to_view_def field_to_text_def field_to_zview_def zview_of_def field_to_view_default_def
      field_to_text_default_def field_to_zview_default_def as_zview_def as_zview_default_def is_null_def view_def)

lemma c_str_target: "CHR 0x00 \<notin> set (view f) \<Longrightarrow> field_to_c_str f obj = field_to_text f obj"
  by (auto simp: field_to_c_str_def field_to_text_def c_str_id Let_def)

text \<open>\<open>from_string\<close> of a field, and of a field that must be null.\<close>

definition from_field :: "'v field_type \<Rightarrow> res_field \<Rightarrow> pqxx_error + 'v" where
  "from_field ft f =
     (if is_null f then (case null_value ft of Some v \<Rightarrow> Inr v | None \<Rightarrow> Inl (null_conversion (type_name ft)))
      else from_string ft (view f))"

definition from_field_nullptr :: "res_field \<Rightarrow> pqxx_error + unit" where
  "from_field_nullptr f =
     (if \<not> is_null f then Inl (conversion_error ''Extracting non-null field into nullptr_t variable.'') else Inr ())"

lemma from_field_as: "from_field ft f = as_value ft f"
  by (simp add: from_field_def as_value_def split: option.splits)

section \<open>Row conversions\<close>

definition row_field :: "res_row \<Rightarrow> nat \<Rightarrow> res_field" where
  "row_field r j = \<lparr>field_home = row_home r, field_row = row_index r, field_col = j\<rparr>"

text \<open>
  The rows are whole rows of a result, of the result's number of columns: slices (\<open>row::slice\<close>, deprecated
  and compiled elsewhere), whose \<open>m_begin\<close> and \<open>m_end\<close> leave columns out of \<open>size()\<close>, are not modelled.
\<close>

definition check_size :: "nat \<Rightarrow> res_row \<Rightarrow> pqxx_error + unit" where
  "check_size expected r =
     (if res_columns (row_home r) \<noteq> expected then
        Inl (usage_error (''Tried to extract '' @ dec expected @ '' field(s) from a row of '' @
          dec (res_columns (row_home r)) @ ''.''))
      else Inr ())"

text \<open>\<open>convert\<close>: the fields are extracted from first to last (a comma fold).\<close>

definition extract_value :: "'v field_type \<Rightarrow> nat \<Rightarrow> res_row \<Rightarrow> pqxx_error + 'v" where
  "extract_value ft j r = from_field ft (row_field r j)"

fun extract_fields :: "'v field_type list \<Rightarrow> nat \<Rightarrow> res_row \<Rightarrow> pqxx_error + 'v list" where
  "extract_fields [] j r = Inr []"
| "extract_fields (ft # fts) j r =
     and_then (extract_value ft j r) (\<lambda>v. and_then (extract_fields fts (j + 1) r) (\<lambda>vs. Inr (v # vs)))"

definition row_convert :: "'v field_type list \<Rightarrow> res_row \<Rightarrow> pqxx_error + 'v list" where
  "row_convert fts r = extract_fields fts 0 r"

definition row_to :: "'v field_type list \<Rightarrow> res_row \<Rightarrow> pqxx_error + 'v list" where
  "row_to fts r = and_then (check_size (length fts) r) (\<lambda>_. row_convert fts r)"

text \<open>
  \<open>get_tuple\<close>: the fields are the arguments of one function call, so the order in which they are
  converted is the compiler's; it is a parameter, a list of column numbers.  Only the error that is
  thrown when several conversions fail depends on it.
\<close>

definition get_field :: "'v field_type list \<Rightarrow> res_row \<Rightarrow> nat \<Rightarrow> pqxx_error + 'v" where
  "get_field fts r j = as_value (fts ! j) (row_field r j)"

fun evaluate :: "(nat \<Rightarrow> pqxx_error + 'v) \<Rightarrow> nat list \<Rightarrow> pqxx_error + (nat \<times> 'v) list" where
  "evaluate f [] = Inr []"
| "evaluate f (j # js) = and_then (f j) (\<lambda>v. and_then (evaluate f js) (\<lambda>vs. Inr ((j, v) # vs)))"

definition get_tuple :: "nat list \<Rightarrow> 'v field_type list \<Rightarrow> res_row \<Rightarrow> pqxx_error + 'v list" where
  "get_tuple order fts r =
     and_then (evaluate (get_field fts r) order) (\<lambda>vs. Inr (map (\<lambda>j. the (map_of vs j)) [0..<length fts]))"

definition row_as :: "nat list \<Rightarrow> 'v field_type list \<Rightarrow> res_row \<Rightarrow> pqxx_error + 'v list" where
  "row_as order fts r = and_then (check_size (length fts) r) (\<lambda>_. get_tuple order fts r)"

section \<open>Loops over a result\<close>

text \<open>
  \<open>result_iter\<close>: \<open>it_home\<close> says that the iterator has not reached the end, \<open>it_tuple\<close> is the row it
  holds.  A loop ends with the rows its body was given and the error that stopped it, if any.
\<close>

record 'v result_iter =
  it_home :: bool
  it_index :: nat
  it_size :: nat
  it_tuple :: "'v list"

definition res_row_at :: "query_result \<Rightarrow> nat \<Rightarrow> res_row" where
  "res_row_at r i = \<lparr>row_home = r, row_index = i\<rparr>"

definition iter_read :: "'v field_type list \<Rightarrow> query_result \<Rightarrow> 'v result_iter \<Rightarrow> pqxx_error + 'v result_iter" where
  "iter_read fts r it = and_then (row_convert fts (res_row_at r (it_index it))) (\<lambda>vs. Inr (it\<lparr>it_tuple := vs\<rparr>))"

definition iter_of :: "'v field_type list \<Rightarrow> query_result \<Rightarrow> pqxx_error + 'v result_iter" where
  "iter_of fts r =
     (let it = \<lparr>it_home = True, it_index = 0, it_size = res_size r, it_tuple = []\<rparr> in
      if cells r \<noteq> [] then iter_read fts r it else Inr it)"

definition iter_end :: "'v result_iter" where
  "iter_end = \<lparr>it_home = False, it_index = 0, it_size = 0, it_tuple = []\<rparr>"

definition iter_next :: "'v field_type list \<Rightarrow> query_result \<Rightarrow> 'v result_iter \<Rightarrow> pqxx_error + 'v result_iter" where
  "iter_next fts r it =
     (let it = it\<lparr>it_index := it_index it + 1\<rparr> in
      if it_index it \<ge> it_size it then Inr (it\<lparr>it_home := False\<rparr>) else iter_read fts r it)"

definition iter_eq :: "'v result_iter \<Rightarrow> 'v result_iter \<Rightarrow> bool" where
  "iter_eq a b \<longleftrightarrow> it_home a = it_home b"

definition iteration_begin :: "'v field_type list \<Rightarrow> query_result \<Rightarrow> pqxx_error + 'v result_iter" where
  "iteration_begin fts r = (if res_size r = 0 then Inr iter_end else iter_of fts r)"

text \<open>The loop \<open>for (auto const &t : r.iter<...>())\<close>, from an iterator on.\<close>

function iter_loop ::
    "'v field_type list \<Rightarrow> query_result \<Rightarrow> 'v result_iter \<Rightarrow> 'v list list \<Rightarrow> 'v list list \<times> pqxx_error option" where
  "iter_loop fts r it visited =
     (if iter_eq it iter_end then (visited, None)
      else case iter_next fts r it of
          Inl e \<Rightarrow> (visited @ [it_tuple it], Some e)
        | Inr it' \<Rightarrow> iter_loop fts r it' (visited @ [it_tuple it]))"
  by pat_completeness auto
termination
  by (relation "measure (\<lambda>(fts, r, it, vs). (if it_home it then 1 else 0) + (it_size it - it_index it))")
    (auto simp: iter_eq_def iter_end_def iter_next_def iter_read_def and_then_Inr Let_def split: if_splits)

declare iter_loop.simps [simp del]

definition iterate_result :: "'v field_type list \<Rightarrow> query_result \<Rightarrow> 'v list list \<times> pqxx_error option" where
  "iterate_result fts r =
     (case and_then (expect_columns (length fts) r) (\<lambda>_. iteration_begin fts r) of
        Inl e \<Rightarrow> ([], Some e)
      | Inr it \<Rightarrow> iter_loop fts r it [])"

text \<open>\<open>for_each\<close>: every row is converted with \<open>as_tuple\<close> and passed to the callback.\<close>

fun for_each_rows :: "nat list \<Rightarrow> 'v field_type list \<Rightarrow> query_result \<Rightarrow> nat list \<Rightarrow> 'v list list \<Rightarrow> 'v list list \<times> pqxx_error option" where
  "for_each_rows order fts r [] visited = (visited, None)"
| "for_each_rows order fts r (i # is) visited =
     (case get_tuple order fts (res_row_at r i) of
        Inl e \<Rightarrow> (visited, Some e)
      | Inr vs \<Rightarrow> for_each_rows order fts r is (visited @ [vs]))"

definition for_each :: "nat list \<Rightarrow> 'v field_type list \<Rightarrow> query_result \<Rightarrow> 'v list list \<times> pqxx_error option" where
  "for_each order fts r =
     (let sz = length fts; cols = res_columns r in
      if sz \<noteq> cols then
        ([], Some (usage_error (''Callback to for_each takes '' @ dec sz @ ''parameter'' @ (if sz = 1 then [] else ''s'') @
          '', but result set has '' @ dec cols @ ''field'' @ (if cols = 1 then [] else ''s'') @ ''.'')))
      else for_each_rows order fts r [0..<res_size r] [])"

section \<open>The two loops agree\<close>

text \<open>A row converts if every field does, whatever the order of the conversions.\<close>

lemma extract_fields_Inr:
  "extract_fields fts j r = Inr vs \<longleftrightarrow>
    length vs = length fts \<and> (\<forall>k < length fts. as_value (fts ! k) (row_field r (j + k)) = Inr (vs ! k))"
proof (induction fts arbitrary: j vs)
  case (Cons ft fts)
  show ?case
    by (cases vs) (auto simp: Cons.IH extract_value_def from_field_as and_then_Inr nth_Cons less_Suc_eq_0_disj
        split: nat.splits)
qed auto

lemma row_convert_Inr:
  "row_convert fts r = Inr vs \<longleftrightarrow> length vs = length fts \<and> (\<forall>k < length fts. get_field fts r k = Inr (vs ! k))"
  by (simp add: row_convert_def extract_fields_Inr get_field_def)

lemma evaluate_Inr:
  "evaluate f js = Inr ps \<Longrightarrow> j \<in> set js \<Longrightarrow> \<exists>v. f j = Inr v \<and> map_of ps j = Some v"
  by (induction js arbitrary: ps) (auto simp: and_then_Inr)

lemma evaluate_total: "\<forall>j \<in> set js. \<exists>v. f j = Inr v \<Longrightarrow> \<exists>ps. evaluate f js = Inr ps"
  by (induction js) auto

lemma get_tuple_Inr:
  assumes "set order = {0..<length fts}"
  shows "get_tuple order fts r = Inr vs \<longleftrightarrow> row_convert fts r = Inr vs"
proof
  assume "get_tuple order fts r = Inr vs"
  then obtain ps where "evaluate (get_field fts r) order = Inr ps" "vs = map (\<lambda>j. the (map_of ps j)) [0..<length fts]"
    by (auto simp: get_tuple_def and_then_Inr)
  with assms evaluate_Inr [of "get_field fts r" order ps] show "row_convert fts r = Inr vs"
    by (fastforce simp: row_convert_Inr)
next
  assume "row_convert fts r = Inr vs"
  then have v: "length vs = length fts" "\<forall>k < length fts. get_field fts r k = Inr (vs ! k)" by (simp_all add: row_convert_Inr)
  with assms evaluate_total [of order "get_field fts r"] obtain ps where p: "evaluate (get_field fts r) order = Inr ps" by auto
  have "map (\<lambda>j. the (map_of ps j)) [0..<length fts] = vs"
    using v assms evaluate_Inr [OF p] by (intro nth_equalityI) fastforce+
  with p show "get_tuple order fts r = Inr vs" by (simp add: get_tuple_def)
qed

definition same_loop :: "'v list list \<times> pqxx_error option \<Rightarrow> 'v list list \<times> pqxx_error option \<Rightarrow> bool" where
  "same_loop a b \<longleftrightarrow> fst a = fst b \<and> (snd a = None \<longleftrightarrow> snd b = None)"

lemma iter_loop_agrees:
  assumes "set order = {0..<length fts}" and "i < n"
  shows "same_loop (iter_loop fts r \<lparr>it_home = True, it_index = i, it_size = n, it_tuple = t\<rparr> visited)
    (for_each_rows order fts r [Suc i..<n] (visited @ [t]))"
  using assms(2)
proof (induction "n - i" arbitrary: i t visited rule: less_induct)
  case less
  let ?it = "\<lparr>it_home = True, it_index = i, it_size = n, it_tuple = t\<rparr>"
  show ?case
  proof (cases "Suc i < n")
    case False
    with less.prems have n: "n = Suc i" by simp
    have "iter_loop fts r (?it\<lparr>it_home := False, it_index := Suc i\<rparr>) (visited @ [t]) = (visited @ [t], None)"
      by (subst iter_loop.simps) (simp add: iter_eq_def iter_end_def)
    with n show ?thesis
      by (subst iter_loop.simps) (simp add: iter_eq_def iter_end_def iter_next_def same_loop_def)
  next
    case True
    then have u: "[Suc i..<n] = Suc i # [Suc (Suc i)..<n]" by (simp add: upt_conv_Cons)
    show ?thesis
    proof (cases "row_convert fts (res_row_at r (Suc i))")
      case (Inl e)
      with get_tuple_Inr [OF assms(1), of "res_row_at r (Suc i)"] obtain e' where
        "get_tuple order fts (res_row_at r (Suc i)) = Inl e'" by (cases "get_tuple order fts (res_row_at r (Suc i))") auto
      with Inl True u show ?thesis
        by (subst iter_loop.simps) (simp add: iter_eq_def iter_end_def iter_next_def iter_read_def same_loop_def)
    next
      case (Inr vs)
      with get_tuple_Inr [OF assms(1), of "res_row_at r (Suc i)"] have
        t: "get_tuple order fts (res_row_at r (Suc i)) = Inr vs" by simp
      have "iter_loop fts r ?it visited =
          iter_loop fts r \<lparr>it_home = True, it_index = Suc i, it_size = n, it_tuple = vs\<rparr> (visited @ [t])"
        using True Inr by (subst iter_loop.simps) (simp add: iter_eq_def iter_end_def iter_next_def iter_read_def)
      with less.hyps [of "Suc i" vs "visited @ [t]"] True t u show ?thesis by simp
    qed
  qed
qed

text \<open>
  C38. Iterating over a result and \<open>for_each\<close> give the same rows: with the same types, in whatever
  order the compiler evaluates the conversions of a row, both pass on the converted rows up to the first
  row that does not convert, and one ends with an exception exactly when the other does.
\<close>
theorem result_loops_agree:
  assumes "set order = {0..<length fts}"
  shows "same_loop (iterate_result fts r) (for_each order fts r)"
proof (cases "res_columns r = length fts")
  case False
  then show ?thesis by (auto simp: same_loop_def iterate_result_def for_each_def expect_columns_def Let_def split: option.splits)
next
  case True
  then have c: "expect_columns (length fts) r = Inr r" by (simp add: expect_columns_def)
  show ?thesis
  proof (cases "res_size r = 0")
    case r0: True
    have "iter_loop fts r iter_end [] = ([], None)" by (subst iter_loop.simps) (simp add: iter_eq_def)
    with r0 c True show ?thesis by (simp add: iterate_result_def iteration_begin_def for_each_def same_loop_def)
  next
    case False
    then have u: "[0..<res_size r] = 0 # [Suc 0..<res_size r]" and n: "cells r \<noteq> []" "0 < res_size r"
      by (simp_all add: upt_conv_Cons res_size_def)
    have f: "for_each order fts r = for_each_rows order fts r (0 # [Suc 0..<res_size r]) []"
      using True u by (simp add: for_each_def)
    show ?thesis
    proof (cases "row_convert fts (res_row_at r 0)")
      case (Inl e)
      with get_tuple_Inr [OF assms, of "res_row_at r 0"] obtain e' where
        "get_tuple order fts (res_row_at r 0) = Inl e'" by (cases "get_tuple order fts (res_row_at r 0)") auto
      with Inl c n f show ?thesis
        by (simp add: iterate_result_def iteration_begin_def iter_of_def iter_read_def same_loop_def)
    next
      case (Inr vs)
      with get_tuple_Inr [OF assms, of "res_row_at r 0"] have "get_tuple order fts (res_row_at r 0) = Inr vs" by simp
      with Inr c n f iter_loop_agrees [OF assms n(2), of r vs "[]"] show ?thesis
        by (simp add: iterate_result_def iteration_begin_def iter_of_def iter_read_def)
    qed
  qed
qed

lemma result_loops_agree_witness:
  "same_loop
    (iterate_result [text_type, text_type] \<lparr>cells = [[Some ''a'', Some ''b''], [None, Some ''d'']], res_columns = 2,
      query_text = None, res_encoding = UTF8\<rparr>)
    (for_each [1, 0] [text_type, text_type] \<lparr>cells = [[Some ''a'', Some ''b''], [None, Some ''d'']], res_columns = 2,
      query_text = None, res_encoding = UTF8\<rparr>)"
  by (rule result_loops_agree) auto

end
