(* ===== verification/Pqxx_Iterators.thy ===== *)
theory Pqxx_Iterators
  imports Pqxx_Result "HOL-Library.While_Combinator"
begin

text \<open>
  The iterators over the fields of a row and over the rows of a result, forwards and in reverse
  (\<open>pqxx/row.hxx\<close>, \<open>pqxx/internal/result_iterator.hxx\<close>): each operation as the code has it, the laws of a
  random-access iterator that both satisfy, and the loops over them.
\<close>

section \<open>Loops over iterators\<close>

text \<open>
  The loop \<open>for (i = start; i != stop; ++i)\<close>: the iterators it visits, in order; \<open>None\<close> when it does not end.
\<close>

definition visit :: "('i \<Rightarrow> 'i \<Rightarrow> bool) \<Rightarrow> ('i \<Rightarrow> 'i) \<Rightarrow> 'i \<Rightarrow> 'i \<Rightarrow> 'i list option" where
  "visit ne incr start stop =
     map_option snd (while_option (\<lambda>(i, seen). ne i stop) (\<lambda>(i, seen). (incr i, seen @ [i])) (start, []))"

section \<open>The contract of a random-access iterator\<close>

text \<open>
  \<open>shift\<close> moves an iterator and \<open>pos\<close> is its position; \<open>ok\<close> are the iterators of one container that may be
  moved freely.  The operations are \<open>++\<close>, \<open>--\<close>, \<open>+=\<close>, \<open>-=\<close>, \<open>+\<close>, \<open>-\<close>, the distance of two iterators, and the
  comparisons.
\<close>

locale random_access =
  fixes ok :: "'i \<Rightarrow> bool" and shift :: "'i \<Rightarrow> int \<Rightarrow> 'i" and pos :: "'i \<Rightarrow> int"
    and incr :: "'i \<Rightarrow> 'i" and decr :: "'i \<Rightarrow> 'i"
    and add :: "'i \<Rightarrow> int \<Rightarrow> 'i" and sub :: "'i \<Rightarrow> int \<Rightarrow> 'i"
    and plus :: "'i \<Rightarrow> int \<Rightarrow> 'i" and minus :: "'i \<Rightarrow> int \<Rightarrow> 'i" and diff :: "'i \<Rightarrow> 'i \<Rightarrow> int"
    and eq :: "'i \<Rightarrow> 'i \<Rightarrow> bool" and ne :: "'i \<Rightarrow> 'i \<Rightarrow> bool"
    and lt :: "'i \<Rightarrow> 'i \<Rightarrow> bool" and le :: "'i \<Rightarrow> 'i \<Rightarrow> bool"
    and gt :: "'i \<Rightarrow> 'i \<Rightarrow> bool" and ge :: "'i \<Rightarrow> 'i \<Rightarrow> bool"
  assumes ok_shift: "ok (shift i n) = ok i"
    and pos_shift: "pos (shift i n) = pos i + n"
    and shift_0: "shift i 0 = i"
    and shift_shift: "shift (shift i m) n = shift i (m + n)"
    and incr: "incr i = shift i 1" and decr: "decr i = shift i (- 1)"
    and add: "add i n = shift i n" and sub: "sub i n = shift i (- n)"
    and plus: "ok i \<Longrightarrow> plus i n = shift i n" and minus: "ok i \<Longrightarrow> minus i n = shift i (- n)"
    and diff: "diff i j = pos i - pos j"
    and eq: "eq i j \<longleftrightarrow> pos i = pos j" and ne: "ne i j \<longleftrightarrow> pos i \<noteq> pos j"
    and lt: "lt i j \<longleftrightarrow> pos i < pos j" and le: "le i j \<longleftrightarrow> pos i \<le> pos j"
    and gt: "gt i j \<longleftrightarrow> pos i > pos j" and ge: "ge i j \<longleftrightarrow> pos i \<ge> pos j"
begin

lemmas moves = ok_shift pos_shift shift_0 shift_shift incr decr add sub plus minus
lemmas compares = diff eq ne lt le gt ge

lemma decr_incr: "decr (incr i) = i" and incr_decr: "incr (decr i) = i"
  by (simp_all add: moves)

lemma diff_plus: "ok i \<Longrightarrow> diff (plus i n) i = n" and lt_diff: "lt i j \<longleftrightarrow> diff i j < 0"
  by (simp_all add: moves compares)

lemma visit_from:
  "pos stop = pos i + int n \<Longrightarrow>
    \<exists>j. while_option (\<lambda>(i, seen). ne i stop) (\<lambda>(i, seen). (incr i, seen @ [i])) (i, seen) =
      Some (j, seen @ map (\<lambda>k. shift i (int k)) [0..<n])"
proof (induction n arbitrary: i seen)
  case 0
  then show ?case by (subst while_option_unfold) (simp add: compares)
next
  case (Suc n)
  then have "pos stop = pos (incr i) + int n" by (simp add: moves)
  from Suc.IH [OF this, of "seen @ [i]"] obtain j where
    "while_option (\<lambda>(i, seen). ne i stop) (\<lambda>(i, seen). (incr i, seen @ [i])) (incr i, seen @ [i]) =
      Some (j, (seen @ [i]) @ map (\<lambda>k. shift (incr i) (int k)) [0..<n])" by blast
  with Suc.prems show ?case
    by (subst while_option_unfold) (simp add: compares map_upt_Suc moves del: upt_Suc)
qed

lemma visit_positions:
  assumes "pos stop = pos start + int n"
  shows "visit ne incr start stop = Some (map (\<lambda>k. shift start (int k)) [0..<n])"
  using visit_from [OF assms, of "[]"] by (auto simp: visit_def)

end

text \<open>
  A reverse iterator stores an iterator one before its \<open>base\<close>: \<open>make\<close> is its construction from an iterator,
  and the rest are its operations.
\<close>

locale reverse_access = random_access +
  fixes make :: "'a \<Rightarrow> 'a" and rincr :: "'a \<Rightarrow> 'a" and rdecr :: "'a \<Rightarrow> 'a"
    and radd :: "'a \<Rightarrow> int \<Rightarrow> 'a" and rsub :: "'a \<Rightarrow> int \<Rightarrow> 'a"
    and rplus :: "'a \<Rightarrow> int \<Rightarrow> 'a" and rminus :: "'a \<Rightarrow> int \<Rightarrow> 'a" and rdiff :: "'a \<Rightarrow> 'a \<Rightarrow> int"
    and req :: "'a \<Rightarrow> 'a \<Rightarrow> bool" and rne :: "'a \<Rightarrow> 'a \<Rightarrow> bool"
    and rlt :: "'a \<Rightarrow> 'a \<Rightarrow> bool" and rle :: "'a \<Rightarrow> 'a \<Rightarrow> bool"
    and rgt :: "'a \<Rightarrow> 'a \<Rightarrow> bool" and rge :: "'a \<Rightarrow> 'a \<Rightarrow> bool"
  assumes make: "make i = decr i" and rincr: "rincr i = decr i" and rdecr: "rdecr i = incr i"
    and radd: "radd i n = sub i n" and rsub: "rsub i n = add i n"
    and rplus: "rplus i n = make (minus (incr i) n)" and rminus: "rminus i n = make (plus (incr i) n)"
    and rdiff: "rdiff i j = diff j i"
    and req: "req i j \<longleftrightarrow> eq i j" and rne: "rne i j \<longleftrightarrow> \<not> eq i j"
    and rlt: "rlt i j \<longleftrightarrow> gt i j" and rle: "rle i j \<longleftrightarrow> ge i j"
    and rgt: "rgt i j \<longleftrightarrow> lt i j" and rge: "rge i j \<longleftrightarrow> le i j"
begin

lemmas reverses = make rincr rdecr radd rsub rplus rminus rdiff req rne rlt rle rgt rge

end

text \<open>A reverse iterator is a random-access iterator that moves the other way.\<close>

sublocale reverse_access \<subseteq> reversed: random_access ok "\<lambda>i n. shift i (- n)" "\<lambda>i. - pos i"
    rincr rdecr radd rsub rplus rminus rdiff req rne rlt rle rgt rge
  by unfold_locales (auto simp: reverses moves compares)

context reverse_access
begin

text \<open>The loop from the end to the beginning visits what the loop forwards does, in reverse order.\<close>

lemma visit_reverse:
  assumes "stop = shift start (int n)"
  shows "visit rne rincr (make stop) (make start) = map_option rev (visit ne incr start stop)"
proof -
  from assms have "- pos (make start) = - pos (make stop) + int n" "pos stop = pos start + int n"
    by (simp_all add: reverses moves)
  note reversed.visit_positions [OF this(1)] visit_positions [OF this(2)]
  moreover have "map (\<lambda>k. shift (make stop) (- int k)) [0..<n] = rev (map (\<lambda>k. shift start (int k)) [0..<n])"
    using assms by (intro nth_equalityI) (simp_all add: reverses moves rev_nth algebra_simps of_nat_diff)
  ultimately show ?thesis by simp
qed

end

section \<open>Iterators over the fields of a row\<close>

text \<open>
  An iterator over a row is a field, and an iterator over a result is a row, with signed indexes; positions
  are unbounded here, where the code has 32-bit integers.  The postfix operators and \<open>base\<close> are compiled
  elsewhere: \<open>base\<close> is an argument.
\<close>

record col_iter =
  ci_home :: query_result
  ci_row :: int
  ci_col :: int

definition col_iter_of :: "query_result \<Rightarrow> int \<Rightarrow> int \<Rightarrow> col_iter" where
  "col_iter_of r row c = \<lparr>ci_home = r, ci_row = row, ci_col = c\<rparr>"

definition col_incr :: "col_iter \<Rightarrow> col_iter" where
  "col_incr i = i\<lparr>ci_col := ci_col i + 1\<rparr>"

definition col_decr :: "col_iter \<Rightarrow> col_iter" where
  "col_decr i = i\<lparr>ci_col := ci_col i - 1\<rparr>"

definition col_add :: "col_iter \<Rightarrow> int \<Rightarrow> col_iter" where
  "col_add i n = i\<lparr>ci_col := ci_col i + n\<rparr>"

definition col_sub :: "col_iter \<Rightarrow> int \<Rightarrow> col_iter" where
  "col_sub i n = i\<lparr>ci_col := ci_col i - n\<rparr>"

definition col_plus :: "col_iter \<Rightarrow> int \<Rightarrow> col_iter" where
  "col_plus i n = col_iter_of (ci_home i) (ci_row i) (ci_col i + n)"

definition col_minus :: "col_iter \<Rightarrow> int \<Rightarrow> col_iter" where
  "col_minus i n = col_iter_of (ci_home i) (ci_row i) (ci_col i - n)"

definition col_diff :: "col_iter \<Rightarrow> col_iter \<Rightarrow> int" where
  "col_diff i j = ci_col i - ci_col j"

definition col_eq :: "col_iter \<Rightarrow> col_iter \<Rightarrow> bool" where
  "col_eq i j \<longleftrightarrow> ci_col i = ci_col j"

definition col_ne :: "col_iter \<Rightarrow> col_iter \<Rightarrow> bool" where
  "col_ne i j \<longleftrightarrow> ci_col i \<noteq> ci_col j"

definition col_lt :: "col_iter \<Rightarrow> col_iter \<Rightarrow> bool" where
  "col_lt i j \<longleftrightarrow> ci_col i < ci_col j"

definition col_le :: "col_iter \<Rightarrow> col_iter \<Rightarrow> bool" where
  "col_le i j \<longleftrightarrow> ci_col i \<le> ci_col j"

definition col_gt :: "col_iter \<Rightarrow> col_iter \<Rightarrow> bool" where
  "col_gt i j \<longleftrightarrow> ci_col i > ci_col j"

definition col_ge :: "col_iter \<Rightarrow> col_iter \<Rightarrow> bool" where
  "col_ge i j \<longleftrightarrow> ci_col i \<ge> ci_col j"

definition col_index :: "col_iter \<Rightarrow> int \<Rightarrow> col_iter" where
  "col_index i offset = col_plus i offset"

definition col_reverse :: "col_iter \<Rightarrow> col_iter" where
  "col_reverse i = col_decr i"

definition col_rincr :: "col_iter \<Rightarrow> col_iter" where
  "col_rincr i = col_decr i"

definition col_rdecr :: "col_iter \<Rightarrow> col_iter" where
  "col_rdecr i = col_incr i"

definition col_radd :: "col_iter \<Rightarrow> int \<Rightarrow> col_iter" where
  "col_radd i n = col_sub i n"

definition col_rsub :: "col_iter \<Rightarrow> int \<Rightarrow> col_iter" where
  "col_rsub i n = col_add i n"

definition col_rplus :: "(col_iter \<Rightarrow> col_iter) \<Rightarrow> col_iter \<Rightarrow> int \<Rightarrow> col_iter" where
  "col_rplus base i n = col_reverse (col_minus (base i) n)"

definition col_rminus :: "(col_iter \<Rightarrow> col_iter) \<Rightarrow> col_iter \<Rightarrow> int \<Rightarrow> col_iter" where
  "col_rminus base i n = col_reverse (col_plus (base i) n)"

definition col_rdiff :: "col_iter \<Rightarrow> col_iter \<Rightarrow> int" where
  "col_rdiff i j = col_diff j i"

definition col_req :: "col_iter \<Rightarrow> col_iter \<Rightarrow> bool" where
  "col_req i j \<longleftrightarrow> col_eq i j"

definition col_rne :: "col_iter \<Rightarrow> col_iter \<Rightarrow> bool" where
  "col_rne i j \<longleftrightarrow> \<not> col_req i j"

definition col_rlt :: "col_iter \<Rightarrow> col_iter \<Rightarrow> bool" where
  "col_rlt i j \<longleftrightarrow> col_gt i j"

definition col_rle :: "col_iter \<Rightarrow> col_iter \<Rightarrow> bool" where
  "col_rle i j \<longleftrightarrow> col_ge i j"

definition col_rgt :: "col_iter \<Rightarrow> col_iter \<Rightarrow> bool" where
  "col_rgt i j \<longleftrightarrow> col_lt i j"

definition col_rge :: "col_iter \<Rightarrow> col_iter \<Rightarrow> bool" where
  "col_rge i j \<longleftrightarrow> col_le i j"

definition col_rindex :: "(col_iter \<Rightarrow> col_iter) \<Rightarrow> col_iter \<Rightarrow> int \<Rightarrow> col_iter" where
  "col_rindex base i offset = col_rplus base i offset"

definition col_shift :: "col_iter \<Rightarrow> int \<Rightarrow> col_iter" where
  "col_shift i n = i\<lparr>ci_col := ci_col i + n\<rparr>"

lemmas col_ops =
    col_shift_def col_incr_def col_decr_def col_add_def col_sub_def col_plus_def col_minus_def col_diff_def
    col_eq_def col_ne_def col_lt_def col_le_def col_gt_def col_ge_def col_reverse_def col_rincr_def
    col_rdecr_def col_radd_def col_rsub_def col_rplus_def col_rminus_def col_rdiff_def col_req_def
    col_rne_def col_rlt_def col_rle_def col_rgt_def col_rge_def

interpretation row_back: reverse_access "\<lambda>i. True" col_shift ci_col col_incr col_decr col_add col_sub col_plus col_minus
    col_diff col_eq col_ne col_lt col_le col_gt col_ge col_reverse col_rincr col_rdecr col_radd col_rsub
    "col_rplus col_incr" "col_rminus col_incr" col_rdiff col_req col_rne col_rlt col_rle col_rgt col_rge
  by unfold_locales (auto simp: col_ops col_iter_of_def)

section \<open>Iterators over the rows of a result\<close>

text \<open>
  A row has the columns from \<open>ri_begin\<close> to \<open>ri_end\<close>; \<open>+\<close> and \<open>-\<close> make an iterator for whole rows.
\<close>

record row_iter =
  ri_home :: query_result
  ri_index :: int
  ri_begin :: int
  ri_end :: int

definition result_iter_at :: "query_result \<Rightarrow> int \<Rightarrow> row_iter" where
  "result_iter_at r i = \<lparr>ri_home = r, ri_index = i, ri_begin = 0, ri_end = int (res_columns r)\<rparr>"

definition row_size :: "row_iter \<Rightarrow> int" where
  "row_size r = ri_end r - ri_begin r"

definition rownumber :: "row_iter \<Rightarrow> int" where
  "rownumber r = ri_index r"

definition result_end :: "query_result \<Rightarrow> row_iter" where
  "result_end r = result_iter_at r (int (res_size r))"

definition row_incr :: "row_iter \<Rightarrow> row_iter" where
  "row_incr i = i\<lparr>ri_index := ri_index i + 1\<rparr>"

definition row_decr :: "row_iter \<Rightarrow> row_iter" where
  "row_decr i = i\<lparr>ri_index := ri_index i - 1\<rparr>"

definition row_add :: "row_iter \<Rightarrow> int \<Rightarrow> row_iter" where
  "row_add i n = i\<lparr>ri_index := ri_index i + n\<rparr>"

definition row_sub :: "row_iter \<Rightarrow> int \<Rightarrow> row_iter" where
  "row_sub i n = i\<lparr>ri_index := ri_index i - n\<rparr>"

definition row_plus :: "row_iter \<Rightarrow> int \<Rightarrow> row_iter" where
  "row_plus i n = result_iter_at (ri_home i) (ri_index i + n)"

definition row_minus :: "row_iter \<Rightarrow> int \<Rightarrow> row_iter" where
  "row_minus i n = result_iter_at (ri_home i) (ri_index i - n)"

definition row_diff :: "row_iter \<Rightarrow> row_iter \<Rightarrow> int" where
  "row_diff i j = ri_index i - ri_index j"

definition row_eq :: "row_iter \<Rightarrow> row_iter \<Rightarrow> bool" where
  "row_eq i j \<longleftrightarrow> ri_index i = ri_index j"

definition row_ne :: "row_iter \<Rightarrow> row_iter \<Rightarrow> bool" where
  "row_ne i j \<longleftrightarrow> ri_index i \<noteq> ri_index j"

definition row_lt :: "row_iter \<Rightarrow> row_iter \<Rightarrow> bool" where
  "row_lt i j \<longleftrightarrow> ri_index i < ri_index j"

definition row_le :: "row_iter \<Rightarrow> row_iter \<Rightarrow> bool" where
  "row_le i j \<longleftrightarrow> ri_index i \<le> ri_index j"

definition row_gt :: "row_iter \<Rightarrow> row_iter \<Rightarrow> bool" where
  "row_gt i j \<longleftrightarrow> ri_index i > ri_index j"

definition row_ge :: "row_iter \<Rightarrow> row_iter \<Rightarrow> bool" where
  "row_ge i j \<longleftrightarrow> ri_index i \<ge> ri_index j"

definition row_reverse :: "row_iter \<Rightarrow> row_iter" where
  "row_reverse i = row_decr i"

definition row_rincr :: "row_iter \<Rightarrow> row_iter" where
  "row_rincr i = row_decr i"

definition row_rdecr :: "row_iter \<Rightarrow> row_iter" where
  "row_rdecr i = row_incr i"

definition row_radd :: "row_iter \<Rightarrow> int \<Rightarrow> row_iter" where
  "row_radd i n = row_sub i n"

definition row_rsub :: "row_iter \<Rightarrow> int \<Rightarrow> row_iter" where
  "row_rsub i n = row_add i n"

definition row_rplus :: "(row_iter \<Rightarrow> row_iter) \<Rightarrow> row_iter \<Rightarrow> int \<Rightarrow> row_iter" where
  "row_rplus base i n = row_reverse (row_minus (base i) n)"

definition row_rminus :: "(row_iter \<Rightarrow> row_iter) \<Rightarrow> row_iter \<Rightarrow> int \<Rightarrow> row_iter" where
  "row_rminus base i n = row_reverse (row_plus (base i) n)"

definition row_rdiff :: "row_iter \<Rightarrow> row_iter \<Rightarrow> int" where
  "row_rdiff i j = row_diff j i"

definition row_req :: "row_iter \<Rightarrow> row_iter \<Rightarrow> bool" where
  "row_req i j \<longleftrightarrow> row_eq i j"

definition row_rne :: "row_iter \<Rightarrow> row_iter \<Rightarrow> bool" where
  "row_rne i j \<longleftrightarrow> \<not> row_req i j"

definition row_rlt :: "row_iter \<Rightarrow> row_iter \<Rightarrow> bool" where
  "row_rlt i j \<longleftrightarrow> row_gt i j"

definition row_rle :: "row_iter \<Rightarrow> row_iter \<Rightarrow> bool" where
  "row_rle i j \<longleftrightarrow> row_ge i j"

definition row_rgt :: "row_iter \<Rightarrow> row_iter \<Rightarrow> bool" where
  "row_rgt i j \<longleftrightarrow> row_lt i j"

definition row_rge :: "row_iter \<Rightarrow> row_iter \<Rightarrow> bool" where
  "row_rge i j \<longleftrightarrow> row_le i j"

definition whole_rows :: "row_iter \<Rightarrow> bool" where
  "whole_rows i \<longleftrightarrow> ri_begin i = 0 \<and> ri_end i = int (res_columns (ri_home i))"

definition row_shift :: "row_iter \<Rightarrow> int \<Rightarrow> row_iter" where
  "row_shift i n = i\<lparr>ri_index := ri_index i + n\<rparr>"

lemmas row_ops =
    row_shift_def row_incr_def row_decr_def row_add_def row_sub_def row_plus_def row_minus_def row_diff_def
    row_eq_def row_ne_def row_lt_def row_le_def row_gt_def row_ge_def row_reverse_def row_rincr_def
    row_rdecr_def row_radd_def row_rsub_def row_rplus_def row_rminus_def row_rdiff_def row_req_def
    row_rne_def row_rlt_def row_rle_def row_rgt_def row_rge_def

interpretation result_back: reverse_access whole_rows row_shift ri_index row_incr row_decr row_add row_sub row_plus row_minus
    row_diff row_eq row_ne row_lt row_le row_gt row_ge row_reverse row_rincr row_rdecr row_radd row_rsub
    "row_rplus row_incr" "row_rminus row_incr" row_rdiff row_req row_rne row_rlt row_rle row_rgt row_rge
  by unfold_locales (auto simp: row_ops whole_rows_def result_iter_at_def)

section \<open>Both ways\<close>

text \<open>
  C31. The loop with reverse iterators, over the fields of a row or the rows of a result, ends after exactly
  the fields or rows that the loop forwards visits, in the opposite order; forwards they are those from the
  first to the last.
\<close>
theorem reverse_traversal:
  "visit col_ne col_incr (col_iter_of r k 0) (col_iter_of r k (int m)) = Some (map (\<lambda>c. col_iter_of r k (int c)) [0..<m]) \<and>
   visit col_rne col_rincr (col_reverse (col_iter_of r k (int m))) (col_reverse (col_iter_of r k 0)) =
     Some (rev (map (\<lambda>c. col_iter_of r k (int c)) [0..<m])) \<and>
   visit row_ne row_incr (result_iter_at r 0) (result_end r) = Some (map (\<lambda>i. result_iter_at r (int i)) [0..<res_size r]) \<and>
   visit row_rne row_rincr (row_reverse (result_end r)) (row_reverse (result_iter_at r 0)) =
     Some (rev (map (\<lambda>i. result_iter_at r (int i)) [0..<res_size r]))"
proof -
  let ?c = "\<lambda>n. col_iter_of r k (int n)" and ?w = "\<lambda>n. result_iter_at r (int n)"
  have c: "?c n = col_shift (?c 0) (int n)" and pc: "ci_col (?c n) = int n" for n
    by (simp_all add: col_iter_of_def col_shift_def)
  have w: "?w n = row_shift (?w 0) (int n)" and pw: "ri_index (?w n) = int n" for n
    by (simp_all add: result_iter_at_def row_shift_def)
  have "visit col_ne col_incr (?c 0) (?c m) = Some (map ?c [0..<m])"
    using row_back.visit_positions [of "?c m" "?c 0" m] by (simp only: pc c [symmetric])
  moreover have "visit row_ne row_incr (?w 0) (?w (res_size r)) = Some (map ?w [0..<res_size r])"
    using result_back.visit_positions [of "?w (res_size r)" "?w 0" "res_size r"] by (simp only: pw w [symmetric])
  moreover note row_back.visit_reverse [OF c, of m] result_back.visit_reverse [OF w, of "res_size r"]
  ultimately show ?thesis by (simp add: result_end_def)
qed

end
