(* ===== verification/Pqxx_Large_Object.thy ===== *)
theory Pqxx_Large_Object
  imports Pqxx_Composite
begin

text \<open>
  Streams on large objects (\<open>pqxx/largeobject.hxx\<close>): the stream buffer with its put and get areas, over an
  accessor that is compiled elsewhere.  \<open>large_object_output\<close> and \<open>large_object_input\<close> are the two directions;
  \<open>seek_moves_pending\<close> and \<open>sync_rereads\<close> say what seeking and flushing do to text in the buffers.
\<close>

section \<open>The accessor and the stream buffer\<close>

text \<open>
  What the accessor of a large object gives, compiled elsewhere: \<open>cwrite\<close>, \<open>cread\<close> and \<open>cseek\<close>, each with its
  result (minus one for a failure) and the accessor after it; \<open>cread\<close> also gives the bytes it read.
\<close>

datatype seekdir = From_start | From_current | From_end

record 'o lo_access =
  cwrite :: "'o \<Rightarrow> string \<Rightarrow> int \<times> 'o"
  cread :: "'o \<Rightarrow> nat \<Rightarrow> int \<times> string \<times> 'o"
  cseek :: "'o \<Rightarrow> int \<Rightarrow> seekdir \<Rightarrow> int \<times> 'o"

text \<open>
  The get area is its buffer with the positions of \<open>gptr\<close> and \<open>egptr\<close>, the put area its buffer with the
  position of \<open>pptr\<close>; either is absent when its pointers are null.  A new buffer is not initialised (here it
  holds zeros), and its size is cut to 32 bits where it is allocated.
\<close>

record 'o lo_streambuf =
  m_bufsize :: nat
  m_obj :: 'o
  get_area :: "(string \<times> nat \<times> nat) option"
  put_area :: "(string \<times> nat) option"

definition initialize_areas :: "bool \<Rightarrow> bool \<Rightarrow> 'o lo_streambuf \<Rightarrow> 'o lo_streambuf" where
  "initialize_areas mode_in mode_out sb =
     (let room = replicate (m_bufsize sb mod 2 ^ 32) (CHR 0x00);
          sb = (if mode_in then sb\<lparr>get_area := Some (room, 0, 0)\<rparr> else sb) in
      if mode_out then sb\<lparr>put_area := Some (room, 0)\<rparr> else sb)"

definition new_streambuf :: "'o \<Rightarrow> bool \<Rightarrow> bool \<Rightarrow> nat \<Rightarrow> 'o lo_streambuf" where
  "new_streambuf obj mode_in mode_out buf_size =
     initialize_areas mode_in mode_out \<lparr>m_bufsize = buf_size, m_obj = obj, get_area = None, put_area = None\<rparr>"

text \<open>The streams: for input, for output, and for both.\<close>

definition new_ilostream :: "'o \<Rightarrow> nat \<Rightarrow> 'o lo_streambuf" where
  "new_ilostream obj buf_size = new_streambuf obj True False buf_size"

definition new_olostream :: "'o \<Rightarrow> nat \<Rightarrow> 'o lo_streambuf" where
  "new_olostream obj buf_size = new_streambuf obj False True buf_size"

definition new_lostream :: "'o \<Rightarrow> nat \<Rightarrow> 'o lo_streambuf" where
  "new_lostream obj buf_size = new_streambuf obj True True buf_size"

section \<open>Output\<close>

text \<open>
  An end of file is minus one, and no character is \<open>None\<close>.  \<open>as_int\<close> is the conversion of a position to
  \<open>int\<close>, which cuts it to 32 bits.
\<close>

definition adjust_eof :: "int \<Rightarrow> int" where
  "adjust_eof pos = (if pos = - 1 then - 1 else pos)"

definition as_int :: "int \<Rightarrow> int" where
  "as_int p = (p + 2 ^ 31) mod 2 ^ 32 - 2 ^ 31"

definition start_put_area :: "int \<Rightarrow> char option \<Rightarrow> 'o lo_streambuf \<Rightarrow> (pqxx_error + int) \<times> 'o lo_streambuf" where
  "start_put_area res ch sb =
     (case put_area sb of
        None \<Rightarrow> (Inr res, sb)
      | Some (buf, pp) \<Rightarrow>
          (case ch of
             None \<Rightarrow> (Inr res, sb\<lparr>put_area := Some (buf, 0)\<rparr>)
           | Some c \<Rightarrow>
               (case put buf 0 c of
                  Inl e \<Rightarrow> (Inl e, sb\<lparr>put_area := Some (buf, 0)\<rparr>)
                | Inr buf \<Rightarrow> (Inr res, sb\<lparr>put_area := Some (buf, 1)\<rparr>))))"

definition overflow :: "'o lo_access \<Rightarrow> char option \<Rightarrow> 'o lo_streambuf \<Rightarrow> (pqxx_error + int) \<times> 'o lo_streambuf" where
  "overflow a ch sb =
     (case put_area sb of
        None \<Rightarrow> (Inr (- 1), sb)
      | Some (buf, pp) \<Rightarrow>
          (if pp > 0 then
             (let (written, obj) = cwrite a (m_obj sb) (take pp buf); sb = sb\<lparr>m_obj := obj\<rparr> in
              if written \<le> 0 then
                (Inl (internal_error (''pqxx::largeobject: write failed (is transaction still valid on write or flush?), '' @
                   ''libpq reports error'')), sb)
              else if int pp \<noteq> written then
                (Inl (internal_error (''pqxx::largeobject: write failed (is transaction still valid on write or flush?), '' @
                   dec (nat written) @ ''/'' @ dec pp @ '' bytes written'')), sb)
              else start_put_area (as_int (adjust_eof written)) ch sb)
           else start_put_area 0 ch sb))"

definition sync :: "'o lo_access \<Rightarrow> 'o lo_streambuf \<Rightarrow> (pqxx_error + int) \<times> 'o lo_streambuf" where
  "sync a sb = overflow a None (sb\<lparr>get_area := map_option (\<lambda>(buf, gp, eg). (buf, 0, eg)) (get_area sb)\<rparr>)"

text \<open>
  \<open>sputc\<close> of the standard stream buffer, and the loop of it that writes a text; it stops at an end of file or
  an exception.
\<close>

definition sputc :: "'o lo_access \<Rightarrow> char \<Rightarrow> 'o lo_streambuf \<Rightarrow> (pqxx_error + int) \<times> 'o lo_streambuf" where
  "sputc a c sb =
     (case put_area sb of
        None \<Rightarrow> overflow a (Some c) sb
      | Some (buf, pp) \<Rightarrow>
          (if pp < m_bufsize sb then
             (case put buf pp c of
                Inl e \<Rightarrow> (Inl e, sb)
              | Inr buf \<Rightarrow> (Inr (int (byte_of c)), sb\<lparr>put_area := Some (buf, pp + 1)\<rparr>))
           else overflow a (Some c) sb))"

fun sputn :: "'o lo_access \<Rightarrow> string \<Rightarrow> 'o lo_streambuf \<Rightarrow> (pqxx_error + bool) \<times> 'o lo_streambuf" where
  "sputn a [] sb = (Inr True, sb)"
| "sputn a (c # cs) sb =
     (case sputc a c sb of
        (Inl e, sb) \<Rightarrow> (Inl e, sb)
      | (Inr r, sb) \<Rightarrow> (if r = - 1 then (Inr False, sb) else sputn a cs sb))"

text \<open>The end of an output stream: two times \<open>sync\<close>, with a notice when one throws.\<close>

definition close_olostream :: "'o lo_access \<Rightarrow> 'o lo_streambuf \<Rightarrow> 'o lo_streambuf \<times> pqxx_error list" where
  "close_olostream a sb =
     (case sync a sb of
        (Inl e, sb) \<Rightarrow> (sb, [e])
      | (Inr r, sb) \<Rightarrow> (case sync a sb of (Inl e, sb) \<Rightarrow> (sb, [e]) | (Inr r, sb) \<Rightarrow> (sb, [])))"

section \<open>Input and seeking\<close>

text \<open>
  \<open>sgetc\<close> and \<open>sbumpc\<close> are the standard stream buffer's, and \<open>sgetn\<close> reads up to \<open>n\<close> characters with them.  A size
  below minus one would give pointers outside the buffer.
\<close>

definition underflow :: "'o lo_access \<Rightarrow> 'o lo_streambuf \<Rightarrow> (pqxx_error + char option) \<times> 'o lo_streambuf" where
  "underflow a sb =
     (case get_area sb of
        None \<Rightarrow> (Inr None, sb)
      | Some (buf, gp, eg) \<Rightarrow>
          (let (got, bytes, obj) = cread a (m_obj sb) (m_bufsize sb); res = adjust_eof got;
               buf = bytes @ drop (length bytes) buf; stop = (if res = - 1 then 0 else nat res);
               sb = sb\<lparr>m_obj := obj, get_area := Some (buf, 0, stop)\<rparr> in
           if res < - 1 then (Inl (read_out_of_bounds 0), sb)
           else if res = - 1 \<or> res = 0 then (Inr None, sb)
           else if buf = [] then (Inl (read_out_of_bounds 0), sb)
           else (Inr (Some (hd buf)), sb)))"

definition sgetc :: "'o lo_access \<Rightarrow> 'o lo_streambuf \<Rightarrow> (pqxx_error + char option) \<times> 'o lo_streambuf" where
  "sgetc a sb =
     (case get_area sb of
        None \<Rightarrow> underflow a sb
      | Some (buf, gp, eg) \<Rightarrow>
          (if gp < eg then
             (if gp < length buf then (Inr (Some (buf ! gp)), sb) else (Inl (read_out_of_bounds gp), sb))
           else underflow a sb))"

definition sbumpc :: "'o lo_access \<Rightarrow> 'o lo_streambuf \<Rightarrow> (pqxx_error + char option) \<times> 'o lo_streambuf" where
  "sbumpc a sb =
     (case sgetc a sb of
        (Inr (Some c), sb) \<Rightarrow>
          (Inr (Some c), sb\<lparr>get_area := map_option (\<lambda>(buf, gp, eg). (buf, gp + 1, eg)) (get_area sb)\<rparr>)
      | (r, sb) \<Rightarrow> (r, sb))"

fun sgetn :: "'o lo_access \<Rightarrow> nat \<Rightarrow> 'o lo_streambuf \<Rightarrow> (pqxx_error + string) \<times> 'o lo_streambuf" where
  "sgetn a 0 sb = (Inr [], sb)"
| "sgetn a (Suc n) sb =
     (case sbumpc a sb of
        (Inl e, sb) \<Rightarrow> (Inl e, sb)
      | (Inr None, sb) \<Rightarrow> (Inr [], sb)
      | (Inr (Some c), sb) \<Rightarrow>
          (case sgetn a n sb of (Inl e, sb) \<Rightarrow> (Inl e, sb) | (Inr cs, sb) \<Rightarrow> (Inr (c # cs), sb)))"

definition seekoff :: "'o lo_access \<Rightarrow> int \<Rightarrow> seekdir \<Rightarrow> 'o lo_streambuf \<Rightarrow> int \<times> 'o lo_streambuf" where
  "seekoff a offset dir sb = (let (pos, obj) = cseek a (m_obj sb) offset dir in (adjust_eof pos, sb\<lparr>m_obj := obj\<rparr>))"

definition seekpos :: "'o lo_access \<Rightarrow> int \<Rightarrow> 'o lo_streambuf \<Rightarrow> int \<times> 'o lo_streambuf" where
  "seekpos a pos sb =
     (let (newpos, obj) = cseek a (m_obj sb) pos From_start in (adjust_eof newpos, sb\<lparr>m_obj := obj\<rparr>))"

section \<open>What a large object is\<close>

text \<open>
  A large object is its contents and a position; writing overwrites or extends them there (with zeros in
  between, if the position is past the end) and moves on.  \<open>lo_contract\<close> is the documented behaviour of the
  accessor, where \<open>file\<close> gives the object an accessor is for: for less than two gigabytes at a time, \<open>cwrite\<close>
  gives minus one for an error (and then nothing is known of the object) or the number of bytes it has
  actually written, which may be fewer than asked; \<open>cread\<close> gives minus one or the bytes it has read, which
  may be fewer than asked but are none only at the end; \<open>cseek\<close> gives minus one or the position.
  \<open>lo_ok\<close> adds that no call fails and no write is cut short.
\<close>

type_synonym lo_file = "string \<times> nat"

definition overwrite :: "lo_file \<Rightarrow> string \<Rightarrow> lo_file" where
  "overwrite f s =
     (if s = [] then f
      else (take (snd f) (fst f) @ replicate (snd f - length (fst f)) (CHR 0x00) @ s @ drop (snd f + length s) (fst f),
            snd f + length s))"

definition unread :: "lo_file \<Rightarrow> string" where
  "unread f = drop (snd f) (fst f)"

definition writes_or_fails :: "lo_file \<Rightarrow> string \<Rightarrow> int \<Rightarrow> lo_file \<Rightarrow> bool" where
  "writes_or_fails f s r f' \<longleftrightarrow> r = - 1 \<or> (\<exists>w. w \<le> length s \<and> r = int w \<and> f' = overwrite f (take w s))"

definition reads_or_fails :: "lo_file \<Rightarrow> nat \<Rightarrow> int \<Rightarrow> string \<Rightarrow> lo_file \<Rightarrow> bool" where
  "reads_or_fails f n r bytes f' \<longleftrightarrow> length bytes \<le> n \<and>
     (r = - 1 \<or> r = int (length bytes) \<and> bytes = take (length bytes) (unread f) \<and> (bytes = [] \<longrightarrow> n = 0 \<or> unread f = []) \<and>
        f' = (fst f, snd f + length bytes))"

definition lo_contract :: "'o lo_access \<Rightarrow> ('o \<Rightarrow> lo_file) \<Rightarrow> bool" where
  "lo_contract a file \<longleftrightarrow>
     (\<forall>obj s. s \<noteq> [] \<and> length s < 2 ^ 31 \<longrightarrow>
        writes_or_fails (file obj) s (fst (cwrite a obj s)) (file (snd (cwrite a obj s)))) \<and>
     (\<forall>obj n. n < 2 ^ 31 \<longrightarrow>
        reads_or_fails (file obj) n (fst (cread a obj n)) (fst (snd (cread a obj n))) (file (snd (snd (cread a obj n))))) \<and>
     (\<forall>obj pos. fst (cseek a obj (int pos) From_start) = - 1 \<or>
        fst (cseek a obj (int pos) From_start) = int pos \<and>
        file (snd (cseek a obj (int pos) From_start)) = (fst (file obj), pos))"

definition lo_ok :: "'o lo_access \<Rightarrow> ('o \<Rightarrow> lo_file) \<Rightarrow> bool" where
  "lo_ok a file \<longleftrightarrow> lo_contract a file \<and>
     (\<forall>obj s. s \<noteq> [] \<and> length s < 2 ^ 31 \<longrightarrow> fst (cwrite a obj s) = int (length s)) \<and>
     (\<forall>obj n. n < 2 ^ 31 \<longrightarrow> fst (cread a obj n) \<noteq> - 1) \<and>
     (\<forall>obj pos. fst (cseek a obj (int pos) From_start) \<noteq> - 1)"

lemma lo_okD [dest]: "lo_ok a file \<Longrightarrow> lo_contract a file"
  by (simp add: lo_ok_def)

lemma lo_write:
  "lo_contract a file \<Longrightarrow> cwrite a obj s = (r, obj') \<Longrightarrow> s \<noteq> [] \<Longrightarrow> length s < 2 ^ 31 \<Longrightarrow>
     writes_or_fails (file obj) s r (file obj')"
  unfolding lo_contract_def by (metis fst_conv snd_conv)

lemma lo_ok_write:
  "lo_ok a file \<Longrightarrow> cwrite a obj s = (r, obj') \<Longrightarrow> s \<noteq> [] \<Longrightarrow> length s < 2 ^ 31 \<Longrightarrow> r = int (length s)"
  unfolding lo_ok_def by (metis fst_conv)

lemma lo_read:
  "lo_contract a file \<Longrightarrow> cread a obj n = (r, bytes, obj') \<Longrightarrow> n < 2 ^ 31 \<Longrightarrow>
     reads_or_fails (file obj) n r bytes (file obj')"
  unfolding lo_contract_def by (metis fst_conv snd_conv)

lemma lo_ok_read: "lo_ok a file \<Longrightarrow> cread a obj n = (r, bytes, obj') \<Longrightarrow> n < 2 ^ 31 \<Longrightarrow> r \<noteq> - 1"
  unfolding lo_ok_def by (metis fst_conv)

section \<open>Writing\<close>

text \<open>
  The text not yet written, the object as the user of the stream has written it, and a put area that is in
  order.
\<close>

definition pending :: "'o lo_streambuf \<Rightarrow> string" where
  "pending sb = (case put_area sb of None \<Rightarrow> [] | Some (buf, pp) \<Rightarrow> take pp buf)"

definition written_file :: "('o \<Rightarrow> lo_file) \<Rightarrow> 'o lo_streambuf \<Rightarrow> lo_file" where
  "written_file file sb = overwrite (file (m_obj sb)) (pending sb)"

definition put_area_ok :: "'o lo_streambuf \<Rightarrow> bool" where
  "put_area_ok sb \<longleftrightarrow> 0 < m_bufsize sb \<and> m_bufsize sb < 2 ^ 31 \<and>
     (\<exists>buf pp. put_area sb = Some (buf, pp) \<and> length buf = m_bufsize sb \<and> pp \<le> m_bufsize sb)"

definition opt_text :: "char option \<Rightarrow> string" where
  "opt_text ch = (case ch of None \<Rightarrow> [] | Some c \<Rightarrow> [c])"

lemma as_int_id: "0 \<le> x \<Longrightarrow> x < 2 ^ 31 \<Longrightarrow> as_int x = x"
  by (simp add: as_int_def)

lemma start_put_area_ok:
  assumes "put_area_ok sb"
  shows "\<exists>sb'. start_put_area r ch sb = (Inr r, sb') \<and> put_area_ok sb' \<and> m_obj sb' = m_obj sb \<and>
    pending sb' = opt_text ch \<and> get_area sb' = get_area sb \<and> m_bufsize sb' = m_bufsize sb"
proof -
  from assms obtain buf pp where b: "put_area sb = Some (buf, pp)" "length buf = m_bufsize sb" "0 < length buf"
    by (auto simp: put_area_ok_def)
  then obtain x xs where "buf = x # xs" by (cases buf) auto
  with b assms show ?thesis
    by (cases ch) (auto simp: start_put_area_def put_area_ok_def pending_def opt_text_def put_def)
qed

text \<open>
  Flushing either succeeds, and then the object has all that was written, or it fails; the put area stays
  in order in either case.
\<close>

lemma overflow_step:
  assumes lo: "lo_contract a file" and ok: "put_area_ok sb"
  shows "\<exists>r sb'. overflow a ch sb = (r, sb') \<and> put_area_ok sb' \<and> get_area sb' = get_area sb \<and> m_bufsize sb' = m_bufsize sb \<and>
    (\<forall>p. r = Inr p \<longrightarrow> 0 \<le> p \<and> file (m_obj sb') = written_file file sb \<and> pending sb' = opt_text ch) \<and>
    (lo_ok a file \<longrightarrow> \<not> isl r)"
proof -
  from ok obtain buf pp where b: "put_area sb = Some (buf, pp)" "length buf = m_bufsize sb" "pp \<le> m_bufsize sb" "m_bufsize sb < 2 ^ 31"
    by (auto simp: put_area_ok_def)
  show ?thesis
  proof (cases "pp = 0")
    case True
    with b start_put_area_ok [OF ok, of 0 ch] show ?thesis
      by (auto simp: overflow_def written_file_def pending_def overwrite_def)
  next
    case False
    with b have ne: "take pp buf \<noteq> []" and len: "length (take pp buf) = pp" by auto
    obtain w obj' where c: "cwrite a (m_obj sb) (take pp buf) = (w, obj')" by fastforce
    have "length (take pp buf) < 2 ^ 31" using len b(3,4) by simp
    note w = lo_write [OF lo c ne this] and full = lo_ok_write [OF _ c ne this, of "file", unfolded len]
    let ?sb = "sb\<lparr>m_obj := obj'\<rparr>"
    have ok1: "put_area_ok ?sb" using ok by (simp add: put_area_ok_def)
    show ?thesis
    proof (cases "w = int pp")
      case True
      with w len False have f: "file obj' = overwrite (file (m_obj sb)) (take pp buf)"
        by (auto simp: writes_or_fails_def)
      have "as_int (adjust_eof w) = int pp" using True b(3,4) by (simp add: adjust_eof_def as_int_id)
      with start_put_area_ok [OF ok1, of "int pp" ch] True False b(1) c f show ?thesis
        by (auto simp: overflow_def written_file_def pending_def)
    next
      case n: False
      then have "\<exists>e. overflow a ch sb = (Inl e, ?sb)" using False b(1) c by (simp add: overflow_def Let_def)
      with full n ok1 show ?thesis by force
    qed
  qed
qed

lemma sync_step:
  assumes "lo_contract a file" and "put_area_ok sb"
  shows "\<exists>r sb'. sync a sb = (r, sb') \<and> put_area_ok sb' \<and>
    (\<forall>p. r = Inr p \<longrightarrow> file (m_obj sb') = written_file file sb \<and> pending sb' = [] \<and> written_file file sb' = written_file file sb) \<and>
    (lo_ok a file \<longrightarrow> \<not> isl r)"
proof -
  let ?sb = "sb\<lparr>get_area := map_option (\<lambda>(buf, gp, eg). (buf, 0, eg)) (get_area sb)\<rparr>"
  have "put_area_ok ?sb" "written_file file ?sb = written_file file sb"
    using assms(2) by (simp_all add: put_area_ok_def written_file_def pending_def)
  with overflow_step [OF assms(1), of ?sb None] obtain r sb' where o: "overflow a None ?sb = (r, sb')" "put_area_ok sb'"
    "\<forall>p. r = Inr p \<longrightarrow> 0 \<le> p \<and> file (m_obj sb') = written_file file sb \<and> pending sb' = opt_text None"
    "lo_ok a file \<longrightarrow> \<not> isl r" by auto
  have "pending sb' = [] \<longrightarrow> written_file file sb' = file (m_obj sb')" by (simp add: written_file_def overwrite_def)
  with o show ?thesis by (auto simp: sync_def opt_text_def)
qed




lemma close_olostream_step:
  assumes "lo_contract a file" and "put_area_ok sb"
  shows "\<exists>sb' notices. close_olostream a sb = (sb', notices) \<and>
    (notices = [] \<longrightarrow> file (m_obj sb') = written_file file sb) \<and> (lo_ok a file \<longrightarrow> notices = [])"
proof -
  from sync_step [OF assms] obtain r sb1 where 1: "sync a sb = (r, sb1)" "put_area_ok sb1"
    "\<forall>p. r = Inr p \<longrightarrow> file (m_obj sb1) = written_file file sb \<and> pending sb1 = [] \<and> written_file file sb1 = written_file file sb"
    "lo_ok a file \<longrightarrow> \<not> isl r" by blast
  from sync_step [OF assms(1) 1(2)] obtain r' sb2 where 2: "sync a sb1 = (r', sb2)"
    "\<forall>p. r' = Inr p \<longrightarrow> file (m_obj sb2) = written_file file sb1" "lo_ok a file \<longrightarrow> \<not> isl r'" by blast
  from 1 2 show ?thesis by (cases r; cases r') (simp_all add: close_olostream_def)
qed

lemma close_olostream_ok:
  "lo_ok a file \<Longrightarrow> put_area_ok sb \<Longrightarrow> \<exists>sb'. close_olostream a sb = (sb', []) \<and> file (m_obj sb') = written_file file sb"
  using close_olostream_step [of a "file" sb] by auto


definition plain_access :: "lo_file lo_access" where
  "plain_access =
     \<lparr>cwrite = \<lambda>f s. (int (length s), overwrite f s),
      cread = \<lambda>f n. (let bytes = take n (drop (snd f) (fst f)) in (int (length bytes), bytes, (fst f, snd f + length bytes))),
      cseek = \<lambda>f p d. (let pos = nat (case d of From_start \<Rightarrow> p | From_current \<Rightarrow> int (snd f) + p | From_end \<Rightarrow> int (length (fst f)) + p)
                       in (int pos, (fst f, pos)))\<rparr>"

lemma take_of_take: "take (length (take n xs)) xs = take n xs"
  by (cases "n \<le> length xs") simp_all

lemma plain_access_ok: "lo_ok plain_access (\<lambda>f. f)"
proof -
  have "writes_or_fails f s (int (length s)) (overwrite f s)" for f s
    unfolding writes_or_fails_def by (intro disjI2 exI [of _ "length s"]) simp
  moreover have "reads_or_fails f n (int (length (take n (unread f)))) (take n (unread f)) (fst f, snd f + length (take n (unread f)))"
    for f n using take_of_take [of n "unread f"] by (auto simp: reads_or_fails_def)
  ultimately show ?thesis by (simp add: lo_ok_def lo_contract_def plain_access_def unread_def Let_def)
qed


section \<open>Reading\<close>

text \<open>The characters that are still to come, and a get area that is in order.\<close>

definition to_come :: "('o \<Rightarrow> lo_file) \<Rightarrow> 'o lo_streambuf \<Rightarrow> string" where
  "to_come file sb =
     (case get_area sb of None \<Rightarrow> [] | Some (buf, gp, eg) \<Rightarrow> segment buf gp eg) @ unread (file (m_obj sb))"

definition get_area_ok :: "'o lo_streambuf \<Rightarrow> bool" where
  "get_area_ok sb \<longleftrightarrow> 0 < m_bufsize sb \<and> m_bufsize sb < 2 ^ 31 \<and>
     (\<exists>buf gp eg. get_area sb = Some (buf, gp, eg) \<and> length buf = m_bufsize sb \<and> gp \<le> eg \<and> eg \<le> length buf)"

text \<open>
  Looking at the next character gives it, or the end if there is none; or a call of the accessor fails, which
  looks like the end.
\<close>

lemma sgetc_step:
  assumes lo: "lo_contract a file" and ok: "get_area_ok sb"
  shows "\<exists>x sb'. sgetc a sb = (Inr x, sb') \<and> get_area_ok sb' \<and> put_area sb' = put_area sb \<and>
    (x = None \<and> \<not> lo_ok a file \<or>
     x = (case to_come file sb of [] \<Rightarrow> None | c # cs \<Rightarrow> Some c) \<and> to_come file sb' = to_come file sb \<and>
       (to_come file sb \<noteq> [] \<longrightarrow> (\<exists>buf gp eg. get_area sb' = Some (buf, gp, eg) \<and> gp < eg)))"
proof -
  from ok obtain buf gp eg where b: "get_area sb = Some (buf, gp, eg)" "length buf = m_bufsize sb" "gp \<le> eg" "eg \<le> length buf"
    "0 < m_bufsize sb" "m_bufsize sb < 2 ^ 31" by (auto simp: get_area_ok_def)
  show ?thesis
  proof (cases "gp < eg")
    case True
    with b have "segment buf gp eg = buf ! gp # segment buf (Suc gp) eg"
      by (simp add: segment_def Cons_nth_drop_Suc [symmetric] take_Cons' Suc_diff_Suc)
    with True b ok show ?thesis by (simp add: sgetc_def to_come_def)
  next
    case False
    let ?f = "file (m_obj sb)" and ?n = "m_bufsize sb"
    obtain r bytes obj' where c: "cread a (m_obj sb) ?n = (r, bytes, obj')" by (metis prod_cases3)
    note rd = lo_read [OF lo c b(6)]
    then have len: "length bytes \<le> length buf" using b(2) by (simp add: reads_or_fails_def)
    let ?sb = "\<lambda>stop. sb\<lparr>m_obj := obj', get_area := Some (bytes @ drop (length bytes) buf, 0, stop)\<rparr>"
    have ar: "get_area_ok (?sb stop)" if "stop \<le> length bytes" for stop
      using that ok b(2) len by (simp add: get_area_ok_def)
    have left: "to_come file sb = unread ?f" using False b by (simp add: to_come_def segment_def)
    show ?thesis
    proof (cases "r = - 1")
      case True
      then have "sgetc a sb = (Inr None, ?sb 0)"
        using False b(1) c by (simp add: sgetc_def underflow_def adjust_eof_def)
      moreover have "\<not> lo_ok a file" using True lo_ok_read [OF _ c b(6), of "file"] by blast
      ultimately show ?thesis using ar [of 0] by auto
    next
      case n: False
      with rd have r: "r = int (length bytes)" "bytes = take (length bytes) (unread ?f)" "bytes = [] \<longrightarrow> unread ?f = []"
        "file obj' = (fst ?f, snd ?f + length bytes)" using b(5) by (auto simp: reads_or_fails_def)
      have "bytes @ drop (length bytes) (unread ?f) = unread ?f"
        by (subst (1) r(2)) (rule append_take_drop_id)
      then have rest: "bytes @ unread (file obj') = unread ?f" by (simp add: unread_def r(4) add.commute)
      then have tc: "to_come file (?sb (length bytes)) = to_come file sb" unfolding left by (simp add: to_come_def segment_def)
      have "sgetc a sb = (Inr (case unread ?f of [] \<Rightarrow> None | c # cs \<Rightarrow> Some c), ?sb (length bytes))"
      proof (cases bytes)
        case Nil
        with r(1,3) False b c show ?thesis by (simp add: sgetc_def underflow_def adjust_eof_def)
      next
        case (Cons d ds)
        with rest have "unread ?f = d # ds @ unread (file obj')" by simp
        with Cons r(1) False b(1) c show ?thesis by (simp add: sgetc_def underflow_def adjust_eof_def)
      qed
      with tc ar [of "length bytes"] left r(3) show ?thesis by auto
    qed
  qed
qed

lemma sbumpc_step:
  assumes lo: "lo_contract a file" and ok: "get_area_ok sb"
  shows "\<exists>x sb'. sbumpc a sb = (Inr x, sb') \<and> get_area_ok sb' \<and> put_area sb' = put_area sb \<and>
    (x = None \<and> \<not> lo_ok a file \<or>
     x = (case to_come file sb of [] \<Rightarrow> None | c # cs \<Rightarrow> Some c) \<and> to_come file sb' = tl (to_come file sb))"
proof -
  from sgetc_step [OF assms] obtain x sb1 where 1: "sgetc a sb = (Inr x, sb1)" "get_area_ok sb1" "put_area sb1 = put_area sb"
    and x: "x = None \<and> \<not> lo_ok a file \<or>
     x = (case to_come file sb of [] \<Rightarrow> None | c # cs \<Rightarrow> Some c) \<and> to_come file sb1 = to_come file sb \<and>
       (to_come file sb \<noteq> [] \<longrightarrow> (\<exists>buf gp eg. get_area sb1 = Some (buf, gp, eg) \<and> gp < eg))" by blast
  show ?thesis
  proof (cases x)
    case None
    with 1 x show ?thesis by (auto simp: sbumpc_def split: list.splits)
  next
    case (Some c)
    with x obtain cs where c: "to_come file sb = c # cs" "to_come file sb1 = c # cs" by (auto split: list.splits)
    with Some x obtain buf gp eg where b: "get_area sb1 = Some (buf, gp, eg)" "gp < eg" by auto
    with 1(2) have e: "eg \<le> length buf" by (auto simp: get_area_ok_def)
    let ?sb = "sb1\<lparr>get_area := Some (buf, gp + 1, eg)\<rparr>"
    have "sbumpc a sb = (Inr (Some c), ?sb)" using 1(1) Some b(1) by (simp add: sbumpc_def)
    moreover have "get_area_ok ?sb" using 1(2) b by (simp add: get_area_ok_def)
    moreover have "segment buf gp eg = buf ! gp # segment buf (Suc gp) eg"
      using b(2) e by (simp add: segment_def Cons_nth_drop_Suc [symmetric] take_Cons' Suc_diff_Suc)
    with c b have "to_come file ?sb = cs" by (simp add: to_come_def)
    ultimately show ?thesis using c 1(3) by auto
  qed
qed

lemma sgetn_step:
  "lo_contract a file \<Longrightarrow> get_area_ok sb \<Longrightarrow>
    \<exists>xs sb'. sgetn a k sb = (Inr xs, sb') \<and> get_area_ok sb' \<and> put_area sb' = put_area sb \<and>
      length xs \<le> k \<and> xs = take (length xs) (to_come file sb) \<and>
      (length xs = k \<longrightarrow> to_come file sb' = drop k (to_come file sb)) \<and>
      (lo_ok a file \<longrightarrow> xs = take k (to_come file sb) \<and> to_come file sb' = drop k (to_come file sb))"
proof (induction k arbitrary: sb)
  case (Suc k)
  from sbumpc_step [OF Suc.prems] obtain x sb1 where 1: "sbumpc a sb = (Inr x, sb1)" "get_area_ok sb1" "put_area sb1 = put_area sb"
    and x: "x = None \<and> \<not> lo_ok a file \<or>
     x = (case to_come file sb of [] \<Rightarrow> None | c # cs \<Rightarrow> Some c) \<and> to_come file sb1 = tl (to_come file sb)" by blast
  show ?case
  proof (cases x)
    case None
    with 1 x show ?thesis by (auto split: list.splits)
  next
    case (Some c)
    with x obtain cs where c: "to_come file sb = c # cs" "to_come file sb1 = cs" by (auto split: list.splits)
    from Suc.IH [OF Suc.prems(1) 1(2)] obtain xs sb2 where 2: "sgetn a k sb1 = (Inr xs, sb2)" "get_area_ok sb2"
      "put_area sb2 = put_area sb1" "length xs \<le> k" "xs = take (length xs) cs"
      "length xs = k \<longrightarrow> to_come file sb2 = drop k cs"
      "lo_ok a file \<longrightarrow> xs = take k cs \<and> to_come file sb2 = drop k cs" unfolding c(2) by blast
    have "sgetn a (Suc k) sb = (Inr (c # xs), sb2)" using 1(1) 2(1) Some by simp
    moreover have "c # xs = take (length (c # xs)) (to_come file sb)" using 2(5) c(1) by simp
    ultimately show ?thesis using 1(3) 2 c(1) by auto
  qed
qed simp

lemma new_ilostream_ok:
  assumes "0 < n" and "n < 2 ^ 31"
  shows "get_area_ok (new_ilostream obj n)" "to_come file (new_ilostream obj n) = unread (file obj)"
    "get_area_ok (new_lostream obj n)" "to_come file (new_lostream obj n) = unread (file obj)"
  using assms
  by (simp_all add: new_ilostream_def new_lostream_def new_streambuf_def initialize_areas_def get_area_ok_def
      to_come_def segment_def Let_def)

text \<open>
  C33. An input stream on a large object, with a buffer of any size up to 2^31 - 1 characters, over an
  accessor that behaves as documented (for less than two gigabytes, a read gives minus one or the bytes
  actually read, which may be fewer than asked but are none only at the end): reading up to \<open>j\<close> and then
  up to \<open>k\<close> characters never throws; the first gives characters of the object's contents, in order, from
  the position it had, and if it gives all \<open>j\<close>, the second gives the ones that follow.  A failed read
  looks like the end of the object.  If no read fails, both give all the characters asked for, fewer
  only at the end of the object.
\<close>
theorem large_object_input:
  assumes "lo_contract a file" and "0 < n" and "n < 2 ^ 31"
  shows "\<exists>xs sb1 ys sb2. sgetn a j (new_ilostream obj n) = (Inr xs, sb1) \<and> sgetn a k sb1 = (Inr ys, sb2) \<and>
    length xs \<le> j \<and> length ys \<le> k \<and> xs = take (length xs) (unread (file obj)) \<and>
    (length xs = j \<longrightarrow> ys = take (length ys) (drop j (unread (file obj)))) \<and>
    (lo_ok a file \<longrightarrow> xs = take j (unread (file obj)) \<and> ys = take k (drop j (unread (file obj))))"
proof -
  note new = new_ilostream_ok [OF assms(2,3)]
  from sgetn_step [OF assms(1) new(1), of j obj] obtain xs sb1 where 1: "sgetn a j (new_ilostream obj n) = (Inr xs, sb1)"
    "get_area_ok sb1" "length xs \<le> j" "xs = take (length xs) (unread (file obj))"
    "length xs = j \<longrightarrow> to_come file sb1 = drop j (unread (file obj))"
    "lo_ok a file \<longrightarrow> xs = take j (unread (file obj)) \<and> to_come file sb1 = drop j (unread (file obj))"
    unfolding new(2) by blast
  from sgetn_step [OF assms(1) 1(2), of k] obtain ys sb2 where 2: "sgetn a k sb1 = (Inr ys, sb2)" "length ys \<le> k"
    "ys = take (length ys) (to_come file sb1)" "lo_ok a file \<longrightarrow> ys = take k (to_come file sb1)" by blast
  from 1 2 show ?thesis by metis
qed

lemma large_object_input_witness:
  "\<exists>sb1 sb2. sgetn plain_access 3 (new_ilostream (''abcdefgh'', 2) 2) = (Inr (take 3 (unread (''abcdefgh'', 2))), sb1) \<and>
    sgetn plain_access 9 sb1 = (Inr (take 9 (drop 3 (unread (''abcdefgh'', 2)))), sb2)"
  using large_object_input [OF lo_okD [OF plain_access_ok], of 2 3 "(''abcdefgh'', 2)" 9] plain_access_ok by auto

section \<open>Seeking and flushing with text in the buffers\<close>

text \<open>
  Seeking does not flush: what was put before, and still is in the buffer, is written at the new position.
\<close>

lemma sputn_buffered:
  "put_area sb = Some (buf, pp) \<Longrightarrow> length buf = m_bufsize sb \<Longrightarrow> pp + length s \<le> m_bufsize sb \<Longrightarrow>
    \<exists>buf'. sputn a s sb = (Inr True, sb\<lparr>put_area := Some (buf', pp + length s)\<rparr>) \<and> length buf' = length buf \<and>
      take (pp + length s) buf' = take pp buf @ s"
proof (induction s arbitrary: sb buf pp)
  case Nil
  then show ?case by (cases sb) simp
next
  case (Cons c s)
  let ?sb = "sb\<lparr>put_area := Some (buf[pp := c], pp + 1)\<rparr>"
  from Cons.prems have "sputc a c sb = (Inr (int (byte_of c)), ?sb)" by (simp add: sputc_def put_def)
  moreover from Cons.prems have "take (pp + 1) (buf[pp := c]) = take pp buf @ [c]" by (simp add: take_Suc_conv_app_nth)
  moreover from Cons.IH [of ?sb "buf[pp := c]" "pp + 1"] Cons.prems obtain buf' where
    "sputn a s ?sb = (Inr True, ?sb\<lparr>put_area := Some (buf', pp + 1 + length s)\<rparr>)" "length buf' = length buf"
    "take (pp + 1 + length s) buf' = take (pp + 1) (buf[pp := c]) @ s" by auto
  ultimately show ?case by auto
qed

lemma seek_moves_pending:
  assumes "lo_ok a file" and "s \<noteq> []" and "length s \<le> n" and "n < 2 ^ 31"
  shows "\<exists>sb1 sb2 sb3. sputn a s (new_olostream obj n) = (Inr True, sb1) \<and> seekpos a (int p) sb1 = (int p, sb2) \<and>
    close_olostream a sb2 = (sb3, []) \<and> file (m_obj sb3) = overwrite (fst (file obj), p) s"
proof -
  have n: "0 < n" using assms(2,3) by (cases s) auto
  let ?new = "new_olostream obj n"
  have "put_area ?new = Some (replicate n (CHR 0x00), 0)" "m_bufsize ?new = n" "m_obj ?new = obj"
    using assms(4) by (simp_all add: new_olostream_def new_streambuf_def initialize_areas_def Let_def)
  with sputn_buffered [of ?new "replicate n (CHR 0x00)" 0 s a] assms(3) obtain buf' where
    1: "sputn a s ?new = (Inr True, ?new\<lparr>put_area := Some (buf', length s)\<rparr>)" "length buf' = n" "take (length s) buf' = s"
    by auto
  let ?sb1 = "?new\<lparr>put_area := Some (buf', length s)\<rparr>"
  obtain obj' where k: "cseek a obj (int p) From_start = (int p, obj')" "file obj' = (fst (file obj), p)"
    using assms(1) unfolding lo_ok_def lo_contract_def by (metis prod.collapse)
  let ?sb2 = "?sb1\<lparr>m_obj := obj'\<rparr>"
  have s: "seekpos a (int p) ?sb1 = (int p, ?sb2)"
    using k(1) \<open>m_obj ?new = obj\<close> by (simp add: seekpos_def adjust_eof_def)
  have "put_area_ok ?sb2" using 1(2) n assms(3,4) \<open>m_bufsize ?new = n\<close> by (simp add: put_area_ok_def)
  from close_olostream_ok [OF assms(1) this] obtain sb3 where
    "close_olostream a ?sb2 = (sb3, [])" "file (m_obj sb3) = written_file file ?sb2" by blast
  moreover have "written_file file ?sb2 = overwrite (fst (file obj), p) s"
    using 1(3) k(2) by (simp add: written_file_def pending_def)
  ultimately show ?thesis using 1(1) s by auto
qed

text \<open>
  Flushing a stream for both sets its get area back to the start of its buffer: what was read from the
  buffer is read once more.
\<close>

lemma sync_rereads:
  assumes "lo_ok a file" and "put_area_ok sb" and "get_area sb = Some (buf, gp, eg)" and "eg \<le> length buf" and "put_area sb = Some (pbuf, 0)"
    and "k \<le> eg" and "m_bufsize sb = length buf" and "buf \<noteq> []"
  shows "\<exists>r sb1 sb2. sync a sb = (Inr r, sb1) \<and> sgetn a k sb1 = (Inr (take k buf), sb2)"
proof -
  let ?sb = "sb\<lparr>get_area := Some (buf, 0, eg)\<rparr>"
  have "sync a sb = (Inr 0, ?sb)" using assms(3,5) by (simp add: sync_def overflow_def start_put_area_def)
  moreover have "get_area_ok ?sb" using assms(2,4,7,8) by (simp add: get_area_ok_def put_area_ok_def)
  from sgetn_step [OF lo_okD [OF assms(1)] this, of k] assms(1) obtain sb2
    where "sgetn a k ?sb = (Inr (take k (to_come file ?sb)), sb2)" by blast
  moreover have "take k (to_come file ?sb) = take k buf" using assms(4,6) by (simp add: to_come_def segment_def min_def)
  ultimately show ?thesis by auto
qed

end
