(* ===== verification/Pqxx_Stream.thy ===== *)
theory Pqxx_Stream
  imports Pqxx_Result
begin

text \<open>
  Streaming a query in the database client (\<open>pqxx/internal/stream_query.hxx\<close>,
  \<open>pqxx/internal/stream_query_impl.hxx\<close>): opening the stream, reading its lines, and splitting,
  unescaping and converting the fields of a line.  The lines are in PostgreSQL's text format for
  \<open>COPY\<close>; \<open>copy_line\<close> below is that format, and the parser is shown to invert it.

  Assertions are compiled in.  \<open>PQXX_ASSUME\<close> is a statement without effect on a compiler without the
  \<open>assume\<close> attribute and a promise to the optimiser on one with it: \<open>have_assume\<close> says which.
\<close>

section \<open>Characters\<close>

definition tab :: char where
  "tab = CHR 0x09"

definition nul :: char where
  "nul = CHR 0x00"

definition unescape_char :: "char \<Rightarrow> char" where
  "unescape_char escaped =
     (if escaped = CHR ''b'' then CHR 0x08
      else if escaped = CHR ''f'' then CHR 0x0C
      else if escaped = CHR ''n'' then CHR 0x0A
      else if escaped = CHR ''r'' then CHR 0x0D
      else if escaped = CHR ''t'' then CHR 0x09
      else if escaped = CHR ''v'' then CHR 0x0B
      else escaped)"

definition char_at :: "string \<Rightarrow> nat \<Rightarrow> pqxx_error + char" where
  "char_at lp i = (if i < length lp then Inr (lp ! i) else Inl (read_out_of_bounds i))"

definition assert_that :: "bool \<Rightarrow> pqxx_error + unit" where
  "assert_that b = (if b then Inr () else Inl terminates)"

definition assume_that :: "bool \<Rightarrow> bool \<Rightarrow> pqxx_error + unit" where
  "assume_that have_assume b = (if have_assume then pqxx_assume b else Inr ())"

lemma checks [simp]:
  "i < length lp \<Longrightarrow> char_at lp i = Inr (lp ! i)"
  "assert_that True = Inr ()"
  "assume_that h True = Inr ()"
  "assume_that False b = Inr ()"
  by (simp_all add: char_at_def assert_that_def assume_that_def)

lemma other_place: "lp ! i \<noteq> lp ! j \<Longrightarrow> \<not> j < i \<Longrightarrow> j < length lp \<Longrightarrow> length lp - j < length lp - i"
  by (cases "i = j") auto

section \<open>Reading a field\<close>

type_synonym char_finder_func = "string \<Rightarrow> nat \<Rightarrow> nat \<Rightarrow> pqxx_error + nat"

text \<open>
  \<open>lp\<close> is the memory of the line, \<open>sz\<close> the length of the line without the tab that ends it; \<open>mem\<close> is
  the row buffer and \<open>write\<close> the position in it.  \<open>read_loop\<close> is the loop of \<open>read_field\<close>.  A finder that
  goes back makes the size of the copy wrap.
\<close>

function read_loop ::
    "bool \<Rightarrow> char_finder_func \<Rightarrow> string \<Rightarrow> nat \<Rightarrow> nat \<Rightarrow> nat \<Rightarrow> string \<Rightarrow> pqxx_error + nat \<times> nat \<times> string" where
  "read_loop have_assume finder lp sz offset write mem =
     (case char_at lp offset of
        Inl e \<Rightarrow> Inl e
      | Inr c \<Rightarrow>
          if c = tab then Inr (offset, write, mem)
          else if c = nul then Inl terminates
          else
            (case finder lp sz offset of
               Inl e \<Rightarrow> Inl e
             | Inr stop_char \<Rightarrow>
                 if have_assume \<and> \<not> stop_char > offset then Inl assumption_failed
                 else if \<not> stop_char < sz + 1 then Inl terminates
                 else if stop_char < offset then Inl (write_out_of_bounds write)
                 else
                   (case and_then (copy_to mem write (segment lp offset stop_char)) (\<lambda>mem.
                        and_then (char_at lp stop_char) (\<lambda>special. Inr (special, mem))) of
                      Inl e \<Rightarrow> Inl e
                    | Inr (special, mem) \<Rightarrow>
                        if special = backslash then
                          (case and_then (assert_that (stop_char + 1 < sz)) (\<lambda>_.
                               and_then (char_at lp (stop_char + 1)) (\<lambda>escaped.
                               and_then (assert_that (ascii escaped)) (\<lambda>_.
                                 put mem (write + (stop_char - offset)) (unescape_char escaped)))) of
                             Inl e \<Rightarrow> Inl e
                           | Inr mem \<Rightarrow>
                               read_loop have_assume finder lp sz (stop_char + 2) (write + (stop_char - offset) + 1) mem)
                        else if special = tab then
                          read_loop have_assume finder lp sz stop_char (write + (stop_char - offset)) mem
                        else Inl terminates)))"
  by pat_completeness auto
termination
  by (relation "measure (\<lambda>(h, finder, lp, sz, offset, write, mem). length lp - offset)")
    (auto simp: char_at_def and_then_Inr tab_def split: if_splits intro: other_place)

declare read_loop.simps [simp del]

text \<open>The text is \<open>None\<close> for null.\<close>

definition read_field ::
    "bool \<Rightarrow> char_finder_func \<Rightarrow> string \<Rightarrow> nat \<Rightarrow> nat \<Rightarrow> nat \<Rightarrow> string \<Rightarrow>
       pqxx_error + nat \<times> nat \<times> string option \<times> string" where
  "read_field have_assume finder lp sz offset write mem =
     and_then (assert_that (offset \<le> sz)) (\<lambda>_.
     and_then (char_at lp sz) (\<lambda>last_char.
     and_then (assert_that (last_char = tab)) (\<lambda>_.
     and_then (char_at lp (sz + 1)) (\<lambda>end_char.
     and_then (assert_that (end_char = nul)) (\<lambda>_.
     and_then (char_at lp offset) (\<lambda>first_char.
     and_then (if first_char = backslash then and_then (char_at lp (offset + 1)) (\<lambda>c. Inr (c = CHR ''N'')) else Inr False)
       (\<lambda>null_mark.
        if null_mark then
          and_then (assert_that (offset + 3 \<le> sz + 1)) (\<lambda>_.
          and_then (char_at lp (offset + 2)) (\<lambda>sep.
          and_then (assert_that (sep = tab)) (\<lambda>_.
            Inr (offset + 3, write, None, mem))))
        else
          and_then (read_loop have_assume finder lp sz offset write mem) (\<lambda>(offset, field_end, mem).
          and_then (put mem field_end nul) (\<lambda>mem.
            Inr (offset + 1, field_end + 1, Some (segment mem write field_end), mem))))))))))"

section \<open>Parsing a line\<close>

text \<open>A target type of the stream: what a conversion uses, and whether every value of it is null.\<close>

record 'v stream_target =
  target :: "'v field_type"
  always_null :: bool

text \<open>
  What the code does with the text of a field.  For a target that is always null the function ends
  without a \<open>return\<close> when the text is null.
\<close>

definition convert_text :: "'v stream_target \<Rightarrow> string option \<Rightarrow> pqxx_error + 'v" where
  "convert_text t text =
     (if always_null t then
        (case text of
           Some _ \<Rightarrow> Inl (conversion_error (''Streaming a non-null value into a '' @ type_name (target t) @
             '', which must always be null.''))
         | None \<Rightarrow> Inl no_return)
      else
        (case text of
           None \<Rightarrow> (case null_value (target t) of
                      Some v \<Rightarrow> Inr v
                    | None \<Rightarrow> Inl (null_conversion (type_name (target t))))
         | Some s \<Rightarrow> from_string (target t) s))"

definition parse_field ::
    "bool \<Rightarrow> char_finder_func \<Rightarrow> 'v stream_target \<Rightarrow> string \<Rightarrow> nat \<Rightarrow> nat \<Rightarrow> nat \<Rightarrow> string \<Rightarrow>
       pqxx_error + 'v \<times> nat \<times> nat \<times> string" where
  "parse_field have_assume finder t lp sz offset write mem =
     and_then (assert_that (offset \<le> sz)) (\<lambda>_.
     and_then (read_field have_assume finder lp sz offset write mem) (\<lambda>(new_offset, new_write, text, mem).
     and_then (assume_that have_assume (new_offset > offset)) (\<lambda>_.
     and_then (assume_that have_assume (new_write \<ge> write)) (\<lambda>_.
     and_then (convert_text t text) (\<lambda>v. Inr (v, new_offset, new_write, mem))))))"

text \<open>The fields of a line, first to last (a braced list is evaluated in order).\<close>

fun parse_line_fields ::
    "bool \<Rightarrow> char_finder_func \<Rightarrow> 'v stream_target list \<Rightarrow> string \<Rightarrow> nat \<Rightarrow> nat \<Rightarrow> nat \<Rightarrow> string \<Rightarrow>
       pqxx_error + 'v list \<times> nat \<times> string" where
  "parse_line_fields have_assume finder [] lp sz offset write mem = Inr ([], offset, mem)"
| "parse_line_fields have_assume finder (t # ts) lp sz offset write mem =
     and_then (parse_field have_assume finder t lp sz offset write mem) (\<lambda>(v, offset, write, mem).
     and_then (parse_line_fields have_assume finder ts lp sz offset write mem) (\<lambda>(vs, offset, mem).
       Inr (v # vs, offset, mem)))"

text \<open>
  A stream: the finder, which is there until the stream is closed, the row buffer, and whether it is
  registered with the transaction.
\<close>

record stream_query =
  m_char_finder :: "char_finder_func option"
  m_row :: string
  registered :: bool

definition stream_done :: "stream_query \<Rightarrow> bool" where
  "stream_done st \<longleftrightarrow> m_char_finder st = None"

definition resize :: "string \<Rightarrow> nat \<Rightarrow> string" where
  "resize s n = take n s @ replicate (n - length s) nul"

text \<open>The row buffer after an exception is not modelled.\<close>

definition parse_line ::
    "bool \<Rightarrow> 'v stream_target list \<Rightarrow> string \<Rightarrow> nat \<Rightarrow> stream_query \<Rightarrow> pqxx_error + 'v list \<times> stream_query" where
  "parse_line have_assume ts lp line_size st =
     (case m_char_finder st of
        None \<Rightarrow> Inl terminates
      | Some finder \<Rightarrow>
          and_then (parse_line_fields have_assume finder ts lp line_size 0 0 (resize (m_row st) (line_size + 1)))
            (\<lambda>(data, offset, mem).
          and_then (assert_that (offset = line_size + 1)) (\<lambda>_. Inr (data, st\<lparr>m_row := mem\<rparr>))))"

section \<open>The stream\<close>

text \<open>
  The constructors.  The transaction's \<open>exec\<close> and \<open>register_me\<close> are compiled elsewhere; the encoding is
  that of the connection.
\<close>

definition get_finder :: "encoding_group \<Rightarrow> pqxx_error + char_finder_func" where
  "get_finder enc = get_s_char_finder [tab, backslash] enc"

definition open_stream ::
    "encoding_group \<Rightarrow> (string \<Rightarrow> pqxx_error + query_result) \<Rightarrow> (pqxx_error + unit) \<Rightarrow> nat \<Rightarrow> string \<Rightarrow>
       pqxx_error + stream_query" where
  "open_stream enc exec register_me columns query =
     and_then (get_finder enc) (\<lambda>finder.
     and_then (exec (''COPY ('' @ query @ '') TO STDOUT'')) (\<lambda>r.
     and_then (expect_columns columns r) (\<lambda>_.
     and_then (expect_rows 0 r) (\<lambda>_.
     and_then register_me (\<lambda>_. Inr \<lparr>m_char_finder = Some finder, m_row = [], registered = True\<rparr>)))))"

definition open_stream_params ::
    "encoding_group \<Rightarrow> (string \<Rightarrow> pqxx_error + query_result) \<Rightarrow> (pqxx_error + unit) \<Rightarrow> nat \<Rightarrow> string \<Rightarrow>
       pqxx_error + stream_query" where
  "open_stream_params enc exec register_me columns query =
     and_then (get_finder enc) (\<lambda>finder.
     and_then (and_then (exec (''COPY ('' @ query @ '') TO STDOUT'')) no_rows) (\<lambda>r.
       if res_columns r \<noteq> columns then
         Inl (usage_error (''Parsing query stream with wrong number of columns: code expects '' @ dec columns @
           '' but query returns '' @ dec (res_columns r) @ ''.''))
       else and_then register_me (\<lambda>_. Inr \<lparr>m_char_finder = Some finder, m_row = [], registered = True\<rparr>)))"

definition close_stream :: "stream_query \<Rightarrow> stream_query" where
  "close_stream st = (if \<not> stream_done st then st\<lparr>m_char_finder := None, registered := False\<rparr> else st)"

text \<open>
  What a call of the connection's \<open>read_copy_line\<close> gives: an exception, or the memory of a line (\<open>None\<close>
  for a null pointer, at the end of the data) and its size without the newline.
\<close>

type_synonym copy_read = "pqxx_error + string option \<times> nat"

definition read_line :: "copy_read \<Rightarrow> stream_query \<Rightarrow> copy_read \<times> stream_query" where
  "read_line read st =
     (if stream_done st then (Inl terminates, st)
      else case read of
          Inl e \<Rightarrow> (Inl e, close_stream st)
        | Inr (line, sz) \<Rightarrow> (Inr (line, sz), if line = None then close_stream st else st))"

text \<open>The iterator: the line and its size.\<close>

record stream_iterator =
  m_line :: "string option"
  m_line_size :: nat

definition consume_line :: "copy_read \<Rightarrow> stream_query \<Rightarrow> (pqxx_error + stream_iterator) \<times> stream_query" where
  "consume_line read st =
     (case read_line read st of
        (Inl e, st) \<Rightarrow> (Inl e, st)
      | (Inr (None, sz), st) \<Rightarrow> (Inr \<lparr>m_line = None, m_line_size = sz\<rparr>, st)
      | (Inr (Some line, sz), st) \<Rightarrow>
          (and_then (char_at line sz) (\<lambda>c.
           and_then (assert_that (c = CHR 0x0A)) (\<lambda>_. Inr \<lparr>m_line = Some (line[sz := tab]), m_line_size = sz\<rparr>)), st))"

definition iter_incr :: "copy_read \<Rightarrow> stream_query \<Rightarrow> (pqxx_error + stream_iterator) \<times> stream_query" where
  "iter_incr read st = (if stream_done st then (Inl terminates, st) else consume_line read st)"

definition iter_deref ::
    "bool \<Rightarrow> 'v stream_target list \<Rightarrow> stream_iterator \<Rightarrow> stream_query \<Rightarrow> pqxx_error + 'v list \<times> stream_query" where
  "iter_deref have_assume ts it st =
     parse_line have_assume ts (case m_line it of None \<Rightarrow> [] | Some line \<Rightarrow> line) (m_line_size it) st"

text \<open>
  The loop \<open>for (auto const &fields : data_stream)\<close> of \<open>for_stream\<close>, over what the successive calls of
  \<open>read_copy_line\<close> give; it waits when there is nothing more to read.  It ends with the rows the callback
  was given.
\<close>

datatype loop_end = Finished | Threw pqxx_error | Waiting

fun stream_loop ::
    "bool \<Rightarrow> 'v stream_target list \<Rightarrow> copy_read list \<Rightarrow> stream_iterator \<Rightarrow> stream_query \<Rightarrow> 'v list list \<Rightarrow>
       'v list list \<times> loop_end \<times> stream_query" where
  "stream_loop have_assume ts reads it st visited =
     (if stream_done st then (visited, Finished, st)
      else case iter_deref have_assume ts it st of
          Inl e \<Rightarrow> (visited, Threw e, st)
        | Inr (data, st) \<Rightarrow>
            (case reads of
               [] \<Rightarrow> (visited @ [data], Waiting, st)
             | read # reads \<Rightarrow>
                 (case iter_incr read st of
                    (Inl e, st) \<Rightarrow> (visited @ [data], Threw e, st)
                  | (Inr it, st) \<Rightarrow> stream_loop have_assume ts reads it st (visited @ [data]))))"

declare stream_loop.simps [simp del]

definition iterate_stream ::
    "bool \<Rightarrow> 'v stream_target list \<Rightarrow> copy_read list \<Rightarrow> stream_query \<Rightarrow> 'v list list \<times> loop_end \<times> stream_query" where
  "iterate_stream have_assume ts reads st =
     (case reads of
        [] \<Rightarrow> ([], Waiting, st)
      | read # reads \<Rightarrow>
          (case consume_line read st of
             (Inl e, st) \<Rightarrow> ([], Threw e, st)
           | (Inr it, st) \<Rightarrow> stream_loop have_assume ts reads it st []))"

text \<open>
  \<open>for_stream\<close>: the stream is a local variable, which its destructor closes on every way out.
\<close>

definition for_stream ::
    "bool \<Rightarrow> encoding_group \<Rightarrow> (string \<Rightarrow> pqxx_error + query_result) \<Rightarrow> (pqxx_error + unit) \<Rightarrow>
       'v stream_target list \<Rightarrow> copy_read list \<Rightarrow> string \<Rightarrow> 'v list list \<times> loop_end \<times> stream_query option" where
  "for_stream have_assume enc exec register_me ts reads query =
     (case open_stream enc exec register_me (length ts) query of
        Inl e \<Rightarrow> ([], Threw e, None)
      | Inr st \<Rightarrow>
          (case iterate_stream have_assume ts reads st of
             (visited, Waiting, st) \<Rightarrow> (visited, Waiting, Some st)
           | (visited, ending, st) \<Rightarrow> (visited, ending, Some (close_stream st))))"

section \<open>The text format of \<open>COPY\<close>\<close>

text \<open>
  A text is a list of characters of the client's encoding (of one or more bytes each).  The server
  writes a backslash and a letter or a backslash for the characters that would be mistaken, and \<open>\N\<close>
  for null; tabs separate the fields.
\<close>

definition copy_escape :: "string \<Rightarrow> string" where
  "copy_escape g =
     (if g = [CHR 0x08] then [backslash, CHR ''b'']
      else if g = [CHR 0x0C] then [backslash, CHR ''f'']
      else if g = [CHR 0x0A] then [backslash, CHR ''n'']
      else if g = [CHR 0x0D] then [backslash, CHR ''r'']
      else if g = [CHR 0x09] then [backslash, CHR ''t'']
      else if g = [CHR 0x0B] then [backslash, CHR ''v'']
      else if g = [backslash] then [backslash, backslash]
      else g)"

definition copy_text :: "string list \<Rightarrow> string" where
  "copy_text gs = concat (map copy_escape gs)"

definition copy_field :: "string list option \<Rightarrow> string" where
  "copy_field f = (case f of None \<Rightarrow> [backslash, CHR ''N''] | Some gs \<Rightarrow> copy_text gs)"

text \<open>The fields of a line, every one with the tab that ends it, and the memory of the line.\<close>

definition copy_fields :: "string list option list \<Rightarrow> string" where
  "copy_fields fs = concat (map (\<lambda>f. copy_field f @ [tab]) fs)"

definition copy_memory :: "string list option list \<Rightarrow> string" where
  "copy_memory fs = copy_fields fs @ [nul]"

text \<open>
  A character the scanner of the encoding takes whole wherever it stands, and which a text may
  contain (no text of the server has a zero byte).
\<close>

definition glyph_of :: "(string \<Rightarrow> nat \<Rightarrow> pqxx_error + nat) \<Rightarrow> string \<Rightarrow> bool" where
  "glyph_of scan g \<longleftrightarrow> g \<noteq> [] \<and> g \<noteq> [nul] \<and>
     (\<forall>pre post. scan (pre @ g @ post) (length pre) = Inr (length pre + length g))"

definition plain :: "string \<Rightarrow> bool" where
  "plain g \<longleftrightarrow> copy_escape g = g"

lemma specials [simp]: "tab \<noteq> backslash" "backslash \<noteq> tab" "tab \<noteq> nul" "nul \<noteq> tab" "backslash \<noteq> nul" "nul \<noteq> backslash"
  "ascii tab" "ascii backslash" "ascii nul"
  by (simp_all add: tab_def nul_def backslash_def ascii_def byte_of_def)

lemma plain_iff:
  "plain g \<longleftrightarrow> g \<notin> {[CHR 0x08], [CHR 0x0C], [CHR 0x0A], [CHR 0x0D], [CHR 0x09], [CHR 0x0B], [backslash]}"
  by (auto simp: plain_def copy_escape_def backslash_def)

lemma escaped_cases:
  assumes "\<not> plain g"
  shows "\<exists>c e. g = [c] \<and> copy_escape g = [backslash, e] \<and> unescape_char e = c \<and> e \<noteq> CHR ''N'' \<and> ascii e"
proof -
  from assms consider "g = [CHR 0x08]" | "g = [CHR 0x0C]" | "g = [CHR 0x0A]" | "g = [CHR 0x0D]" | "g = [CHR 0x09]"
    | "g = [CHR 0x0B]" | "g = [backslash]" unfolding plain_iff by blast
  then show ?thesis by cases (simp_all add: copy_escape_def unescape_char_def ascii_def byte_of_def backslash_def)
qed

lemma glyph_head:
  assumes "glyph_of (glyph_scanner enc) g" and "ascii (hd g)"
  shows "g = [hd g]"
proof -
  from assms(1) have n: "g \<noteq> []" by (simp add: glyph_of_def)
  from assms(1) have s: "glyph_scanner enc ([] @ g @ []) (length ([] :: string)) = Inr (length ([] :: string) + length g)"
    unfolding glyph_of_def by blast
  from n assms(2) have "glyph_scanner enc g 0 = Inr (Suc 0)"
    by (intro scan_ascii) (simp_all add: hd_conv_nth)
  with s have "length g = 1" by simp
  then show ?thesis by (cases g) simp_all
qed

lemma plain_head:
  assumes "glyph_of (glyph_scanner enc) g" and "plain g"
  shows "hd g \<noteq> tab" and "hd g \<noteq> backslash" and "hd g \<noteq> nul"
  using glyph_head [OF assms(1)] assms specials
  by (auto simp: plain_def copy_escape_def glyph_of_def tab_def backslash_def split: if_splits)

text \<open>The finder skips characters that are written as they are, up to a backslash or a tab.\<close>

lemma finder_skips:
  assumes "\<forall>g \<in> set gs. glyph_of scan g \<and> hd g \<noteq> tab \<and> hd g \<noteq> backslash"
    and "lp = pre @ concat gs @ c # post" and "c = tab \<or> c = backslash"
    and "length pre + length (concat gs) \<le> sz"
  shows "find_s_ascii_char scan [tab, backslash] lp sz (length pre) = Inr (length pre + length (concat gs))"
  using assms
proof (induction gs arbitrary: pre)
  case Nil
  then show ?case by (auto simp: find_s_ascii_char.simps [of _ _ _ _ "length pre"] nth_append)
next
  case (Cons g gs)
  then have g: "g \<noteq> []" "hd g \<noteq> tab" "hd g \<noteq> backslash"
    and scan: "\<And>post. scan (pre @ g @ post) (length pre) = Inr (length pre + length g)" by (auto simp: glyph_of_def)
  have here: "lp ! length pre = hd g" "length pre < length lp"
    using g(1) Cons.prems(2) by (cases g; simp add: nth_append)+
  have "take sz lp = pre @ g @ take (sz - length pre - length g) (concat gs @ c # post)"
    using Cons.prems(2, 4) by simp
  with scan have s: "scan (take sz lp) (length pre) = Inr (length pre + length g)" by simp
  have "find_s_ascii_char scan [tab, backslash] lp sz (length (pre @ g)) =
      Inr (length (pre @ g) + length (concat gs))"
    using Cons.prems by (intro Cons.IH) simp_all
  with here s g show ?case by (subst find_s_ascii_char.simps) simp
qed

lemma copy_text_simps [simp]:
  "copy_text [] = []"
  "copy_text (g # gs) = copy_escape g @ copy_text gs"
  "copy_text (gs @ hs) = copy_text gs @ copy_text hs"
  by (simp_all add: copy_text_def)

lemma copy_text_plain: "\<forall>g \<in> set gs. plain g \<Longrightarrow> copy_text gs = concat gs"
  by (induction gs) (simp_all add: plain_def)

lemma copy_text_longer: "length (concat gs) \<le> length (copy_text gs)"
proof (induction gs)
  case (Cons g gs)
  have "length g \<le> length (copy_escape g)" by (simp add: copy_escape_def)
  with Cons show ?case by simp
qed simp

text \<open>The characters up to the first one that is escaped, and the rest.\<close>

lemma plain_split:
  obtains "\<forall>g \<in> set gs. plain g"
  | ps c e hs where "gs = ps @ [c] # hs" "\<forall>g \<in> set ps. plain g" "copy_escape [c] = [backslash, e]"
      "unescape_char e = c" "e \<noteq> CHR ''N''" "ascii e"
proof (cases "\<forall>g \<in> set gs. plain g")
  case False
  then obtain ps g hs where "gs = ps @ g # hs" "\<not> plain g" "\<forall>g \<in> set ps. plain g"
    using split_list_first_prop [of gs "\<lambda>g. \<not> plain g"] by auto
  with escaped_cases [of g] that(2) show ?thesis by blast
qed (use that(1) in blast)

lemma loop_ends: "offset < length lp \<Longrightarrow> lp ! offset = tab \<Longrightarrow> read_loop h finder lp sz offset write mem = Inr (offset, write, mem)"
  by (subst read_loop.simps) simp

lemma loop_plain:
  assumes "offset < length lp" "lp ! offset \<noteq> tab" "lp ! offset \<noteq> nul" "finder lp sz offset = Inr stop"
    and "offset \<le> stop" "h \<Longrightarrow> offset < stop" "stop \<le> sz" "sz < length lp" "lp ! stop = tab"
    and "copy_to mem write (segment lp offset stop) = Inr mem'"
  shows "read_loop h finder lp sz offset write mem = Inr (stop, write + (stop - offset), mem')"
  using assms by (subst read_loop.simps) (cases h; simp add: loop_ends)

lemma loop_escape:
  assumes "offset < length lp" "lp ! offset \<noteq> tab" "lp ! offset \<noteq> nul" "finder lp sz offset = Inr stop"
    and "offset \<le> stop" "h \<Longrightarrow> offset < stop" "stop + 1 < sz" "sz < length lp" "lp ! stop = backslash" "ascii (lp ! (stop + 1))"
    and "copy_to mem write (segment lp offset stop) = Inr mem1"
    and "put mem1 (write + (stop - offset)) (unescape_char (lp ! (stop + 1))) = Inr mem2"
  shows "read_loop h finder lp sz offset write mem =
    read_loop h finder lp sz (stop + 2) (write + (stop - offset) + 1) mem2"
  using assms by (subst read_loop.simps) (cases h; simp)

lemma plain_heads:
  assumes "\<forall>g \<in> set gs. glyph_of (glyph_scanner enc) g" "\<forall>g \<in> set gs. plain g"
  shows "\<forall>g \<in> set gs. glyph_of (glyph_scanner enc) g \<and> hd g \<noteq> tab \<and> hd g \<noteq> backslash"
  using assms plain_head by blast

lemma concat_head:
  assumes "\<forall>g \<in> set gs. glyph_of (glyph_scanner enc) g" "\<forall>g \<in> set gs. plain g" "concat gs @ xs = y # ys"
  shows "gs = [] \<or> y \<noteq> tab \<and> y \<noteq> backslash \<and> y \<noteq> nul"
proof (cases gs)
  case (Cons g gs')
  with assms plain_head [of enc g] have "hd g \<noteq> tab \<and> hd g \<noteq> backslash \<and> hd g \<noteq> nul" "g \<noteq> []"
    by (auto simp: glyph_of_def)
  with Cons assms(3) show ?thesis by (cases g) auto
qed simp

lemma segment_middle: "segment (pre @ xs @ post) (length pre) (length pre + length xs) = xs"
  by (simp add: segment_def)

text \<open>
  Where no escape begins a text or follows another escape, \<open>read_loop\<close> finds at least one character before
  every special one, as it assumes.  \<open>spaced b\<close> says this of a text with such a character before it (\<open>b\<close>).
\<close>

fun spaced :: "bool \<Rightarrow> string list \<Rightarrow> bool" where
  "spaced b [] = True"
| "spaced b (g # gs) = (if plain g then spaced True gs else b \<and> spaced False gs)"

lemma spaced_first: "\<forall>g \<in> set ps. plain g \<Longrightarrow> \<not> plain g \<Longrightarrow> spaced b (ps @ g # gs) \<longleftrightarrow> (b \<or> ps \<noteq> []) \<and> spaced False gs"
  by (induction ps arbitrary: b) auto

text \<open>\<open>read_loop\<close> unescapes a text into the row buffer, up to the tab after it.\<close>

lemma loop_reads:
  assumes "\<forall>g \<in> set gs. glyph_of (glyph_scanner enc) g" and "h \<longrightarrow> spaced False gs"
    and "lp = pre @ copy_text gs @ tab # post"
    and "length pre + length (copy_text gs) \<le> sz" and "sz < length lp"
    and "holds mem n out" and "length out + length (concat gs) \<le> n"
  shows "\<exists>mem'. read_loop h (find_s_ascii_char (glyph_scanner enc) [tab, backslash]) lp sz (length pre) (length out) mem =
      Inr (length pre + length (copy_text gs), length out + length (concat gs), mem') \<and> holds mem' n (out @ concat gs)"
  using assms
proof (induction gs arbitrary: pre out mem rule: length_induct)
  case (1 gs)
  note prems = "1.prems" and IH = "1.IH"
  let ?find = "find_s_ascii_char (glyph_scanner enc) [tab, backslash]"
  show ?case
  proof (cases rule: plain_split [of gs])
    case 1
    then have t: "copy_text gs = concat gs" by (rule copy_text_plain)
    show ?thesis
    proof (cases "gs = []")
      case True
      with prems show ?thesis by (simp add: loop_ends nth_append)
    next
      case False
      from prems(1) False have ne: "concat gs \<noteq> []" by (cases gs) (auto simp: glyph_of_def)
      have f: "?find lp sz (length pre) = Inr (length pre + length (concat gs))"
        using prems(3, 4) t by (intro finder_skips [OF plain_heads [OF prems(1) 1], where c = tab]) simp_all
      from ne have "concat gs @ [] = lp ! length pre # tl (concat gs)"
        using prems(3) t by (cases "concat gs") (simp_all add: nth_append)
      with concat_head [OF prems(1) 1] False have l: "lp ! length pre \<noteq> tab" "lp ! length pre \<noteq> nul" by blast+
      from copy_to_end [OF prems(6, 7)] obtain mem' where
        m: "copy_to mem (length out) (concat gs) = Inr mem'" "holds mem' n (out @ concat gs)" by blast
      have seg: "segment lp (length pre) (length pre + length (concat gs)) = concat gs"
        using prems(3) t segment_middle by simp
      have "read_loop h ?find lp sz (length pre) (length out) mem =
          Inr (length pre + length (concat gs), length out + (length pre + length (concat gs) - length pre), mem')"
        using prems(3-5) t m seg l f ne by (intro loop_plain) (simp_all add: nth_append)
      with m t show ?thesis by simp
    qed
  next
    case (2 ps c e hs)
    have t: "copy_text gs = concat ps @ backslash # e # copy_text hs"
      using 2 by (simp add: copy_text_plain)
    from prems(1) 2 have g: "\<forall>g \<in> set ps. glyph_of (glyph_scanner enc) g" by simp
    have f: "?find lp sz (length pre) = Inr (length pre + length (concat ps))"
      using prems(3, 4) t by (intro finder_skips [OF plain_heads [OF g 2(2)], where c = backslash]) simp_all
    obtain y ys where y: "concat ps @ [backslash] = y # ys" by (cases "concat ps @ [backslash]") simp_all
    then have "lp ! length pre = y" using prems(3) t by (cases "concat ps") (simp_all add: nth_append)
    with y concat_head [OF g 2(2) y] have l: "lp ! length pre \<noteq> tab" "lp ! length pre \<noteq> nul" by auto
    have s: "h \<longrightarrow> spaced False hs" "h \<Longrightarrow> concat ps \<noteq> []"
    proof -
      from 2(3) have "\<not> plain [c]" by (simp add: plain_def)
      with prems(2) 2(1) spaced_first [OF 2(2) this, of False hs] have hs: "h \<longrightarrow> spaced False hs \<and> ps \<noteq> []" by blast
      then show "h \<longrightarrow> spaced False hs" by blast
      assume h
      with hs g show "concat ps \<noteq> []" by (cases ps) (auto simp: glyph_of_def)
    qed
    have n: "length out + length (concat ps) + 1 + length (concat hs) \<le> n" using prems(7) 2(1) by simp
    from copy_to_end [OF prems(6), of "concat ps"] n obtain mem1 where
      m1: "copy_to mem (length out) (concat ps) = Inr mem1" "holds mem1 n (out @ concat ps)" by auto
    from put_holds [OF m1(2), of c] n obtain mem2 where
      m2: "put mem1 (length (out @ concat ps)) c = Inr mem2" "holds mem2 n ((out @ concat ps) @ [c])" by auto
    have seg: "segment lp (length pre) (length pre + length (concat ps)) = concat ps"
      using prems(3) t segment_middle by simp
    have step: "read_loop h ?find lp sz (length pre) (length out) mem =
        read_loop h ?find lp sz (length pre + length (concat ps) + 2)
          (length out + (length pre + length (concat ps) - length pre) + 1) mem2"
      using prems(3-5) t m1 m2 2 seg l f s(2) by (intro loop_escape [where ?mem1.0 = mem1]) (simp_all add: nth_append)
    let ?pre = "pre @ concat ps @ [backslash, e]" and ?out = "out @ concat ps @ [c]"
    have "\<exists>mem'. read_loop h ?find lp sz (length ?pre) (length ?out) mem2 =
        Inr (length ?pre + length (copy_text hs), length ?out + length (concat hs), mem') \<and>
          holds mem' n (?out @ concat hs)"
      using prems(1, 3-5) t 2 m2 n s by (intro IH [rule_format]) simp_all
    with step t 2 show ?thesis by (simp add: ac_simps)
  qed
qed

lemma holds_segment:
  assumes "holds mem n (out @ xs @ ys)"
  shows "segment mem (length out) (length out + length xs) = xs"
proof -
  from assms have "mem = out @ xs @ ys @ drop (length (out @ xs @ ys)) mem"
    using append_take_drop_id [of "length (out @ xs @ ys)" mem] by (simp add: holds_def)
  then obtain zs where "mem = out @ xs @ zs" by blast
  then show ?thesis by (simp add: segment_middle)
qed

lemma not_null_mark:
  assumes "\<forall>g \<in> set gs. glyph_of (glyph_scanner enc) g" and "copy_text gs @ tab # post = c # d # cs"
  shows "\<not> (c = backslash \<and> d = CHR ''N'')"
proof (cases gs)
  case (Cons g hs)
  with assms(1) have g: "glyph_of (glyph_scanner enc) g" "g \<noteq> []" by (auto simp: glyph_of_def)
  show ?thesis
  proof (cases "plain g")
    case True
    with g plain_head(2) [OF g(1)] Cons assms(2) show ?thesis by (cases g) (auto simp: plain_def)
  next
    case False
    with escaped_cases [OF False] Cons assms(2) show ?thesis by auto
  qed
qed (use assms(2) in auto)

text \<open>A field that can be read, also under the assumption of the loop (\<open>h\<close>).\<close>

definition field_ok :: "bool \<Rightarrow> (string \<Rightarrow> nat \<Rightarrow> pqxx_error + nat) \<Rightarrow> string list option \<Rightarrow> bool" where
  "field_ok h scan f \<longleftrightarrow> (\<forall>gs. f = Some gs \<longrightarrow> (\<forall>g \<in> set gs. glyph_of scan g) \<and> (h \<longrightarrow> spaced False gs))"

lemma field_reads:
  assumes "field_ok h (glyph_scanner enc) f"
    and "lp = pre @ copy_field f @ tab # post" and "length lp = sz + 2" "lp ! sz = tab" "lp ! (sz + 1) = nul"
    and "length pre + length (copy_field f) \<le> sz"
    and "holds mem (sz + 1) out" "length out \<le> length pre"
  shows "\<exists>mem' out'. read_field h (find_s_ascii_char (glyph_scanner enc) [tab, backslash]) lp sz (length pre) (length out) mem =
      Inr (length pre + length (copy_field f) + 1, length out', map_option concat f, mem') \<and>
        holds mem' (sz + 1) out' \<and> length out \<le> length out' \<and> length out' \<le> length pre + length (copy_field f) + 1"
proof (cases f)
  case None
  with assms show ?thesis by (intro exI [of _ mem] exI [of _ out]) (simp add: read_field_def copy_field_def nth_append)
next
  case (Some gs)
  let ?read = "read_loop h (find_s_ascii_char (glyph_scanner enc) [tab, backslash]) lp sz (length pre) (length out) mem"
  from Some assms(1) have g: "\<forall>g \<in> set gs. glyph_of (glyph_scanner enc) g" "h \<longrightarrow> spaced False gs" by (simp_all add: field_ok_def)
  from Some have t: "copy_field f = copy_text gs" by (simp add: copy_field_def)
  have room: "length out + length (concat gs) < sz + 1"
    using assms(6, 8) t copy_text_longer [of gs] by simp
  obtain mem1 where m1: "?read = Inr (length pre + length (copy_text gs), length out + length (concat gs), mem1)"
    "holds mem1 (sz + 1) (out @ concat gs)"
    using loop_reads [OF g, of lp pre post sz mem "sz + 1" out] assms(2, 3, 6, 7) t room by auto
  from put_holds [OF m1(2), of nul] room obtain mem2 where
    m2: "put mem1 (length out + length (concat gs)) nul = Inr mem2" "holds mem2 (sz + 1) ((out @ concat gs) @ [nul])" by auto
  then have seg: "segment mem2 (length out) (length out + length (concat gs)) = concat gs"
    using holds_segment [of mem2 "sz + 1" out "concat gs" "[nul]"] by simp
  have mark: "\<not> (lp ! length pre = backslash \<and> lp ! (length pre + 1) = CHR ''N'')"
  proof (cases "copy_text gs @ tab # post")
    case (Cons c cs)
    show ?thesis
    proof (cases cs)
      case (Cons d ds)
      from not_null_mark [OF g(1)] \<open>copy_text gs @ tab # post = c # cs\<close> Cons assms(2) t show ?thesis by (auto simp: nth_append)
    next
      case Nil
      with \<open>copy_text gs @ tab # post = c # cs\<close> assms(2) t show ?thesis by (cases "copy_text gs") (auto simp: nth_append)
    qed
  qed simp
  have "read_field h (find_s_ascii_char (glyph_scanner enc) [tab, backslash]) lp sz (length pre) (length out) mem =
      Inr (length pre + length (copy_text gs) + 1, length out + length (concat gs) + 1, Some (concat gs), mem2)"
    using mark assms(3-6) t m1(1) m2(1) seg by (auto simp: read_field_def)
  with Some t m2 room assms(8) copy_text_longer [of gs] show ?thesis
    by (intro exI [of _ mem2] exI [of _ "out @ concat gs @ [nul]"]) simp
qed

text \<open>What the conversions make of the texts, without the line.\<close>

fun convert_fields :: "'v stream_target list \<Rightarrow> string option list \<Rightarrow> pqxx_error + 'v list" where
  "convert_fields (t # ts) (f # fs) =
     and_then (convert_text t f) (\<lambda>v. and_then (convert_fields ts fs) (\<lambda>vs. Inr (v # vs)))"
| "convert_fields _ _ = Inr []"

lemma copy_fields_simps [simp]:
  "copy_fields [] = []"
  "copy_fields (f # fs) = copy_field f @ tab # copy_fields fs"
  by (simp_all add: copy_fields_def)

lemma fields_parse:
  assumes "\<forall>f \<in> set fs. field_ok h (glyph_scanner enc) f" and "length ts = length fs"
    and "lp = pre @ copy_fields fs @ post" and "length lp = sz + 2" "lp ! sz = tab" "lp ! (sz + 1) = nul"
    and "length pre + length (copy_fields fs) \<le> sz + 1"
    and "holds mem (sz + 1) out" "length out \<le> length pre"
  shows "and_then (parse_line_fields h (find_s_ascii_char (glyph_scanner enc) [tab, backslash]) ts lp sz (length pre) (length out) mem)
      (\<lambda>(vs, offset, mem). Inr (vs, offset)) =
    and_then (convert_fields ts (map (map_option concat) fs)) (\<lambda>vs. Inr (vs, length pre + length (copy_fields fs)))"
  using assms
proof (induction fs arbitrary: ts pre mem out)
  case (Cons f fs)
  let ?find = "find_s_ascii_char (glyph_scanner enc) [tab, backslash]"
  from Cons.prems(2) obtain t ts' where ts: "ts = t # ts'" "length ts' = length fs" by (cases ts) auto
  from Cons.prems obtain mem' out' where r: "read_field h ?find lp sz (length pre) (length out) mem =
      Inr (length pre + length (copy_field f) + 1, length out', map_option concat f, mem')"
    "holds mem' (sz + 1) out'" "length out' \<le> length pre + length (copy_field f) + 1" "length out \<le> length out'"
    using field_reads [of h enc f lp pre "copy_fields fs @ post" sz mem out] by auto
  have p: "parse_field h ?find t lp sz (length pre) (length out) mem =
      and_then (convert_text t (map_option concat f)) (\<lambda>v. Inr (v, length pre + length (copy_field f) + 1, length out', mem'))"
    using Cons.prems(7) r(1, 4) by (simp add: parse_field_def)
  let ?pre = "pre @ copy_field f @ [tab]"
  have IH: "and_then (parse_line_fields h ?find ts' lp sz (length ?pre) (length out') mem') (\<lambda>(vs, offset, mem). Inr (vs, offset)) =
      and_then (convert_fields ts' (map (map_option concat) fs)) (\<lambda>vs. Inr (vs, length ?pre + length (copy_fields fs)))"
    using Cons.prems ts r by (intro Cons.IH) simp_all
  show ?case
  proof (cases "convert_text t (map_option concat f)")
    case (Inr v)
    let ?rest = "parse_line_fields h ?find ts' lp sz (length ?pre) (length out') mem'"
    have "and_then (parse_line_fields h ?find ts lp sz (length pre) (length out) mem) (\<lambda>(vs, offset, mem). Inr (vs, offset)) =
        and_then ?rest (\<lambda>(vs, offset, mem). Inr (v # vs, offset))"
      by (cases ?rest) (auto simp: ts p Inr)
    also have "\<dots> = and_then (and_then ?rest (\<lambda>(vs, offset, mem). Inr (vs, offset))) (\<lambda>(vs, offset). Inr (v # vs, offset))"
      by (cases ?rest) auto
    also have "\<dots> = and_then (convert_fields ts (map (map_option concat) (f # fs)))
        (\<lambda>vs. Inr (vs, length pre + length (copy_fields (f # fs))))"
      unfolding IH by (cases "convert_fields ts' (map (map_option concat) fs)") (simp_all add: ts Inr)
    finally show ?thesis .
  qed (simp add: p ts)
qed simp

section \<open>Encodings in which every byte is searched\<close>

definition as_bytes :: "string list option \<Rightarrow> string list option" where
  "as_bytes f = map_option (\<lambda>gs. map (\<lambda>c. [c]) (concat gs)) f"

lemma mono_glyph: "c \<noteq> nul \<Longrightarrow> glyph_of (glyph_scanner MONOBYTE) [c]"
  by (simp add: glyph_of_def scan_MONOBYTE_def)

lemma high_plain: "\<not> ascii c \<Longrightarrow> copy_escape [c] = [c]"
  by (auto simp: copy_escape_def ascii_def byte_of_def backslash_def)

lemma copy_text_high: "\<forall>c \<in> set g. \<not> ascii c \<Longrightarrow> copy_text (map (\<lambda>c. [c]) g) = g"
  by (induction g) (simp_all add: high_plain)

lemma glyph_bytes:
  assumes "ascii_safe_group enc" and "glyph_of (glyph_scanner enc) g"
  shows "nul \<notin> set g" and "copy_text (map (\<lambda>c. [c]) g) = copy_escape g" and "plain g \<Longrightarrow> \<forall>c \<in> set g. plain [c]"
proof -
  have "nul \<notin> set g \<and> copy_text (map (\<lambda>c. [c]) g) = copy_escape g \<and> (plain g \<longrightarrow> (\<forall>c \<in> set g. plain [c]))"
  proof (cases "ascii (hd g)")
    case True
    with glyph_head [OF assms(2)] obtain c where "g = [c]" by blast
    with assms(2) show ?thesis by (auto simp: glyph_of_def)
  next
    case False
    from assms(2) have s: "glyph_scanner enc ([] @ g @ []) (length ([] :: string)) = Inr (length ([] :: string) + length g)"
      and n: "g \<noteq> []" unfolding glyph_of_def by blast+
    have "\<not> ascii c" if c: "c \<in> set g" for c
    proof -
      from c obtain k where k: "k < length g" "c = g ! k" by (auto simp: in_set_conv_nth)
      with False n safe_high_bytes [OF assms(1), of 0 g "length g" k] s show ?thesis
        by (cases k) (auto simp: hd_conv_nth)
    qed
    moreover from this n have "copy_escape g = g"
      by (auto simp: copy_escape_def ascii_def byte_of_def backslash_def)
    moreover have "nul \<notin> set g" using specials(9) calculation(1) by blast
    ultimately show ?thesis using copy_text_high [of g] high_plain by (simp add: plain_def)
  qed
  then show "nul \<notin> set g" and "copy_text (map (\<lambda>c. [c]) g) = copy_escape g" and "plain g \<Longrightarrow> \<forall>c \<in> set g. plain [c]" by simp_all
qed

lemma spaced_plain: "\<forall>g \<in> set ps. plain g \<Longrightarrow> ps \<noteq> [] \<Longrightarrow> spaced b (ps @ gs) = spaced True gs"
proof (induction ps arbitrary: b)
  case (Cons p ps)
  then show ?case by (cases ps) simp_all
qed simp

lemma spaced_bytes:
  assumes "ascii_safe_group enc" and "\<forall>g \<in> set gs. glyph_of (glyph_scanner enc) g"
  shows "spaced b (map (\<lambda>c. [c]) (concat gs)) = spaced b gs"
  using assms(2)
proof (induction gs arbitrary: b)
  case (Cons g gs)
  show ?case
  proof (cases "plain g")
    case True
    have "g \<noteq> []" "\<forall>c \<in> set g. plain [c]" using Cons.prems glyph_bytes(3) [OF assms(1) _ True] by (auto simp: glyph_of_def)
    with True Cons spaced_plain [of "map (\<lambda>c. [c]) g"] show ?thesis by simp
  next
    case False
    with escaped_cases [OF this] Cons show ?thesis by auto
  qed
qed simp

lemma bytes_of_field:
  assumes "ascii_safe_group enc" and "field_ok h (glyph_scanner enc) f"
  shows "field_ok h (glyph_scanner MONOBYTE) (as_bytes f)" and "copy_field (as_bytes f) = copy_field f"
    and "map_option concat (as_bytes f) = map_option concat f"
proof -
  have t: "copy_text (map (\<lambda>c. [c]) (concat gs)) = copy_text gs" if "\<forall>g \<in> set gs. glyph_of (glyph_scanner enc) g" for gs
    using that glyph_bytes(2) [OF assms(1)] by (induction gs) simp_all
  have c: "concat (map (\<lambda>c. [c]) s) = s" for s :: string by (induction s) simp_all
  from assms(2) glyph_bytes(1) [OF assms(1)] have n: "nul \<notin> set (concat gs)" if "f = Some gs" for gs
    using that by (auto simp: field_ok_def)
  show "field_ok h (glyph_scanner MONOBYTE) (as_bytes f)"
  proof (cases f)
    case (Some gs)
    have "glyph_of (glyph_scanner MONOBYTE) [c]" if "c \<in> set (concat gs)" for c
      using that n [OF Some] by (intro mono_glyph) metis
    moreover have "h \<longrightarrow> spaced False (map (\<lambda>c. [c]) (concat gs))"
      using assms Some spaced_bytes [OF assms(1), of gs False] by (simp add: field_ok_def)
    ultimately show ?thesis using Some by (simp add: as_bytes_def field_ok_def)
  qed (simp add: as_bytes_def field_ok_def)
  show "copy_field (as_bytes f) = copy_field f"
    using assms(2) t by (cases f) (simp_all add: as_bytes_def field_ok_def copy_field_def)
  show "map_option concat (as_bytes f) = map_option concat f"
    by (cases f) (simp_all add: as_bytes_def c)
qed

section \<open>The parser inverts the format\<close>

lemma line_of_copy:
  assumes "\<forall>f \<in> set fs. field_ok h (glyph_scanner enc) f" and "fs \<noteq> []" and "length ts = length fs"
    and "m_char_finder st = Some (find_s_ascii_char (glyph_scanner enc) [tab, backslash])"
  shows "and_then (parse_line h ts (copy_memory fs) (length (copy_fields fs) - 1) st) (\<lambda>(vs, st'). Inr vs) =
    convert_fields ts (map (map_option concat) fs)"
proof -
  let ?sz = "length (copy_fields fs) - 1" and ?find = "find_s_ascii_char (glyph_scanner enc) [tab, backslash]"
  from assms(2) obtain xs where c: "copy_fields fs = xs @ [tab]"
    by (cases fs rule: rev_cases) (simp_all add: copy_fields_def)
  let ?parse = "parse_line_fields h ?find ts (copy_memory fs) ?sz 0 0 (resize (m_row st) (?sz + 1))"
  have h: "holds (resize (m_row st) (?sz + 1)) (?sz + 1) []" by (simp add: holds_def resize_def)
  have p: "and_then ?parse (\<lambda>(vs, offset, mem). Inr (vs, offset)) =
      and_then (convert_fields ts (map (map_option concat) fs)) (\<lambda>vs. Inr (vs, length (copy_fields fs)))"
    using fields_parse [OF assms(1, 3), of "copy_memory fs" "[]" "[nul]" ?sz _ "[]", OF _ _ _ _ _ h] c
    by (simp add: copy_memory_def nth_append)
  have "and_then (parse_line h ts (copy_memory fs) ?sz st) (\<lambda>(vs, st'). Inr vs) =
      and_then (and_then ?parse (\<lambda>(vs, offset, mem). Inr (vs, offset)))
        (\<lambda>(vs, offset). and_then (assert_that (offset = ?sz + 1)) (\<lambda>_. Inr vs))"
    using assms(4) by (cases ?parse) (auto simp: parse_line_def assert_that_def)
  also have "\<dots> = convert_fields ts (map (map_option concat) fs)"
    unfolding p using c by (cases "convert_fields ts (map (map_option concat) fs)") simp_all
  finally show ?thesis .
qed

lemma copy_line_parses:
  assumes "get_s_char_finder [tab, backslash] enc = Inr finder" and "enc \<noteq> MULE_INTERNAL"
    and "\<forall>f \<in> set fs. field_ok h (glyph_scanner enc) f" and "fs \<noteq> []" and "length ts = length fs"
    and "m_char_finder st = Some finder"
  shows "and_then (parse_line h ts (copy_memory fs) (length (copy_fields fs) - 1) st) (\<lambda>(vs, st'). Inr vs) =
    convert_fields ts (map (map_option concat) fs)"
proof -
  have f: "finder = find_s_ascii_char (glyph_scanner (map_ascii_search_group enc)) [tab, backslash]"
    using assms(1) by (auto simp: get_s_char_finder_def Let_def split: if_splits)
  show ?thesis
  proof (cases "ascii_safe_group enc")
    case True
    note b = bytes_of_field [OF True assms(3) [rule_format]]
    have m: "map_ascii_search_group enc = MONOBYTE"
      using True by (auto simp: map_ascii_search_group_def ascii_safe_group_def)
    have "copy_fields (map as_bytes fs) = copy_fields fs" "map (map_option concat \<circ> as_bytes) fs = map (map_option concat) fs"
      using b(2, 3) by (simp_all add: copy_fields_def cong: map_cong)
    with line_of_copy [of "map as_bytes fs" h MONOBYTE ts st] b(1) assms(4-6) f m show ?thesis
      by (simp add: copy_memory_def)
  next
    case False
    with assms(2) have "map_ascii_search_group enc = enc"
      by (cases enc) (simp_all add: map_ascii_search_group_def ascii_safe_group_def)
    with assms(3-6) f show ?thesis by (intro line_of_copy) simp_all
  qed
qed

section \<open>Streams are closed, and give the rows of the server\<close>

definition tidy :: "stream_query \<Rightarrow> bool" where
  "tidy st \<longleftrightarrow> (stream_done st \<longrightarrow> \<not> registered st)"

lemma parse_line_keeps:
  "parse_line h ts lp sz st = Inr (vs, st') \<Longrightarrow> m_char_finder st' = m_char_finder st \<and> registered st' = registered st"
  by (auto simp: parse_line_def and_then_Inr split: option.splits)

lemma close_stream_closed: "tidy st \<Longrightarrow> stream_done (close_stream st) \<and> \<not> registered (close_stream st)"
  by (simp add: close_stream_def stream_done_def tidy_def)

lemma consume_line_tidy: "tidy st \<Longrightarrow> consume_line read st = (x, st') \<Longrightarrow> tidy st'"
  using close_stream_closed [of st]
  by (auto simp: consume_line_def read_line_def tidy_def split: sum.splits option.splits if_splits prod.splits)

lemma loop_closed: "stream_done st \<Longrightarrow> stream_loop h ts reads it st visited = (visited, Finished, st)"
  by (simp add: stream_loop.simps [of h ts reads it st])

lemma stream_loop_tidy: "tidy st \<Longrightarrow> stream_loop h ts reads it st visited = (v, e, st') \<Longrightarrow> tidy st'"
proof (induction h ts reads it st visited rule: stream_loop.induct)
  case (1 h ts reads it st visited)
  have p: "tidy st1" if "iter_deref h ts it st = Inr (data, st1)" for data st1
    using that parse_line_keeps "1.prems"(1) unfolding iter_deref_def tidy_def stream_done_def by metis
  show ?case
  proof (cases "stream_done st")
    case True
    with "1.prems" show ?thesis by (simp add: stream_loop.simps [of h ts reads it st])
  next
    case False
    show ?thesis
    proof (cases "iter_deref h ts it st")
      case (Inl err)
      with False "1.prems" show ?thesis by (simp add: stream_loop.simps [of h ts reads it st])
    next
      case (Inr r)
      obtain data st1 where r: "r = (data, st1)" by (cases r)
      with Inr p have t1: "tidy st1" by simp
      show ?thesis
      proof (cases reads)
        case Nil
        with False Inr r t1 "1.prems" show ?thesis by (simp add: stream_loop.simps [of h ts "[]" it st])
      next
        case (Cons read rest)
        obtain x st2 where i: "iter_incr read st1 = (x, st2)" by (cases "iter_incr read st1")
        with t1 have t2: "tidy st2" using consume_line_tidy by (auto simp: iter_incr_def split: if_splits)
        show ?thesis
        proof (cases x)
          case (Inl err)
          with False Inr r Cons i t2 "1.prems" \<open>iter_deref h ts it st = Inr r\<close> show ?thesis
            by (simp add: stream_loop.simps [of h ts "read # rest" it st])
        next
          case (Inr it2)
          with False r Cons i \<open>iter_deref h ts it st = Inr r\<close> "1.prems"
          have "stream_loop h ts rest it2 st2 (visited @ [data]) = (v, e, st')"
            by (simp add: stream_loop.simps [of h ts "read # rest" it st])
          with "1.IH" [OF False] False r Cons i Inr t2 \<open>iter_deref h ts it st = Inr r\<close> show ?thesis by simp
        qed
      qed
    qed
  qed
qed

lemma open_stream_opens:
  assumes "open_stream enc exec register_me columns query = Inr st"
  shows "tidy st" and "\<exists>finder. get_s_char_finder [tab, backslash] enc = Inr finder \<and> m_char_finder st = Some finder"
  using assms by (auto simp: open_stream_def get_finder_def and_then_Inr tidy_def stream_done_def)

text \<open>However a loop over a stream ends, the stream is closed and no longer registered.\<close>

lemma for_stream_closes:
  assumes "for_stream h enc exec register_me ts reads query = (visited, ending, Some st)" and "ending \<noteq> Waiting"
  shows "stream_done st \<and> \<not> registered st"
proof -
  from assms(1) obtain st0 where o: "open_stream enc exec register_me (length ts) query = Inr st0"
    by (auto simp: for_stream_def split: sum.splits)
  obtain v e st1 where i: "iterate_stream h ts reads st0 = (v, e, st1)" by (cases "iterate_stream h ts reads st0") auto
  have "tidy st1"
  proof (cases reads)
    case Nil
    with i open_stream_opens(1) [OF o] show ?thesis by (simp add: iterate_stream_def)
  next
    case (Cons read rest)
    with i show ?thesis
      using consume_line_tidy [OF open_stream_opens(1) [OF o]] stream_loop_tidy
      by (fastforce simp: iterate_stream_def split: prod.splits sum.splits)
  qed
  moreover have "st = close_stream st1"
    using assms o i by (auto simp: for_stream_def split: loop_end.splits)
  ultimately show ?thesis using close_stream_closed by simp
qed

text \<open>What the server sends for a row, and the rows the callback is to see.\<close>

definition server_read :: "string list option list \<Rightarrow> copy_read" where
  "server_read fs = Inr (Some (butlast (copy_fields fs) @ [CHR 0x0A, nul]), length (copy_fields fs) - 1)"

definition row_texts :: "string list option list \<Rightarrow> string option list" where
  "row_texts fs = map (map_option concat) fs"

fun visit_rows :: "'v stream_target list \<Rightarrow> string option list list \<Rightarrow> 'v list list \<Rightarrow> 'v list list \<times> loop_end" where
  "visit_rows ts [] visited = (visited, Finished)"
| "visit_rows ts (r # rs) visited =
     (case convert_fields ts r of Inl e \<Rightarrow> (visited, Threw e) | Inr vs \<Rightarrow> visit_rows ts rs (visited @ [vs]))"

lemma visit_rows_ends: "snd (visit_rows ts rs visited) \<noteq> Waiting"
  by (induction ts rs visited rule: visit_rows.induct) (simp_all split: sum.splits)

definition server_iterator :: "string list option list \<Rightarrow> stream_iterator" where
  "server_iterator fs = \<lparr>m_line = Some (copy_memory fs), m_line_size = length (copy_fields fs) - 1\<rparr>"

lemma consume_server_line:
  assumes "\<not> stream_done st" and "fs \<noteq> []"
  shows "consume_line (server_read fs) st = (Inr (server_iterator fs), st)"
proof -
  from assms(2) obtain xs where "copy_fields fs = xs @ [tab]"
    by (cases fs rule: rev_cases) (simp_all add: copy_fields_def)
  with assms(1) show ?thesis
    by (simp add: consume_line_def read_line_def server_read_def server_iterator_def copy_memory_def list_update_append)
qed

definition row_ok :: "bool \<Rightarrow> encoding_group \<Rightarrow> 'v stream_target list \<Rightarrow> string list option list \<Rightarrow> bool" where
  "row_ok h enc ts fs \<longleftrightarrow> fs \<noteq> [] \<and> length ts = length fs \<and> (\<forall>f \<in> set fs. field_ok h (glyph_scanner enc) f)"

lemma deref_server_line:
  assumes "get_s_char_finder [tab, backslash] enc = Inr finder" "enc \<noteq> MULE_INTERNAL" "row_ok h enc ts fs"
    and "m_char_finder st = Some finder"
  shows "(\<exists>e. iter_deref h ts (server_iterator fs) st = Inl e \<and> convert_fields ts (row_texts fs) = Inl e) \<or>
    (\<exists>vs st'. iter_deref h ts (server_iterator fs) st = Inr (vs, st') \<and> convert_fields ts (row_texts fs) = Inr vs \<and>
      m_char_finder st' = Some finder)"
proof -
  have c: "and_then (iter_deref h ts (server_iterator fs) st) (\<lambda>(vs, st'). Inr vs) = convert_fields ts (row_texts fs)"
    using copy_line_parses [OF assms(1, 2), of fs h ts st] assms(3, 4)
    by (simp add: iter_deref_def server_iterator_def row_ok_def row_texts_def)
  show ?thesis
  proof (cases "iter_deref h ts (server_iterator fs) st")
    case (Inr r)
    with c parse_line_keeps assms(4) show ?thesis by (cases r) (fastforce simp: iter_deref_def)
  qed (use c in simp)
qed

lemma stream_loop_visits:
  assumes "get_s_char_finder [tab, backslash] enc = Inr finder" "enc \<noteq> MULE_INTERNAL"
    and "\<forall>fs \<in> set (fs0 # rows). row_ok h enc ts fs" and "m_char_finder st = Some finder"
  shows "\<exists>st'. stream_loop h ts (map server_read rows @ [Inr (None, k)]) (server_iterator fs0) st visited =
    (fst (visit_rows ts (map row_texts (fs0 # rows)) visited), snd (visit_rows ts (map row_texts (fs0 # rows)) visited), st')"
  using assms(3, 4)
proof (induction rows arbitrary: fs0 st visited)
  case Nil
  from Nil.prems have d: "\<not> stream_done st" by (simp add: stream_done_def)
  from deref_server_line [OF assms(1, 2), of h ts fs0 st] Nil.prems d show ?case
    by (auto simp: stream_loop.simps [of _ _ _ _ st] iter_incr_def consume_line_def read_line_def stream_done_def
        close_stream_def loop_closed)
next
  case (Cons fs rows)
  from Cons.prems have d: "\<not> stream_done st" and ok: "row_ok h enc ts fs0" "fs \<noteq> []" by (simp_all add: stream_done_def row_ok_def)
  consider e where "iter_deref h ts (server_iterator fs0) st = Inl e" "convert_fields ts (row_texts fs0) = Inl e"
    | vs st' where "iter_deref h ts (server_iterator fs0) st = Inr (vs, st')"
        "convert_fields ts (row_texts fs0) = Inr vs" "m_char_finder st' = Some finder"
    using deref_server_line [OF assms(1, 2) ok(1) Cons.prems(2)] by blast
  then show ?case
  proof cases
    case 1
    with d show ?thesis by (simp add: stream_loop.simps [of _ _ _ _ st])
  next
    case 2
    then have d': "\<not> stream_done st'" by (simp add: stream_done_def)
    have "stream_loop h ts (map server_read (fs # rows) @ [Inr (None, k)]) (server_iterator fs0) st visited =
        stream_loop h ts (map server_read rows @ [Inr (None, k)]) (server_iterator fs) st' (visited @ [vs])"
      using 2 d d' consume_server_line [OF d' ok(2)] by (simp add: stream_loop.simps [of _ _ _ _ st] iter_incr_def)
    with Cons.IH [of fs st' "visited @ [vs]"] Cons.prems(1) 2 show ?thesis by simp
  qed
qed

text \<open>
  C36. Streaming a query gives back what the server sent: for a stream that opened, in every encoding
  group but MULE_INTERNAL, and for rows whose fields are null or texts of whole characters of that
  encoding (without zero bytes), written in the text format of \<open>COPY\<close>, the loop calls back with the
  converted fields of every row, in order, up to the first conversion that fails, and ends with that
  failure or at the end of the data; the stream is then closed and no longer registered.  This holds
  for all such rows where the compiler has no \<open>assume\<close> attribute; where it has one, for the rows in
  which no field begins with an escaped character and no escaped character follows another, because
  the parser promises the optimiser that there is text before every escape (lemma
  \<open>assumption_refuted\<close> has a row that breaks the promise).
\<close>
theorem stream_roundtrip:
  assumes "open_stream enc exec register_me (length ts) query = Inr st0" and "enc \<noteq> MULE_INTERNAL"
    and "\<forall>fs \<in> set rows. row_ok h enc ts fs" and "reads = map server_read rows @ [Inr (None, k)]"
  shows "\<exists>st. for_stream h enc exec register_me ts reads query =
      (fst (visit_rows ts (map row_texts rows) []), snd (visit_rows ts (map row_texts rows) []), Some st) \<and>
    stream_done st \<and> \<not> registered st"
proof -
  from open_stream_opens(2) [OF assms(1)] obtain finder where
    f: "get_s_char_finder [tab, backslash] enc = Inr finder" "m_char_finder st0 = Some finder" by blast
  then have d: "\<not> stream_done st0" by (simp add: stream_done_def)
  let ?r = "visit_rows ts (map row_texts rows) []"
  have "\<exists>st. iterate_stream h ts reads st0 = (fst ?r, snd ?r, st)"
  proof (cases rows)
    case Nil
    with d assms(4) show ?thesis
      by (simp add: iterate_stream_def consume_line_def read_line_def loop_closed close_stream_def stream_done_def)
  next
    case (Cons fs rows')
    with assms(3) have "fs \<noteq> []" by (simp add: row_ok_def)
    from consume_server_line [OF d this] stream_loop_visits [OF f(1) assms(2) assms(3) [unfolded Cons] f(2), of k "[]"]
      Cons assms(4) show ?thesis by (auto simp: iterate_stream_def)
  qed
  then obtain st where i: "iterate_stream h ts reads st0 = (fst ?r, snd ?r, st)" by blast
  have w: "snd ?r \<noteq> Waiting" by (rule visit_rows_ends)
  then have r: "for_stream h enc exec register_me ts reads query = (fst ?r, snd ?r, Some (close_stream st))"
    using assms(1) i by (cases "snd ?r") (simp_all add: for_stream_def)
  with for_stream_closes [OF r w] show ?thesis by simp
qed

text \<open>A row in Shift-JIS: a character whose second byte is that of a backslash, and a tab; null; an empty text.\<close>

definition sample_row :: "string list option list" where
  "sample_row = [Some [[CHR 0x83, CHR 0x5C], [tab]], None, Some []]"

definition sample_target :: "sql_value option stream_target" where
  "sample_target = \<lparr>target = optional_type text_type, always_null = False\<rparr>"

definition sample_exec :: "string \<Rightarrow> pqxx_error + query_result" where
  "sample_exec q = Inr \<lparr>cells = [], res_columns = 3, query_text = Some q, res_encoding = SJIS\<rparr>"

lemma sample_row_ok: "row_ok h SJIS [t, t, t] sample_row"
  by (simp add: row_ok_def sample_row_def field_ok_def plain_iff backslash_def glyph_of_def scan_SJIS_def get_byte_def nth_append
      between_inc_def byte_of_def tab_def nul_def)

lemma stream_roundtrip_witness:
  "\<exists>st. for_stream True SJIS sample_exec (Inr ()) [sample_target, sample_target, sample_target]
      [server_read sample_row, Inr (None, 0)] ''SELECT a, b, c FROM t'' =
      ([[Some (Text [CHR 0x83, CHR 0x5C, tab]), None, Some (Text [])]], Finished, Some st) \<and>
    stream_done st \<and> \<not> registered st"
proof -
  have "\<exists>st0. open_stream SJIS sample_exec (Inr ()) (length [sample_target, sample_target, sample_target]) ''SELECT a, b, c FROM t'' = Inr st0"
    by (simp add: open_stream_def get_finder_def get_s_char_finder_def map_ascii_search_group_def sample_exec_def
        expect_columns_def expect_rows_def res_size_def)
  then obtain st0 where o: "open_stream SJIS sample_exec (Inr ()) (length [sample_target, sample_target, sample_target])
      ''SELECT a, b, c FROM t'' = Inr st0" by blast
  have v: "visit_rows [sample_target, sample_target, sample_target] [row_texts sample_row] [] =
      ([[Some (Text [CHR 0x83, CHR 0x5C, tab]), None, Some (Text [])]], Finished)"
    by (simp add: row_texts_def sample_row_def convert_text_def sample_target_def optional_type_def text_type_def)
  show ?thesis
    using stream_roundtrip [OF o, of "[sample_row]" True "[server_read sample_row, Inr (None, 0)]" 0] sample_row_ok [of True sample_target] v by simp
qed

section \<open>What the assumptions promise\<close>

text \<open>
  \<open>PQXX_ASSUME(stop_char > offset)\<close> does not hold where an escape begins a field or follows another: on a
  compiler with the attribute the behaviour is undefined for a line that the parser reads correctly
  otherwise.
\<close>

lemma assumption_refuted:
  defines "finder \<equiv> find_s_ascii_char scan_MONOBYTE [tab, backslash]" and "line \<equiv> copy_memory [Some [[tab]]]"
  shows "and_then (read_field False finder line 2 0 0 [nul, nul, nul]) (\<lambda>(offset, field_end, text, mem). Inr text) = Inr (Some [tab])"
    and "read_field True finder line 2 0 0 [nul, nul, nul] = Inl assumption_failed"
  unfolding finder_def line_def by code_simp+

text \<open>A column of a type whose values are all null cannot be streamed: for a null the function does not return.\<close>

lemma always_null_fails: "always_null t \<Longrightarrow> \<exists>e. convert_text t text = Inl e"
  by (simp add: convert_text_def split: option.splits)

end
