(* ===== verification/Pqxx_Client.thy ===== *)
theory Pqxx_Client
  imports Pqxx_Composite Pqxx_Util
begin

text \<open>
  Further code of the database client's headers: the exception classes and the retry loop of
  transactions (\<open>pqxx/except.hxx\<close>, \<open>pqxx/transactor.hxx\<close>), the numbered placeholders of statements
  (\<open>pqxx/params.hxx\<close>), and joining values (\<open>pqxx/separated_list.hxx\<close>).
\<close>

section \<open>Exception classes\<close>

text \<open>
  The classes the headers declare, the classes of the standard library they derive from, and one for
  every other exception; \<open>parent\<close> is the base class.  The classes whose names are errors of the model are
  written with the suffix \<open>_class\<close>.
\<close>

datatype exception_class =
    std_exception | std_runtime_error | std_logic_error | std_invalid_argument | std_domain_error
  | std_out_of_range_class | foreign_exception | failure | broken_connection | protocol_violation
  | variable_set_to_null | sql_error | in_doubt_error | transaction_rollback | serialization_failure
  | statement_completion_unknown | deadlock_detected | internal_error_class | usage_error_class
  | argument_error_class | conversion_error_class | unexpected_null_class | conversion_overrun_class
  | range_error_class | unexpected_rows_class | feature_not_supported | data_exception
  | integrity_constraint_violation | restrict_violation | not_null_violation | foreign_key_violation
  | unique_violation | check_violation | invalid_cursor_state | invalid_sql_statement_name | invalid_cursor_name
  | syntax_error | undefined_column | undefined_function | undefined_table | insufficient_privilege
  | insufficient_resources | disk_full | out_of_memory | too_many_connections | plpgsql_error | plpgsql_raise
  | plpgsql_no_data_found | plpgsql_too_many_rows

fun parent :: "exception_class \<Rightarrow> exception_class option" where
  "parent std_exception = None"
| "parent foreign_exception = None"
| "parent std_runtime_error = Some std_exception"
| "parent std_logic_error = Some std_exception"
| "parent std_invalid_argument = Some std_logic_error"
| "parent std_domain_error = Some std_logic_error"
| "parent std_out_of_range_class = Some std_logic_error"
| "parent failure = Some std_runtime_error"
| "parent broken_connection = Some failure"
| "parent protocol_violation = Some broken_connection"
| "parent variable_set_to_null = Some failure"
| "parent sql_error = Some failure"
| "parent in_doubt_error = Some failure"
| "parent transaction_rollback = Some sql_error"
| "parent serialization_failure = Some transaction_rollback"
| "parent statement_completion_unknown = Some transaction_rollback"
| "parent deadlock_detected = Some transaction_rollback"
| "parent internal_error_class = Some std_logic_error"
| "parent usage_error_class = Some std_logic_error"
| "parent argument_error_class = Some std_invalid_argument"
| "parent conversion_error_class = Some std_domain_error"
| "parent unexpected_null_class = Some conversion_error_class"
| "parent conversion_overrun_class = Some conversion_error_class"
| "parent range_error_class = Some std_out_of_range_class"
| "parent unexpected_rows_class = Some range_error_class"
| "parent feature_not_supported = Some sql_error"
| "parent data_exception = Some sql_error"
| "parent integrity_constraint_violation = Some sql_error"
| "parent restrict_violation = Some integrity_constraint_violation"
| "parent not_null_violation = Some integrity_constraint_violation"
| "parent foreign_key_violation = Some integrity_constraint_violation"
| "parent unique_violation = Some integrity_constraint_violation"
| "parent check_violation = Some integrity_constraint_violation"
| "parent invalid_cursor_state = Some sql_error"
| "parent invalid_sql_statement_name = Some sql_error"
| "parent invalid_cursor_name = Some sql_error"
| "parent syntax_error = Some sql_error"
| "parent undefined_column = Some syntax_error"
| "parent undefined_function = Some syntax_error"
| "parent undefined_table = Some syntax_error"
| "parent insufficient_privilege = Some sql_error"
| "parent insufficient_resources = Some sql_error"
| "parent disk_full = Some insufficient_resources"
| "parent out_of_memory = Some insufficient_resources"
| "parent too_many_connections = Some broken_connection"
| "parent plpgsql_error = Some sql_error"
| "parent plpgsql_raise = Some plpgsql_error"
| "parent plpgsql_no_data_found = Some plpgsql_error"
| "parent plpgsql_too_many_rows = Some plpgsql_error"

text \<open>A handler for a class catches that class and all that derive from it, at most six levels up.\<close>

fun is_a_upto :: "nat \<Rightarrow> exception_class \<Rightarrow> exception_class \<Rightarrow> bool" where
  "is_a_upto 0 e c = (e = c)"
| "is_a_upto (Suc n) e c = (e = c \<or> (case parent e of None \<Rightarrow> False | Some p \<Rightarrow> is_a_upto n p c))"

definition is_a :: "exception_class \<Rightarrow> exception_class \<Rightarrow> bool" where
  "is_a e c = is_a_upto 6 e c"

lemma is_a_refl [simp]: "is_a e e"
  by (simp add: is_a_def eval_nat_numeral)

text \<open>Six levels are enough: looking further finds no more.\<close>

lemma is_a_step: "is_a e c \<longleftrightarrow> e = c \<or> (\<exists>p. parent e = Some p \<and> is_a p c)"
  by (cases e) (simp_all add: is_a_def eval_nat_numeral)

lemma is_a_parent: "parent e = Some p \<Longrightarrow> is_a p c \<Longrightarrow> is_a e c"
  using is_a_step by blast

section \<open>Retrying a transaction\<close>

text \<open>
  \<open>callback k\<close> is what the call after \<open>k\<close> others gives; \<open>perform\<close> gives the number of calls made and what it
  returns or throws.  The catch clauses are tried in their order.
\<close>

fun perform_loop :: "(nat \<Rightarrow> exception_class + 'a) \<Rightarrow> nat \<Rightarrow> nat \<Rightarrow> nat \<times> (exception_class + 'a)" where
  "perform_loop callback calls 0 = (calls, Inl internal_error_class)"
| "perform_loop callback calls (Suc left) =
     (case callback calls of
        Inr v \<Rightarrow> (calls + 1, Inr v)
      | Inl e \<Rightarrow>
          if is_a e in_doubt_error then (calls + 1, Inl e)
          else if is_a e statement_completion_unknown then (calls + 1, Inl e)
          else if is_a e protocol_violation then (calls + 1, Inl e)
          else if is_a e broken_connection then
            (if Suc left \<le> 1 then (calls + 1, Inl e) else perform_loop callback (calls + 1) left)
          else if is_a e transaction_rollback then
            (if Suc left \<le> 1 then (calls + 1, Inl e) else perform_loop callback (calls + 1) left)
          else (calls + 1, Inl e))"

definition perform :: "(nat \<Rightarrow> exception_class + 'a) \<Rightarrow> int \<Rightarrow> nat \<times> (exception_class + 'a)" where
  "perform callback attempts =
     (if attempts \<le> 0 then (0, Inl std_invalid_argument) else perform_loop callback 0 (nat attempts))"

text \<open>The errors worth a retry.\<close>

definition transient :: "exception_class \<Rightarrow> bool" where
  "transient e \<longleftrightarrow> (is_a e broken_connection \<and> \<not> is_a e protocol_violation) \<or>
     (is_a e transaction_rollback \<and> \<not> is_a e statement_completion_unknown)"

lemma transient_classes:
  "transient e \<longleftrightarrow> e \<in> {broken_connection, too_many_connections, transaction_rollback, serialization_failure, deadlock_detected}"
  by (cases e) (simp_all add: transient_def is_a_def eval_nat_numeral)

lemma in_doubt_not_transient: "is_a e in_doubt_error \<Longrightarrow> \<not> transient e"
  by (cases e) (simp_all add: transient_def is_a_def eval_nat_numeral)

lemma transient_handlers:
  "transient e \<longleftrightarrow> \<not> is_a e in_doubt_error \<and> \<not> is_a e statement_completion_unknown \<and> \<not> is_a e protocol_violation \<and>
    (is_a e broken_connection \<or> is_a e transaction_rollback)"
  by (cases e) (simp_all add: transient_def is_a_def eval_nat_numeral)

lemma perform_loop_step:
  "perform_loop callback calls (Suc left) =
    (case callback calls of
       Inr v \<Rightarrow> (calls + 1, Inr v)
     | Inl e \<Rightarrow> if transient e \<and> left > 0 then perform_loop callback (calls + 1) left else (calls + 1, Inl e))"
  by (simp add: transient_handlers split: sum.split)

lemma perform_loop_spec:
  assumes "perform_loop callback calls left = (n, r)" and "left > 0"
  shows "calls < n \<and> n \<le> calls + left \<and> r = callback (n - 1) \<and>
    (\<forall>k. calls \<le> k \<and> k < n - 1 \<longrightarrow> (\<exists>e. callback k = Inl e \<and> transient e)) \<and>
    (n < calls + left \<longrightarrow> (\<forall>e. r = Inl e \<longrightarrow> \<not> transient e))"
  using assms
proof (induction left arbitrary: calls)
  case (Suc left)
  show ?case
  proof (cases "\<exists>e. callback calls = Inl e \<and> transient e \<and> left > 0")
    case True
    then obtain e where e: "callback calls = Inl e" "transient e" "left > 0" by blast
    with Suc.prems have "perform_loop callback (calls + 1) left = (n, r)"
      by (simp only: perform_loop_step sum.case) simp
    from Suc.IH [OF this e(3)] e show ?thesis by (auto simp: Suc_le_eq dest: le_neq_implies_less)
  next
    case False
    with Suc.prems have "n = calls + 1" "r = callback calls"
      by (auto simp only: perform_loop_step split: sum.splits if_splits)
    with False show ?thesis by auto
  qed
qed simp

text \<open>
  C39. \<open>perform\<close> retries what may be retried and nothing else.  With a positive number of attempts the
  callback is called at least once and at most that often; the outcome is that of the last call; every
  call before it failed with a transient error (a broken connection that is not a protocol violation, or
  a rollback that does not leave the completion of a statement unknown); and calls stop before the
  attempts are used up only after a result or an error that is not transient.
\<close>
theorem perform_retries:
  assumes "attempts > 0" and "perform callback attempts = (n, r)"
  shows "1 \<le> n \<and> int n \<le> attempts \<and> r = callback (n - 1) \<and>
    (\<forall>k < n - 1. \<exists>e. callback k = Inl e \<and> transient e) \<and>
    (int n < attempts \<longrightarrow> (\<forall>e. r = Inl e \<longrightarrow> \<not> transient e))"
  using perform_loop_spec [of callback 0 "nat attempts" n r] assms by (auto simp: perform_def)

lemma perform_retries_witness:
  "perform (\<lambda>k. if k = 0 then Inl deadlock_detected else if k = 1 then Inl too_many_connections else Inr (7 :: nat)) 3 = (3, Inr 7) \<and>
   perform (\<lambda>k. if k = 0 then Inl deadlock_detected else (Inl statement_completion_unknown :: exception_class + nat)) 3 =
     (2, Inl statement_completion_unknown) \<and> \<not> transient statement_completion_unknown"
proof -
  have a: "perform (\<lambda>k. if k = 0 then Inl deadlock_detected else if k = 1 then Inl too_many_connections else Inr (7 :: nat)) 3 = (3, Inr 7)"
    by (simp add: perform_def eval_nat_numeral is_a_def)
  have b: "perform (\<lambda>k. if k = 0 then Inl deadlock_detected else (Inl statement_completion_unknown :: exception_class + nat)) 3 =
      (2, Inl statement_completion_unknown)"
    by (simp add: perform_def eval_nat_numeral is_a_def)
  from perform_retries [OF _ b] have "\<not> transient statement_completion_unknown" by simp
  with a b show ?thesis by blast
qed

section \<open>Numbered placeholders\<close>

text \<open>
  \<open>placeholders<COUNTER>\<close>: the counter, the length of the text and the buffer the text is kept in; \<open>t\<close> is
  the type \<open>COUNTER\<close>.  The conversion of an integer into a buffer is compiled elsewhere: \<open>into\<close> takes the
  buffer, the offset and the number and gives the offset after the zero it ends the text with.
\<close>

record placeholders =
  m_current :: nat
  m_len :: nat
  m_buf :: string

definition digits10 :: "int_type \<Rightarrow> nat" where
  "digits10 t = length (dec (nat (highest t))) - 1"

definition new_placeholders :: "string \<Rightarrow> pqxx_error + placeholders" where
  "new_placeholders mem =
     and_then (copy_to mem 0 (CHR ''$'' # CHR ''1'' # [CHR 0x00])) (\<lambda>buf.
       Inr \<lparr>m_current = 1, m_len = 2, m_buf = buf\<rparr>)"

definition ph_view :: "placeholders \<Rightarrow> string" where
  "ph_view p = take (m_len p) (m_buf p)"

definition ptrdiff_t :: int_type where
  "ptrdiff_t = \<lparr>is_signed = True, bits = 64\<rparr>"

definition next_placeholder ::
    "bool \<Rightarrow> (string \<Rightarrow> nat \<Rightarrow> nat \<Rightarrow> pqxx_error + nat \<times> string) \<Rightarrow> int_type \<Rightarrow> placeholders \<Rightarrow> pqxx_error + placeholders" where
  "next_placeholder have_cmp into t p =
     (if int (m_current p) \<ge> highest t then
        Inl (range_error (''Too many parameters in one statement: limit is '' @ dec (nat (highest t)) @ ''.''))
      else and_then (pqxx_assume (m_current p > 0)) (\<lambda>_.
        let p = p\<lparr>m_current := m_current p + 1\<rparr> in
        if m_current p mod 10 = 0 then
          and_then (into (m_buf p) 1 (m_current p)) (\<lambda>(stop, buf).
          and_then (check_cast have_cmp ptrdiff_t t (int stop) ''placeholders counter'') (\<lambda>n.
            Inr (p\<lparr>m_len := nat n - 1, m_buf := buf\<rparr>)))
        else if m_len p - 1 < length (m_buf p) then
          Inr (p\<lparr>m_buf := (m_buf p)[m_len p - 1 := char_of (byte_of (m_buf p ! (m_len p - 1)) + 1)]\<rparr>)
        else Inl (write_out_of_bounds (m_len p - 1))))"

fun next_placeholders ::
    "bool \<Rightarrow> (string \<Rightarrow> nat \<Rightarrow> nat \<Rightarrow> pqxx_error + nat \<times> string) \<Rightarrow> int_type \<Rightarrow> nat \<Rightarrow> placeholders \<Rightarrow> pqxx_error + placeholders" where
  "next_placeholders have_cmp into t 0 p = Inr p"
| "next_placeholders have_cmp into t (Suc k) p =
     and_then (next_placeholders have_cmp into t k p) (next_placeholder have_cmp into t)"

text \<open>
  What is relied on of the conversion, which is compiled elsewhere: given the room that \<open>size_buffer\<close>
  computes for an unsigned number of the type (its \<open>digits10\<close>, one more digit and a zero), it writes
  the decimal text of a number of the type and a zero.  The buffer of the placeholders has just this
  room after the dollar sign.  Types of one byte have no conversion: \<open>strconv.hxx\<close> forbids those of
  \<open>char\<close>, \<open>signed char\<close> and \<open>unsigned char\<close>.
\<close>

definition into_ok :: "int_type \<Rightarrow> (string \<Rightarrow> nat \<Rightarrow> nat \<Rightarrow> pqxx_error + nat \<times> string) \<Rightarrow> bool" where
  "into_ok t into \<longleftrightarrow> (\<forall>mem pos n. int n \<le> highest t \<and> pos + (digits10 t + 2) \<le> length mem \<longrightarrow>
     (\<exists>rest. length rest = length mem - (pos + length (dec n) + 1) \<and>
       into mem pos n = Inr (pos + length (dec n) + 1, take pos mem @ dec n @ CHR 0x00 # rest)))"

lemma dec_tens: "10 \<le> n \<Longrightarrow> dec n = dec (n div 10) @ [char_of (48 + n mod 10)]"
  by (subst dec.simps) simp

lemma dec_nonempty: "dec n \<noteq> []"
  by (subst dec.simps) simp

lemma dec_Suc:
  assumes "Suc n mod 10 \<noteq> 0"
  shows "dec (Suc n) = butlast (dec n) @ [char_of (byte_of (last (dec n)) + 1)]"
proof (cases "n < 10")
  case True
  with assms have "Suc n < 10" by (cases "n = 9") simp_all
  with True show ?thesis by (simp add: dec_digit byte_of_def)
next
  case False
  from assms have "Suc n div 10 = n div 10" "Suc n mod 10 = Suc (n mod 10)" "n mod 10 < 9"
    by (simp_all add: div_Suc mod_Suc split: if_splits)
  with False show ?thesis by (simp add: dec_tens byte_of_def)
qed

lemma dec_length_mono: "m \<le> n \<Longrightarrow> length (dec m) \<le> length (dec n)"
proof (induction n arbitrary: m rule: less_induct)
  case (less n)
  show ?case
  proof (cases "m < 10")
    case True
    then show ?thesis using dec_nonempty [of n] by (simp add: dec_digit Suc_le_eq)
  next
    case False
    with less.prems less.IH [of "n div 10" "m div 10"] show ?thesis by (simp add: dec_tens div_le_mono)
  qed
qed

lemma dec_short: "4 \<le> n \<Longrightarrow> length (dec n) + 2 \<le> n"
proof (induction n rule: less_induct)
  case (less n)
  show ?case
  proof (cases "n < 10")
    case True
    with less.prems show ?thesis by (simp add: dec_digit)
  next
    case False
    show ?thesis
    proof (cases "4 \<le> n div 10")
      case True
      with False less.IH [of "n div 10"] show ?thesis by (simp add: dec_tens)
    next
      case small: False
      with False show ?thesis by (simp add: dec_tens dec_digit)
    qed
  qed
qed

text \<open>The invariant of the object: its text is the dollar sign and the counter, with a zero after it.\<close>

definition ph_inv :: "int_type \<Rightarrow> placeholders \<Rightarrow> bool" where
  "ph_inv t p \<longleftrightarrow> 0 < m_current p \<and> int (m_current p) \<le> highest t \<and> m_len p = Suc (length (dec (m_current p))) \<and>
     (\<exists>rest. m_buf p = CHR ''$'' # dec (m_current p) @ CHR 0x00 # rest) \<and> length (m_buf p) = digits10 t + 3"

lemma new_placeholders_inv:
  assumes "length mem = digits10 t + 3" and "0 < highest t"
  obtains p where "new_placeholders mem = Inr p" and "ph_inv t p" and "m_current p = 1"
proof
  let ?buf = "CHR ''$'' # CHR ''1'' # CHR 0x00 # drop 3 mem"
  have one: "dec 1 = [CHR ''1'']" by code_simp
  have "copy_to mem 0 (CHR ''$'' # CHR ''1'' # [CHR 0x00]) = Inr ?buf"
    using assms(1) copy_to_eq [of 0 "CHR ''$'' # CHR ''1'' # [CHR 0x00]" mem]
    by (simp add: numeral_3_eq_3 del: copy_to.simps)
  then show "new_placeholders mem = Inr \<lparr>m_current = 1, m_len = 2, m_buf = ?buf\<rparr>" by (simp add: new_placeholders_def)
  show "ph_inv t \<lparr>m_current = 1, m_len = 2, m_buf = ?buf\<rparr>"
    using assms one by (simp add: ph_inv_def)
qed simp

lemma next_placeholder_inv:
  assumes "into_ok t into" and "16 \<le> bits t" and "bits t \<le> 32" and "ph_inv t p" and "int (m_current p) < highest t"
  shows "\<exists>p'. next_placeholder have_cmp into t p = Inr p' \<and> ph_inv t p' \<and> m_current p' = Suc (m_current p)"
proof -
  let ?c = "m_current p" and ?M = "nat (highest t)"
  from assms(4) obtain rest where p: "0 < ?c" "m_len p = Suc (length (dec ?c))"
    "m_buf p = CHR ''$'' # dec ?c @ CHR 0x00 # rest" "length (m_buf p) = digits10 t + 3" by (auto simp: ph_inv_def)
  have big: "int (length (dec ?M)) + 2 \<le> highest t"
    and hi: "highest t < 2 ^ 63" and M: "length (dec (Suc ?c)) \<le> length (dec ?M)"
  proof -
    have "(2::int) ^ 15 \<le> 2 ^ (bits t - 1)" "(2::int) ^ 16 \<le> 2 ^ bits t" using assms(2) by (intro power_increasing; simp)+
    then have m: "32767 \<le> highest t" by (simp add: highest_def)
    then have "length (dec ?M) + 2 \<le> ?M" by (intro dec_short) simp
    with m show "int (length (dec ?M)) + 2 \<le> highest t" by linarith
    have "(2::int) ^ (bits t - 1) \<le> 2 ^ 32" "(2::int) ^ bits t \<le> 2 ^ 32" using assms(3) by (intro power_increasing; simp)+
    then show "highest t < 2 ^ 63" by (simp add: highest_def)
    show "length (dec (Suc ?c)) \<le> length (dec ?M)" using assms(5) by (intro dec_length_mono) simp
  qed
  have d10: "length (dec ?M) = Suc (digits10 t)"
    using dec_nonempty [of ?M] by (simp add: digits10_def)
  show ?thesis
  proof (cases "Suc ?c mod 10 = 0")
    case True
    from assms(5) p(4) have "int (Suc ?c) \<le> highest t \<and> 1 + (digits10 t + 2) \<le> length (m_buf p)" by simp
    with assms(1) obtain r where r: "length r = length (m_buf p) - (1 + length (dec (Suc ?c)) + 1)"
      "into (m_buf p) 1 (Suc ?c) = Inr (1 + length (dec (Suc ?c)) + 1, take 1 (m_buf p) @ dec (Suc ?c) @ CHR 0x00 # r)"
      unfolding into_ok_def by blast
    let ?stop = "int (1 + length (dec (Suc ?c)) + 1)"
    have "in_type ptrdiff_t ?stop" "in_type t ?stop"
      using big hi M by (auto simp: in_type_def ptrdiff_t_def lowest_def highest_def)
    then have "check_cast have_cmp ptrdiff_t t ?stop ''placeholders counter'' = Inr ?stop"
      using assms(2) by (subst check_cast_Inr) (simp_all add: ptrdiff_t_def)
    with True r assms(5) p d10 M show ?thesis by (simp add: next_placeholder_def ph_inv_def)
  next
    case False
    have l: "length (dec (Suc ?c)) = length (dec ?c)"
      using dec_Suc [OF False] dec_nonempty [of ?c] by simp
    have "(m_buf p)[length (dec ?c) := char_of (byte_of (m_buf p ! length (dec ?c)) + 1)] =
        CHR ''$'' # dec (Suc ?c) @ CHR 0x00 # rest"
      using dec_nonempty [of ?c] unfolding p(3) dec_Suc [OF False]
      by (cases "dec ?c" rule: rev_cases) (simp_all add: nth_append list_update_append)
    with False assms(5) p l show ?thesis by (simp add: next_placeholder_def ph_inv_def)
  qed
qed

text \<open>
  C40. Placeholders count: for a counter type of 16 to 32 bits whose conversion to text works in the
  space of the object's buffer (for unsigned types, what \<open>size_buffer\<close> computes), the object moved on
  \<open>k\<close> times shows the dollar sign and the decimal number \<open>k + 1\<close>, with a zero after it and inside its
  buffer, although only the last digit is touched nine times out of ten; past the largest number of
  the type it throws.
\<close>
theorem placeholders_count:
  assumes "into_ok t into" and "16 \<le> bits t" and "bits t \<le> 32" and "length mem = digits10 t + 3"
  shows "if int k < highest t then
      \<exists>p. and_then (new_placeholders mem) (next_placeholders have_cmp into t k) = Inr p \<and> m_current p = k + 1 \<and>
        ph_view p = CHR ''$'' # dec (k + 1) \<and> m_len p < length (m_buf p) \<and> m_buf p ! m_len p = CHR 0x00
    else and_then (new_placeholders mem) (next_placeholders have_cmp into t k) =
      Inl (range_error (''Too many parameters in one statement: limit is '' @ dec (nat (highest t)) @ ''.''))"
proof -
  have "(2::int) ^ 15 \<le> 2 ^ (bits t - 1)" "(2::int) ^ 16 \<le> 2 ^ bits t" using assms(2) by (intro power_increasing; simp)+
  then have pos: "0 < highest t" by (simp add: highest_def)
  from new_placeholders_inv [OF assms(4) pos] obtain p0 where
    p0: "new_placeholders mem = Inr p0" "ph_inv t p0" "m_current p0 = 1" by blast
  have run: "int j < highest t \<Longrightarrow> \<exists>p. next_placeholders have_cmp into t j p0 = Inr p \<and> ph_inv t p \<and> m_current p = Suc j" for j
  proof (induction j)
    case (Suc j)
    then obtain p where "next_placeholders have_cmp into t j p0 = Inr p" "ph_inv t p" "m_current p = Suc j" by auto
    with next_placeholder_inv [OF assms(1-3), of p have_cmp] Suc.prems show ?case by simp
  qed (use p0 in simp)
  have stop: "next_placeholders have_cmp into t (nat (highest t) + j) p0 =
      Inl (range_error (''Too many parameters in one statement: limit is '' @ dec (nat (highest t)) @ ''.''))" for j
  proof (induction j)
    case 0
    from pos obtain i where i: "highest t = int (Suc i)" using zero_less_imp_eq_int [of "highest t"] gr0_implies_Suc by blast
    with run [of i] obtain p where "next_placeholders have_cmp into t i p0 = Inr p" "m_current p = Suc i" by auto
    with i show ?case by (simp add: next_placeholder_def nat_add_distrib)
  qed simp
  show ?thesis
  proof (cases "int k < highest t")
    case True
    with run obtain p where p: "next_placeholders have_cmp into t k p0 = Inr p" "ph_inv t p" "m_current p = Suc k" by blast
    from p(2) have "ph_view p = CHR ''$'' # dec (m_current p) \<and> m_len p < length (m_buf p) \<and> m_buf p ! m_len p = CHR 0x00"
      by (auto simp: ph_inv_def ph_view_def nth_append)
    with True p p0 show ?thesis by simp
  next
    case False
    with stop [of "k - nat (highest t)"] p0 show ?thesis by simp
  qed
qed

lemma string_into_ok: "0 \<le> highest t \<Longrightarrow> into_ok t (\<lambda>mem pos n. string_into_buf mem pos (dec n))"
proof -
  assume t: "0 \<le> highest t"
  have "length (dec n) \<le> digits10 t + 1" if "int n \<le> highest t" for n
    using that t dec_length_mono [of n "nat (highest t)"] by (simp add: digits10_def le_nat_iff)
  then show ?thesis by (fastforce simp: into_ok_def string_into_buf_def copy_to_eq)
qed

lemma placeholders_count_witness:
  "\<exists>p. and_then (new_placeholders (replicate 7 CHR 0x00))
      (next_placeholders True (\<lambda>mem pos n. string_into_buf mem pos (dec n)) \<lparr>is_signed = False, bits = 16\<rparr> 9) = Inr p \<and>
    m_current p = 10 \<and> ph_view p = CHR ''$'' # dec 10"
proof -
  let ?t = "\<lparr>is_signed = False, bits = 16\<rparr> :: int_type"
  have h: "highest ?t = 65535" by (simp add: highest_def)
  have "length (dec 65535) = 5" by (simp add: dec_tens dec_digit)
  then have d: "digits10 ?t = 4" by (simp add: digits10_def h)
  have "into_ok ?t (\<lambda>mem pos n. string_into_buf mem pos (dec n))" by (rule string_into_ok) (simp add: h)
  moreover have "length (replicate 7 (CHR 0x00)) = digits10 ?t + 3" by (simp add: d)
  moreover have k: "int 9 < highest ?t" and ten: "9 + 1 = (10 :: nat)" by (simp_all add: h)
  ultimately show ?thesis
    using placeholders_count [of ?t _ "replicate 7 CHR 0x00" 9 True, unfolded if_P [OF k] ten] by fastforce
qed

section \<open>Separated lists\<close>

text \<open>
  \<open>into_buf\<close> of a value; the one of an optional without a value reads the value that is not there.  \<open>tn\<close> is
  the name of the type.
\<close>

definition value_into_buf :: "string \<Rightarrow> nat \<Rightarrow> sql_value \<Rightarrow> pqxx_error + nat \<times> string" where
  "value_into_buf mem begin v =
     (case v of
        Text s \<Rightarrow> string_into_buf mem begin s
      | Bool b \<Rightarrow> generic_into_buf mem begin ''bool'' (bool_text b)
      | No_text \<Rightarrow> Inl (read_out_of_bounds begin))"

definition value_to_string :: "string \<Rightarrow> sql_value \<Rightarrow> pqxx_error + string" where
  "value_to_string tn v =
     (if v = No_text then Inl (conversion_error (''Attempt to convert null '' @ tn @ '' to a string.''))
      else and_then (size_buffer v) (\<lambda>n.
           and_then (value_into_buf (replicate n CHR 0x00) 0 v) (\<lambda>(stop, buf). Inr (take (stop - 1) buf))))"

fun separated_rest :: "string \<Rightarrow> sql_value list \<Rightarrow> string \<Rightarrow> nat \<Rightarrow> pqxx_error + nat \<times> string" where
  "separated_rest sep [] mem here = Inr (here, mem)"
| "separated_rest sep (v # vs) mem here =
     and_then (copy_to mem here sep) (\<lambda>mem.
     and_then (value_into_buf mem (here + length sep) v) (\<lambda>(here, mem). separated_rest sep vs mem (here - 1)))"

definition separated_list :: "string \<Rightarrow> string \<Rightarrow> sql_value list \<Rightarrow> pqxx_error + string" where
  "separated_list tn sep vs =
     (case vs of
        [] \<Rightarrow> Inr []
      | [v] \<Rightarrow> value_to_string tn v
      | v # ws \<Rightarrow>
          and_then (sum_sizes size_buffer vs) (\<lambda>budget.
          and_then (value_into_buf (replicate (budget + length vs * length sep) CHR 0x00) 0 v) (\<lambda>(here, mem).
          and_then (separated_rest sep ws mem (here - 1)) (\<lambda>(here, mem). Inr (take here mem)))))"

text \<open>The version for tuples, which have at least one item; its arguments are the items in order.\<close>

fun separated_tuple :: "string \<Rightarrow> string \<Rightarrow> sql_value list \<Rightarrow> pqxx_error + string" where
  "separated_tuple tn sep [] = Inr []"
| "separated_tuple tn sep [v] = value_to_string tn v"
| "separated_tuple tn sep (v # w # ws) =
     and_then (value_to_string tn v) (\<lambda>out. and_then (separated_tuple tn sep (w # ws)) (\<lambda>rest. Inr (out @ sep @ rest)))"

text \<open>What both are to give.\<close>

fun plain_text :: "sql_value \<Rightarrow> string" where
  "plain_text (Text s) = s"
| "plain_text (Bool b) = bool_text b"
| "plain_text No_text = []"

fun join :: "string \<Rightarrow> string list \<Rightarrow> string" where
  "join sep [] = []"
| "join sep [x] = x"
| "join sep (x # y # ys) = x @ sep @ join sep (y # ys)"

lemma join_concat: "join sep (x # xs) = x @ concat (map (\<lambda>y. sep @ y) xs)"
  by (induction xs arbitrary: x) simp_all

definition room_for :: "sql_value \<Rightarrow> nat" where
  "room_for v = (case v of Text s \<Rightarrow> length s + 1 | Bool b \<Rightarrow> 6 | No_text \<Rightarrow> 0)"

lemma room_for: "v \<noteq> No_text \<Longrightarrow> size_buffer v = Inr (room_for v) \<and> length (plain_text v) < room_for v"
  by (cases v) (simp_all add: room_for_def bool_text_def)

lemma sum_sizes_room: "No_text \<notin> set vs \<Longrightarrow> sum_sizes size_buffer vs = Inr (sum_list (map room_for vs))"
  by (induction vs) (auto simp: room_for)

lemma value_into_buf_at_end:
  assumes "holds mem n out" and "v \<noteq> No_text" and "length out + length (plain_text v) < n"
  shows "\<exists>mem'. value_into_buf mem (length out) v = Inr (length out + length (plain_text v) + 1, mem') \<and>
    holds mem' n (out @ plain_text v)"
proof -
  from copy_to_end [OF assms(1), of "plain_text v @ [CHR 0x00]"] assms(3) obtain mem' where
    m: "copy_to mem (length out) (plain_text v @ [CHR 0x00]) = Inr mem'" "holds mem' n ((out @ plain_text v) @ [CHR 0x00])" by auto
  from assms(1) have "length mem = n" by (simp add: holds_def)
  with m assms(2, 3) holds_prefix [OF m(2)] show ?thesis
    by (cases v) (auto simp: value_into_buf_def string_into_buf_def generic_into_buf_def Let_def)
qed

lemma value_to_string_text: "v \<noteq> No_text \<Longrightarrow> value_to_string tn v = Inr (plain_text v)"
  using room_for [of v] value_into_buf_at_end [of "replicate (room_for v) CHR 0x00" "room_for v" "[]" v]
  by (auto simp: value_to_string_def holds_def)

lemma separated_tuple_join: "No_text \<notin> set vs \<Longrightarrow> separated_tuple tn sep vs = Inr (join sep (map plain_text vs))"
  by (induction tn sep vs rule: separated_tuple.induct) (auto simp: value_to_string_text)

lemma separated_rest_joins:
  assumes "No_text \<notin> set vs" and "holds mem n out"
    and "length out + (\<Sum>v\<leftarrow>vs. length sep + room_for v) \<le> n"
  shows "\<exists>mem' here. separated_rest sep vs mem (length out) = Inr (here, mem') \<and>
    take here mem' = out @ concat (map (\<lambda>v. sep @ plain_text v) vs)"
  using assms
proof (induction vs arbitrary: mem out)
  case Nil
  then show ?case by (simp add: holds_def)
next
  case (Cons v vs)
  then have v: "v \<noteq> No_text" "length (plain_text v) < room_for v" using room_for [of v] by auto
  from copy_to_end [OF Cons.prems(2), of sep] Cons.prems(3) obtain mem1 where
    m1: "copy_to mem (length out) sep = Inr mem1" "holds mem1 n (out @ sep)" by auto
  from value_into_buf_at_end [OF m1(2) v(1)] v(2) Cons.prems(3) obtain mem2 where
    m2: "value_into_buf mem1 (length out + length sep) v = Inr (length out + length sep + length (plain_text v) + 1, mem2)"
    "holds mem2 n (out @ sep @ plain_text v)" by auto
  with Cons.IH [OF _ m2(2)] Cons.prems(1, 3) v(2) m1 show ?case by (simp add: ac_simps)
qed

text \<open>
  Joining values: for values that are not null, \<open>separated_list\<close> gives their texts with the separator
  between them, without running out of the buffer it sizes beforehand, and the version for tuples, which
  builds the same text by appending strings, gives the same.
\<close>

lemma separated_list_correct:
  assumes "No_text \<notin> set vs"
  shows "separated_list tn sep vs = Inr (join sep (map plain_text vs)) \<and>
    separated_tuple tn sep vs = separated_list tn sep vs"
proof -
  have "separated_list tn sep vs = Inr (join sep (map plain_text vs))"
  proof (cases vs)
    case (Cons v ws)
    show ?thesis
    proof (cases "ws = []")
      case True
      with Cons assms value_to_string_text [of v tn] show ?thesis by (simp add: separated_list_def)
    next
      case False
      let ?n = "sum_list (map room_for vs) + length vs * length sep"
      from assms Cons have v: "v \<noteq> No_text" "length (plain_text v) < room_for v" using room_for [of v] by auto
      have h: "holds (replicate ?n CHR 0x00) ?n []" by (simp add: holds_def)
      from value_into_buf_at_end [OF h v(1)] v(2) Cons obtain mem where
        m: "value_into_buf (replicate ?n CHR 0x00) 0 v = Inr (length (plain_text v) + 1, mem)" "holds mem ?n (plain_text v)" by auto
      have "(\<Sum>w\<leftarrow>ws. length sep + room_for w) = length ws * length sep + sum_list (map room_for ws)"
        by (induction ws) simp_all
      with separated_rest_joins [OF _ m(2), of ws sep] assms Cons v(2) obtain mem' here where
        "separated_rest sep ws mem (length (plain_text v)) = Inr (here, mem')"
        "take here mem' = plain_text v @ concat (map (\<lambda>v. sep @ plain_text v) ws)" by auto
      with m sum_sizes_room [OF assms] Cons False show ?thesis
        by (simp add: separated_list_def join_concat comp_def neq_Nil_conv del: sum_sizes.simps replicate.simps) auto
    qed
  qed (simp add: separated_list_def)
  with separated_tuple_join [OF assms] show ?thesis by simp
qed

lemma separated_list_correct_witness:
  "separated_list ''bool'' '', '' [Bool True, Bool False, Bool True] = Inr ''true, false, true'' \<and>
   separated_tuple ''bool'' '', '' [Bool True, Bool False, Bool True] = Inr ''true, false, true''"
  using separated_list_correct [of "[Bool True, Bool False, Bool True]" "''bool''" "'', ''"]
  by (simp add: bool_text_def del: separated_tuple.simps)

end
