(* ===== verification/Pqxx_Transfer.thy ===== *)
theory Pqxx_Transfer
  imports Pqxx_Stream Pqxx_Client
begin

text \<open>
  Writing rows to the server and reading them back (\<open>pqxx/stream_to.hxx\<close>, \<open>pqxx/stream_from.hxx\<close>), quoting
  of values (\<open>pqxx/connection.hxx\<close>), statement parameters (\<open>pqxx/params.hxx\<close>) and the query functions of
  a transaction (\<open>pqxx/transaction_base.hxx\<close>).  A field written is a \<open>sql_value\<close>: a string, a \<open>bool\<close>
  (an arithmetic type), or an optional string without a value.
\<close>

section \<open>Writing a row\<close>

text \<open>
  \<open>esc\<close> is \<open>escape_field_to_buffer\<close>, compiled elsewhere, which appends the escaped text and a tab to the
  buffer.  The scratch buffer of the escaping is not modelled.
\<close>

definition null_field :: string where
  "null_field = [backslash, CHR ''N'', tab]"

definition estimate_buffer :: "sql_value \<Rightarrow> pqxx_error + nat" where
  "estimate_buffer v = (if v = No_text then Inr (length null_field) else size_buffer v)"

definition append_to_buffer :: "(string \<Rightarrow> string \<Rightarrow> string) \<Rightarrow> string \<Rightarrow> sql_value \<Rightarrow> pqxx_error + string" where
  "append_to_buffer esc buf v =
     (if v = No_text then Inr (buf @ null_field)
      else and_then (estimate_buffer v) (\<lambda>budget.
        case v of
          Bool b \<Rightarrow>
            (let offset = length buf; total = offset + budget in
             and_then (value_into_buf (resize buf total) offset v) (\<lambda>(end_pos, buf).
             and_then (put buf (end_pos - 1) tab) (\<lambda>buf. Inr (resize buf end_pos))))
        | Text s \<Rightarrow> Inr (esc buf s)
        | No_text \<Rightarrow> Inr buf))"

fun append_tuple :: "(string \<Rightarrow> string \<Rightarrow> string) \<Rightarrow> string \<Rightarrow> sql_value list \<Rightarrow> pqxx_error + string" where
  "append_tuple esc buf [] = Inr buf"
| "append_tuple esc buf (v # vs) = and_then (append_to_buffer esc buf v) (\<lambda>buf. append_tuple esc buf vs)"

text \<open>The space is reserved before the fields are appended; reserving changes no text.\<close>

definition budget_tuple :: "sql_value list \<Rightarrow> pqxx_error + nat" where
  "budget_tuple vs = sum_sizes estimate_buffer vs"

definition fill_buffer :: "(string \<Rightarrow> string \<Rightarrow> string) \<Rightarrow> string \<Rightarrow> sql_value list \<Rightarrow> pqxx_error + string" where
  "fill_buffer esc buf vs = and_then (budget_tuple vs) (\<lambda>_. append_tuple esc buf vs)"

section \<open>Reading a row with \<open>stream_from\<close>\<close>

text \<open>
  The fields of the line read last; \<open>parse_line\<close> is compiled elsewhere and a parameter, and gives the
  stream after it.  \<open>extract_into\<close> gives the new value of an item of the tuple, whose old value is \<open>old\<close>.
\<close>

record stream_from =
  m_fields :: "string option list"
  m_finished :: bool

definition extract_into :: "'v stream_target \<Rightarrow> nat \<Rightarrow> 'z stream_from_scheme \<Rightarrow> 'v \<Rightarrow> pqxx_error + 'v" where
  "extract_into t i st old =
     (if \<not> i < length (m_fields st) then Inl terminates
      else if always_null t then
        (case m_fields st ! i of
           Some _ \<Rightarrow> Inl (conversion_error ''Streaming non-null value into null field.'')
         | None \<Rightarrow> Inr old)
      else
        (case m_fields st ! i of
           None \<Rightarrow> (case null_value (target t) of
                      Some v \<Rightarrow> Inr v
                    | None \<Rightarrow> Inl (null_conversion (type_name (target t))))
         | Some s \<Rightarrow> from_string (target t) s))"

fun extract_tuple :: "'v stream_target list \<Rightarrow> nat \<Rightarrow> 'z stream_from_scheme \<Rightarrow> 'v list \<Rightarrow> pqxx_error + 'v list" where
  "extract_tuple (t # ts) i st (x # xs) =
     and_then (extract_into t i st x) (\<lambda>v. and_then (extract_tuple ts (i + 1) st xs) (\<lambda>vs. Inr (v # vs)))"
| "extract_tuple _ i st xs = Inr xs"

definition read_tuple ::
    "('z stream_from_scheme \<Rightarrow> pqxx_error + 'z stream_from_scheme) \<Rightarrow> 'v stream_target list \<Rightarrow> 'z stream_from_scheme \<Rightarrow>
       'v list \<Rightarrow> pqxx_error + 'z stream_from_scheme \<times> 'v list" where
  "read_tuple parse ts st xs =
     (if m_finished st then Inr (st, xs)
      else and_then (parse st) (\<lambda>st.
        if m_finished st then Inr (st, xs)
        else if length (m_fields st) \<noteq> length ts then
          Inl (usage_error (''Tried to extract '' @ dec (length ts) @ '' field(s) from a stream of '' @
            dec (length (m_fields st)) @ ''.''))
        else and_then (extract_tuple ts 0 st xs) (\<lambda>xs. Inr (st, xs))))"

section \<open>Quoting and parameters\<close>

text \<open>
  \<open>esc_to_buf\<close> is libpq's escaping into memory at an offset: the number of bytes it wrote, a zero not
  counted, and the memory.
\<close>

definition quote_value ::
    "(string \<Rightarrow> string \<Rightarrow> nat \<Rightarrow> pqxx_error + nat \<times> string) \<Rightarrow> string \<Rightarrow> sql_value \<Rightarrow> pqxx_error + string" where
  "quote_value esc_to_buf tn v =
     (if v = No_text then Inr ''NULL''
      else and_then (value_to_string tn v) (\<lambda>text.
           and_then (esc_to_buf text (resize [CHR 0x27] (2 + 2 * length text + 1)) 1) (\<lambda>(content_bytes, buf).
           let closing_quote = 1 + content_bytes in
           and_then (put buf closing_quote (CHR 0x27)) (\<lambda>buf. Inr (resize buf (closing_quote + 1))))))"

definition quote_columns :: "(string \<Rightarrow> string) \<Rightarrow> string list \<Rightarrow> pqxx_error + string" where
  "quote_columns quote_name columns = separated_list ''std::string'' '','' (map (Text \<circ> quote_name) columns)"

definition append_param :: "string \<Rightarrow> string option list \<Rightarrow> sql_value \<Rightarrow> pqxx_error + string option list" where
  "append_param tn ps v =
     (if v = No_text then Inr (ps @ [None])
      else and_then (value_to_string tn v) (\<lambda>s. Inr (ps @ [Some s])))"

fun append_multi :: "string \<Rightarrow> string option list \<Rightarrow> sql_value list \<Rightarrow> pqxx_error + string option list" where
  "append_multi tn ps [] = Inr ps"
| "append_multi tn ps (v # vs) = and_then (append_param tn ps v) (\<lambda>ps. append_multi tn ps vs)"

section \<open>Queries of a transaction\<close>

text \<open>
  \<open>r\<close> is what \<open>exec\<close> gives for the statement and its parameters; \<open>one_row\<close>, \<open>opt_row\<close> and \<open>one_field\<close> of a
  result are compiled elsewhere.
\<close>

definition query_value ::
    "(query_result \<Rightarrow> pqxx_error + res_field) \<Rightarrow> 'v field_type \<Rightarrow> pqxx_error + query_result \<Rightarrow> pqxx_error + 'v" where
  "query_value one_field ft r = and_then (and_then r one_field) (as_value ft)"

definition query_value_params ::
    "(query_result \<Rightarrow> pqxx_error + res_field) \<Rightarrow> 'v field_type \<Rightarrow> pqxx_error + query_result \<Rightarrow> pqxx_error + 'v" where
  "query_value_params one_field ft r =
     and_then (and_then (and_then r (expect_columns 1)) one_field) (as_value ft)"

definition query1 ::
    "(query_result \<Rightarrow> pqxx_error + res_row) \<Rightarrow> nat list \<Rightarrow> 'v field_type list \<Rightarrow> pqxx_error + query_result \<Rightarrow> pqxx_error + 'v list" where
  "query1 one_row order fts r =
     and_then (and_then (and_then r (expect_columns (length fts))) one_row) (row_as order fts)"

definition query1_params ::
    "(query_result \<Rightarrow> pqxx_error + res_row) \<Rightarrow> nat list \<Rightarrow> 'v field_type list \<Rightarrow> pqxx_error + query_result \<Rightarrow> pqxx_error + 'v list" where
  "query1_params one_row order fts r = and_then (and_then r one_row) (row_as order fts)"

definition query01 ::
    "(query_result \<Rightarrow> pqxx_error + res_row option) \<Rightarrow> nat list \<Rightarrow> 'v field_type list \<Rightarrow> pqxx_error + query_result \<Rightarrow>
       pqxx_error + 'v list option" where
  "query01 opt_row order fts r =
     and_then (and_then r opt_row) (\<lambda>row.
       case row of None \<Rightarrow> Inr None | Some row \<Rightarrow> and_then (row_as order fts row) (\<lambda>vs. Inr (Some vs)))"

definition query_iter :: "'v field_type list \<Rightarrow> pqxx_error + query_result \<Rightarrow> 'v list list \<times> pqxx_error option" where
  "query_iter fts r = (case r of Inl e \<Rightarrow> ([], Some e) | Inr r \<Rightarrow> iterate_result fts r)"

definition query_n :: "nat \<Rightarrow> 'v field_type list \<Rightarrow> pqxx_error + query_result \<Rightarrow> 'v list list \<times> pqxx_error option" where
  "query_n rows fts r = query_iter fts (and_then r (expect_rows rows))"

definition for_query :: "nat list \<Rightarrow> 'v field_type list \<Rightarrow> pqxx_error + query_result \<Rightarrow> 'v list list \<times> pqxx_error option" where
  "for_query order fts r = (case r of Inl e \<Rightarrow> ([], Some e) | Inr r \<Rightarrow> for_each order fts r)"

section \<open>What is written is read back\<close>

lemma append_bool: "append_to_buffer esc buf (Bool b) = Inr (buf @ bool_text b @ [tab])"
proof -
  let ?mem = "resize buf (length buf + 6)"
  have h: "holds ?mem (length buf + 6) buf" by (simp add: holds_def resize_def)
  have l: "length (bool_text b) < 6" by (simp add: bool_text_def)
  from value_into_buf_at_end [OF h, of "Bool b"] l obtain mem where
    m: "value_into_buf ?mem (length buf) (Bool b) = Inr (length buf + length (bool_text b) + 1, mem)"
    "holds mem (length buf + 6) (buf @ bool_text b)" by auto
  have "length (buf @ bool_text b) < length buf + 6" using l by simp
  from put_holds [OF m(2) this, of tab] obtain mem' where
    p: "put mem (length (buf @ bool_text b)) tab = Inr mem'" "holds mem' (length buf + 6) ((buf @ bool_text b) @ [tab])" .
  from p(2) have "resize mem' (length buf + length (bool_text b) + 1) = buf @ bool_text b @ [tab]"
    by (simp add: resize_def holds_def)
  with m p show ?thesis by (simp add: append_to_buffer_def estimate_buffer_def Let_def)
qed

text \<open>
  What is relied on of the escaping: a text of whole characters is appended in the format of \<open>COPY\<close>.  A
  value carries a field if it is null or that text, or the word for a Boolean.
\<close>

definition escape_ok :: "encoding_group \<Rightarrow> (string \<Rightarrow> string \<Rightarrow> string) \<Rightarrow> bool" where
  "escape_ok enc esc \<longleftrightarrow> (\<forall>buf gs. (\<forall>g \<in> set gs. glyph_of (glyph_scanner enc) g) \<longrightarrow>
     esc buf (concat gs) = buf @ copy_text gs @ [tab])"

definition carries :: "encoding_group \<Rightarrow> sql_value \<Rightarrow> string list option \<Rightarrow> bool" where
  "carries enc v f \<longleftrightarrow>
     (case v of
        No_text \<Rightarrow> f = None
      | Text s \<Rightarrow> \<exists>gs. f = Some gs \<and> s = concat gs \<and> (\<forall>g \<in> set gs. glyph_of (glyph_scanner enc) g)
      | Bool b \<Rightarrow> f = Some (map (\<lambda>c. [c]) (bool_text b)))"

lemma ascii_glyph: "ascii c \<Longrightarrow> c \<noteq> nul \<Longrightarrow> glyph_of (glyph_scanner enc) [c]"
  by (auto simp: glyph_of_def nth_append intro!: scan_ascii)

lemma bool_glyphs:
  "copy_text (map (\<lambda>c. [c]) (bool_text b)) = bool_text b"
  "\<forall>c \<in> set (bool_text b). ascii c \<and> c \<noteq> nul"
  by (cases b; simp add: bool_text_def copy_escape_def backslash_def ascii_def byte_of_def nul_def)+

lemma append_to_buffer_copy:
  assumes "escape_ok enc esc" and "carries enc v f"
  shows "append_to_buffer esc buf v = Inr (buf @ copy_field f @ [tab])"
proof (cases v)
  case (Text s)
  with assms show ?thesis
    by (auto simp: append_to_buffer_def estimate_buffer_def carries_def escape_ok_def copy_field_def)
next
  case (Bool b)
  with assms(2) show ?thesis by (simp add: append_bool carries_def copy_field_def bool_glyphs)
qed (use assms(2) in \<open>simp add: append_to_buffer_def null_field_def carries_def copy_field_def\<close>)

lemma fill_buffer_copy:
  assumes "escape_ok enc esc" and "list_all2 (carries enc) vs fs"
  shows "fill_buffer esc buf vs = Inr (buf @ copy_fields fs)"
proof -
  have "append_tuple esc buf vs = Inr (buf @ copy_fields fs)" for buf
    using assms(2) by (induction arbitrary: buf rule: list_all2_induct)
      (simp_all add: append_to_buffer_copy [OF assms(1)])
  moreover have "\<exists>n. budget_tuple vs = Inr n"
    unfolding budget_tuple_def
  proof (induction vs)
    case (Cons v vs)
    then show ?case by (cases v) (auto simp: estimate_buffer_def)
  qed simp
  ultimately show ?thesis by (auto simp: fill_buffer_def)
qed

text \<open>
  C37. A row of texts, truth values and nulls that \<open>stream_to\<close> writes is the row that \<open>stream_query\<close> reads:
  filling the row buffer succeeds, and when the server sends that line back as it is (with the newline in
  place of the last tab, which the reader replaces again), parsing it gives the conversions of just the texts that were written, or the first error of these conversions.  Assumed:
  the escaping, which is compiled elsewhere, is that of the text format of \<open>COPY\<close>; the texts consist of
  whole characters of the encoding, which is not MULE_INTERNAL; and, where the compiler has an \<open>assume\<close>
  attribute, no text begins with an escaped character and no escaped character follows another.
\<close>
theorem written_row_reads:
  assumes "escape_ok enc esc" and "list_all2 (carries enc) vs fs" and "vs \<noteq> []"
    and "\<forall>f \<in> set fs. field_ok have_assume (glyph_scanner enc) f"
    and "get_s_char_finder [tab, backslash] enc = Inr finder" and "enc \<noteq> MULE_INTERNAL"
    and "length ts = length vs" and "m_char_finder st = Some finder"
  shows "\<exists>line. fill_buffer esc [] vs = Inr line \<and>
    and_then (parse_line have_assume ts (line @ [nul]) (length line - 1) st) (\<lambda>(xs, st'). Inr xs) =
      convert_fields ts (map (map_option concat) fs)"
proof -
  from fill_buffer_copy [OF assms(1, 2), of "[]"] have l: "fill_buffer esc [] vs = Inr (copy_fields fs)" by simp
  have "fs \<noteq> []" "length ts = length fs"
    using assms(2, 3, 7) list_all2_lengthD by fastforce+
  with l show ?thesis
    using copy_line_parses [OF assms(5, 6, 4) _ _ assms(8), of ts] by (simp add: copy_memory_def)
qed

definition mono_escape :: "string \<Rightarrow> string \<Rightarrow> string" where
  "mono_escape buf s = buf @ copy_text (map (\<lambda>c. [c]) s) @ [tab]"

lemma mono_escape_ok: "escape_ok MONOBYTE mono_escape"
proof -
  have "map (\<lambda>c. [c]) (concat gs) = gs" if "\<forall>g \<in> set gs. glyph_of (glyph_scanner MONOBYTE) g" for gs
    using that
  proof (induction gs)
    case (Cons g gs)
    then have "glyph_of (glyph_scanner MONOBYTE) g" by (metis list.set_intros(1))
    then have "glyph_scanner MONOBYTE ([] @ g @ []) (length ([] :: string)) = Inr (length ([] :: string) + length g)" "g \<noteq> []"
      unfolding glyph_of_def by blast+
    then have "length g = 1" by (simp add: scan_MONOBYTE_def)
    with Cons show ?case by (cases g) simp_all
  qed simp
  then show ?thesis by (simp add: escape_ok_def mono_escape_def)
qed

lemma written_row_reads_witness:
  "\<exists>line st. fill_buffer mono_escape [] [Text [CHR ''a'', tab, CHR ''b''], No_text, Bool True] = Inr line \<and>
    and_then (parse_line True [sample_target, sample_target, sample_target] (line @ [nul]) (length line - 1) st)
      (\<lambda>(xs, st'). Inr xs) = Inr [Some (Text [CHR ''a'', tab, CHR ''b'']), None, Some (Text ''true'')]"
proof -
  let ?vs = "[Text [CHR ''a'', tab, CHR ''b''], No_text, Bool True]" and ?ts = "[sample_target, sample_target, sample_target]"
  let ?fs = "[Some [[CHR ''a''], [tab], [CHR ''b'']], None, Some (map (\<lambda>c. [c]) (bool_text True))]"
  obtain finder where f: "get_s_char_finder [tab, backslash] MONOBYTE = Inr finder"
    by (simp add: get_s_char_finder_def map_ascii_search_group_def)
  have c: "list_all2 (carries MONOBYTE) ?vs ?fs" by (simp add: carries_def mono_glyph [simplified] nul_def tab_def)
  have k: "\<forall>x \<in> set ?fs. field_ok True (glyph_scanner MONOBYTE) x"
    by (simp add: field_ok_def bool_text_def mono_glyph [simplified] plain_iff tab_def nul_def backslash_def)
  obtain st :: stream_query where st: "m_char_finder st = Some finder" using that [of "undefined\<lparr>m_char_finder := Some finder\<rparr>"] by simp
  have v: "convert_fields ?ts (map (map_option concat) ?fs) = Inr [Some (Text [CHR ''a'', tab, CHR ''b'']), None, Some (Text ''true'')]"
    by (simp add: convert_text_def sample_target_def optional_type_def text_type_def bool_text_def)
  have "length ?ts = length ?vs" by simp
  from written_row_reads [OF mono_escape_ok c _ k f _ this st] v show ?thesis by auto
qed

text \<open>Both readers convert the fields of a line alike, for types that have values other than null.\<close>

lemma extract_tuple_converts:
  assumes "\<forall>t \<in> set ts. \<not> always_null t" and "length xs = length ts" and "i + length ts = length (m_fields st)"
  shows "extract_tuple ts i st xs = convert_fields ts (drop i (m_fields st))"
  using assms
proof (induction ts arbitrary: i xs)
  case (Cons t ts)
  then obtain x xs' where xs: "xs = x # xs'" by (cases xs) auto
  from Cons.prems(3) have i: "i < length (m_fields st)" by simp
  then have "drop i (m_fields st) = m_fields st ! i # drop (Suc i) (m_fields st)" by (rule Cons_nth_drop_Suc [symmetric])
  moreover have "extract_into t i st x = convert_text t (m_fields st ! i)"
    using i Cons.prems(1) by (simp add: extract_into_def convert_text_def)
  ultimately show ?case using Cons xs by simp
qed simp

section \<open>Quoting and parameters are complete\<close>

definition esc_ok :: "(string \<Rightarrow> string) \<Rightarrow> (string \<Rightarrow> string \<Rightarrow> nat \<Rightarrow> pqxx_error + nat \<times> string) \<Rightarrow> bool" where
  "esc_ok escaped esc \<longleftrightarrow> (\<forall>text. length (escaped text) \<le> 2 * length text) \<and>
     (\<forall>text mem i. i + 2 * length text + 1 \<le> length mem \<longrightarrow>
       (\<exists>rest. length rest = length mem - (i + length (escaped text) + 1) \<and>
         esc text mem i = Inr (length (escaped text), take i mem @ escaped text @ CHR 0x00 # rest)))"

text \<open>A quoted value fits the buffer \<open>quote\<close> makes for it, whatever is escaped.\<close>

lemma quote_value_text:
  assumes "esc_ok escaped esc" and "v \<noteq> No_text"
  shows "quote_value esc tn v = Inr ([CHR 0x27] @ escaped (plain_text v) @ [CHR 0x27])"
proof -
  let ?t = "plain_text v" and ?mem = "resize [CHR 0x27] (2 + 2 * length (plain_text v) + 1)"
  have m: "length ?mem = 2 + 2 * length ?t + 1" "take 1 ?mem = [CHR 0x27]" by (simp_all add: resize_def)
  from assms(1) have "1 + 2 * length ?t + 1 \<le> length ?mem \<longrightarrow>
      (\<exists>rest. esc ?t ?mem 1 = Inr (length (escaped ?t), take 1 ?mem @ escaped ?t @ CHR 0x00 # rest))"
    unfolding esc_ok_def by blast
  with m obtain rest where e: "esc ?t ?mem 1 = Inr (length (escaped ?t), [CHR 0x27] @ escaped ?t @ CHR 0x00 # rest)" by auto
  have "put ([CHR 0x27] @ escaped ?t @ CHR 0x00 # rest) (1 + length (escaped ?t)) (CHR 0x27) =
      Inr ([CHR 0x27] @ escaped ?t @ CHR 0x27 # rest)"
    by (simp add: put_def list_update_append)
  with e assms(2) value_to_string_text [OF assms(2), of tn] show ?thesis
    by (simp add: quote_value_def Let_def resize_def)
qed

lemma append_multi_params:
  "append_multi tn ps vs = Inr (ps @ map (\<lambda>v. if v = No_text then None else Some (plain_text v)) vs)"
  by (induction vs arbitrary: ps) (auto simp: append_param_def value_to_string_text)

text \<open>The two forms of \<open>query1\<close> return the same rows, although only one checks the columns first.\<close>

lemma query1_agrees:
  assumes "\<forall>r row. one_row r = Inr row \<longrightarrow> row_home row = r"
  shows "query1 one_row order fts r = Inr vs \<longleftrightarrow> query1_params one_row order fts r = Inr vs"
proof (cases r)
  case (Inr res)
  have e: "expect_columns n res = Inr r' \<longleftrightarrow> r' = res \<and> res_columns res = n" for n r'
    by (auto simp: expect_columns_def split: option.splits)
  from assms show ?thesis by (auto simp: query1_def query1_params_def Inr and_then_Inr row_as_def check_size_def e split: if_splits)
qed (simp add: query1_def query1_params_def)

end
