(* ===== verification/Pqxx_Stream_From.thy ===== *)
theory Pqxx_Stream_From
  imports Pqxx_Transfer
begin

text \<open>
  The iterator over a \<open>stream_from\<close> (\<open>pqxx/internal/stream_iterator.hxx\<close>) and the loop with it, which visits
  the rows that the loop over a \<open>stream_query\<close> visits.
\<close>

section \<open>The iterator\<close>

text \<open>
  Whether the iterator points to the stream, or is at the end, and the tuple it holds.  \<open>parse\<close> is the line
  parser of the stream (\<open>stream_from::parse_line\<close>), compiled elsewhere and a parameter throughout; what it
  keeps of its own, the row buffer and the connection, is the rest of the stream's record.
\<close>

record 'v stream_input =
  si_home :: bool
  si_value :: "'v list"

type_synonym 'z line_reader = "'z stream_from_scheme \<Rightarrow> pqxx_error + 'z stream_from_scheme"

definition stream_input_end :: "'v list \<Rightarrow> 'v stream_input" where
  "stream_input_end vs = \<lparr>si_home = False, si_value = vs\<rparr>"

definition advance ::
    "'z line_reader \<Rightarrow> 'v stream_target list \<Rightarrow> 'z stream_from_scheme \<Rightarrow> 'v stream_input \<Rightarrow>
       pqxx_error + 'z stream_from_scheme \<times> 'v stream_input" where
  "advance parse ts st it =
     (if \<not> si_home it then Inl (usage_error ''Moving stream_from iterator beyond end().'')
      else and_then (read_tuple parse ts st (si_value it)) (\<lambda>(st, vs).
           Inr (st, it\<lparr>si_home := \<not> m_finished st, si_value := vs\<rparr>)))"

definition stream_input_begin ::
    "'z line_reader \<Rightarrow> 'v stream_target list \<Rightarrow> 'z stream_from_scheme \<Rightarrow> 'v list \<Rightarrow>
       pqxx_error + 'z stream_from_scheme \<times> 'v stream_input" where
  "stream_input_begin parse ts st vs = advance parse ts st \<lparr>si_home = True, si_value = vs\<rparr>"

definition stream_input_next ::
    "'z line_reader \<Rightarrow> 'v stream_target list \<Rightarrow> 'z stream_from_scheme \<Rightarrow> 'v stream_input \<Rightarrow>
       pqxx_error + 'z stream_from_scheme \<times> 'v stream_input" where
  "stream_input_next parse ts st it = advance parse ts st it"

definition stream_input_eq :: "'v stream_input \<Rightarrow> 'v stream_input \<Rightarrow> bool" where
  "stream_input_eq a b \<longleftrightarrow> si_home a = si_home b"

section \<open>The loop\<close>

text \<open>
  The loop \<open>for (auto const &t : stream.iter<...>())\<close>: the tuples its body was given, and how it ended; \<open>vs\<close> are
  the initial values of the tuple.  A parser that never comes to an end keeps it running, so its result
  is optional: \<open>None\<close> is a loop that does not end.
\<close>

partial_function (option) stream_input_loop ::
    "'z line_reader \<Rightarrow> 'v stream_target list \<Rightarrow> 'z stream_from_scheme \<Rightarrow> 'v stream_input \<Rightarrow> 'v list list \<Rightarrow>
       ('v list list \<times> loop_end) option" where
  "stream_input_loop parse ts st it visited =
     (if stream_input_eq it (stream_input_end (si_value it)) then Some (visited, Finished)
      else (case stream_input_next parse ts st it of
              Inl e \<Rightarrow> Some (visited @ [si_value it], Threw e)
            | Inr (st, it') \<Rightarrow> stream_input_loop parse ts st it' (visited @ [si_value it])))"

definition stream_input_rows ::
    "'z line_reader \<Rightarrow> 'v stream_target list \<Rightarrow> 'z stream_from_scheme \<Rightarrow> 'v list \<Rightarrow>
       ('v list list \<times> loop_end) option" where
  "stream_input_rows parse ts st vs =
     (case stream_input_begin parse ts st vs of
        Inl e \<Rightarrow> Some ([], Threw e)
      | Inr (st, it) \<Rightarrow> stream_input_loop parse ts st it [])"

text \<open>
  What is documented of the line parser: it sets the fields of the next line, or, when there is none,
  finishes the stream; \<open>serves\<close> says that it does so for these lines, and then finishes (\<open>None\<close>) or
  throws.
\<close>

fun serves :: "'z line_reader \<Rightarrow> 'z stream_from_scheme \<Rightarrow> string option list list \<Rightarrow> pqxx_error option \<Rightarrow> bool" where
  "serves parse st [] ending =
     (case parse st of Inl e \<Rightarrow> ending = Some e | Inr st' \<Rightarrow> ending = None \<and> m_finished st')"
| "serves parse st (l # ls) ending =
     (case parse st of
        Inl e \<Rightarrow> False
      | Inr st' \<Rightarrow> \<not> m_finished st' \<and> m_fields st' = l \<and> serves parse st' ls ending)"

fun then_ends :: "pqxx_error option \<Rightarrow> 'v list list \<times> loop_end \<Rightarrow> 'v list list \<times> loop_end" where
  "then_ends (Some e) (visited, Finished) = (visited, Threw e)"
| "then_ends _ r = r"

lemma read_tuple_line:
  assumes "serves parse st (l # ls) ending" and "\<not> m_finished st" and "\<forall>t \<in> set ts. \<not> always_null t"
    and "length vs = length ts" and "length l = length ts"
  obtains st' where "read_tuple parse ts st vs = and_then (convert_fields ts l) (\<lambda>xs. Inr (st', xs))"
    "\<not> m_finished st'" "serves parse st' ls ending"
proof -
  from assms(1) obtain st' where st': "parse st = Inr st'" "\<not> m_finished st'" "m_fields st' = l" "serves parse st' ls ending"
    by (auto split: sum.splits)
  with assms(2-5) extract_tuple_converts [of ts vs 0 st']
  have "read_tuple parse ts st vs = and_then (convert_fields ts l) (\<lambda>xs. Inr (st', xs))" by (simp add: read_tuple_def)
  with st'(2,4) that show ?thesis by blast
qed

lemma read_tuple_end:
  assumes "serves parse st [] ending" and "\<not> m_finished st"
  shows "case read_tuple parse ts st vs of
      Inl e \<Rightarrow> ending = Some e | Inr (st', vs') \<Rightarrow> ending = None \<and> m_finished st'"
  using assms by (auto simp: read_tuple_def split: sum.splits)

lemma convert_fields_length: "convert_fields ts l = Inr vs \<Longrightarrow> length l = length ts \<Longrightarrow> length vs = length ts"
  by (induction ts l arbitrary: vs rule: convert_fields.induct) (auto simp: and_then_Inr)

lemma stream_input_loop_end:
  "\<not> si_home it \<Longrightarrow> stream_input_loop parse ts st it visited = Some (visited, Finished)"
  by (subst stream_input_loop.simps) (simp add: stream_input_eq_def stream_input_end_def)

lemma stream_input_loop_rows:
  assumes "\<forall>t \<in> set ts. \<not> always_null t" and "\<forall>l \<in> set lines. length l = length ts" and "serves parse st lines ending"
    and "\<not> m_finished st" and "si_home it" and "length (si_value it) = length ts"
  shows "stream_input_loop parse ts st it visited = Some (then_ends ending (visit_rows ts lines (visited @ [si_value it])))"
  using assms(2-6)
proof (induction lines arbitrary: st it visited)
  case Nil
  from read_tuple_end [OF Nil(2,3), of ts "si_value it"] show ?case
    using Nil.prems
    by (subst stream_input_loop.simps)
      (auto simp: stream_input_eq_def stream_input_end_def stream_input_next_def advance_def stream_input_loop_end
        split: sum.splits)
next
  case (Cons l lines)
  from Cons.prems have "length l = length ts" by simp
  from read_tuple_line [OF Cons.prems(2,3) assms(1) Cons.prems(5) this] obtain st'
    where r: "read_tuple parse ts st (si_value it) = and_then (convert_fields ts l) (\<lambda>xs. Inr (st', xs))"
      "\<not> m_finished st'" "serves parse st' lines ending" by blast
  show ?case
  proof (cases "convert_fields ts l")
    case (Inl e)
    with r Cons.prems show ?thesis
      by (subst stream_input_loop.simps)
        (cases ending; simp add: stream_input_eq_def stream_input_end_def stream_input_next_def advance_def)
  next
    case (Inr vs)
    with Cons.prems have "length vs = length ts" by (auto intro: convert_fields_length)
    with Cons.IH [of st' "it\<lparr>si_home := True, si_value := vs\<rparr>" "visited @ [si_value it]"] Inr r Cons.prems
    show ?thesis
      by (subst stream_input_loop.simps)
        (simp add: stream_input_eq_def stream_input_end_def stream_input_next_def advance_def)
  qed
qed

text \<open>
  C35. Both ways of streaming visit the same rows.  When the line parser of a \<open>stream_from\<close> serves some lines,
  each with as many fields as there are targets, and then finishes the stream or throws, the loop over
  the stream ends: it has visited the converted fields of every line, in order, up to the first conversion
  that fails, and ended with that failure, with the parser's exception, or normally at the end of the
  lines.  These are the rows that the loop over a \<open>stream_query\<close> is shown to visit (\<open>visit_rows\<close>); the
  iterator is never moved past the end.  The targets are not of a type whose values are all null, for
  which the two differ (\<open>stream_query\<close> has no value to return), and the stream has not been finished.
\<close>
theorem stream_input_visits:
  assumes "serves parse st lines ending" and "\<not> m_finished st" and "\<forall>l \<in> set lines. length l = length ts"
    and "\<forall>t \<in> set ts. \<not> always_null t" and "length vs = length ts"
  shows "stream_input_rows parse ts st vs = Some (then_ends ending (visit_rows ts lines []))"
proof (cases lines)
  case Nil
  with read_tuple_end [of parse st ending ts vs] assms(1,2) show ?thesis
    by (auto simp: stream_input_rows_def stream_input_begin_def advance_def stream_input_loop_end split: sum.splits)
next
  case (Cons l ls)
  with assms have "serves parse st (l # ls) ending" "length l = length ts" by simp_all
  from read_tuple_line [OF this(1) assms(2,4,5) this(2)] obtain st'
    where r: "read_tuple parse ts st vs = and_then (convert_fields ts l) (\<lambda>xs. Inr (st', xs))"
      "\<not> m_finished st'" "serves parse st' ls ending" by blast
  show ?thesis
  proof (cases "convert_fields ts l")
    case (Inl e)
    with r Cons show ?thesis by (cases ending; simp add: stream_input_rows_def stream_input_begin_def advance_def)
  next
    case (Inr xs)
    with assms(3) Cons have "length xs = length ts" by (auto intro: convert_fields_length)
    with stream_input_loop_rows [OF assms(4) _ r(3,2), of "\<lparr>si_home = True, si_value = xs\<rparr>" "[]"] Inr r Cons assms(3)
    show ?thesis by (simp add: stream_input_rows_def stream_input_begin_def advance_def)
  qed
qed

text \<open>A parser that takes its lines from a list kept with the stream.\<close>

definition list_reader :: "string option list list line_reader" where
  "list_reader st =
     (case stream_from.more st of
        [] \<Rightarrow> Inr (st\<lparr>m_finished := True\<rparr>)
      | l # ls \<Rightarrow> Inr (stream_from.more_update (\<lambda>_. ls) (st\<lparr>m_fields := l\<rparr>)))"

lemma stream_input_visits_witness:
  "stream_input_rows list_reader [sample_target, sample_target]
     \<lparr>m_fields = [], m_finished = False, \<dots> = [[Some ''a'', None], [None, Some ''b'']]\<rparr> [None, None] =
   Some (visit_rows [sample_target, sample_target] [[Some ''a'', None], [None, Some ''b'']] [])"
proof -
  let ?lines = "[[Some ''a'', None], [None, Some ''b'']]" and ?ts = "[sample_target, sample_target]"
  let ?st = "\<lparr>m_fields = [], m_finished = False, \<dots> = ?lines\<rparr>"
  have "serves list_reader ?st ?lines None" by (simp add: list_reader_def)
  from stream_input_visits [OF this, of ?ts "[None, None]"] show ?thesis by (simp add: sample_target_def)
qed

end
