(* ===== verification/Pqxx_Convert.thy ===== *)
theory Pqxx_Convert
  imports Pqxx_Transfer
begin

text \<open>
  Conversion of values to and from text (\<open>pqxx/internal/conversions.hxx\<close>, \<open>pqxx/strconv.hxx\<close>,
  \<open>pqxx/internal/concat.hxx\<close>): the traits of each type, the contract that their users rely on, and \<open>to_string\<close>,
  \<open>into_string\<close> and \<open>concat\<close> on top of it.  The conversion of numbers, the parsing of \<open>bool\<close> and the escaping
  of binary data are compiled elsewhere and are a parameter.  The names of types are given by the
  implementation; here they are short ones.
\<close>

section \<open>The traits of a type\<close>

text \<open>
  What the specialisations of \<open>string_traits\<close>, \<open>nullness\<close>, \<open>param_format\<close> and \<open>is_unquoted_safe\<close> give a
  type: its name, whether a value is null, the size of the buffer a value needs, writing into the buffer
  from a position to the end of the memory (the position after the final zero, and the memory), a view of
  the text (\<open>None\<close> when the view is null; the memory after it), parsing (\<open>None\<close> where it is deleted),
  whether it goes into arrays unquoted, and the format as a parameter.
\<close>

datatype param_format = Text_format | Binary_format

record 'v traits =
  t_name :: string
  t_null :: "'v \<Rightarrow> bool"
  t_size :: "'v \<Rightarrow> pqxx_error + nat"
  t_into :: "string \<Rightarrow> nat \<Rightarrow> 'v \<Rightarrow> pqxx_error + nat \<times> string"
  t_view :: "string \<Rightarrow> nat \<Rightarrow> 'v \<Rightarrow> pqxx_error + string option \<times> string"
  t_parse :: "(string \<Rightarrow> pqxx_error + 'v) option"
  t_unquoted :: bool
  t_format :: "'v \<Rightarrow> pqxx_error + param_format"

text \<open>
  The library's compiled part: writing an integer into a buffer, showing it as a view, and parsing it;
  parsing a \<open>bool\<close>; escaping binary data into a buffer, and the reverse.
\<close>

record compiled =
  num_into :: "string \<Rightarrow> nat \<Rightarrow> int_type \<Rightarrow> int \<Rightarrow> pqxx_error + nat \<times> string"
  num_view :: "string \<Rightarrow> nat \<Rightarrow> int_type \<Rightarrow> int \<Rightarrow> pqxx_error + string \<times> string"
  num_parse :: "int_type \<Rightarrow> string \<Rightarrow> pqxx_error + int"
  bool_parse :: "string \<Rightarrow> pqxx_error + bool"
  bin_into :: "string \<Rightarrow> string \<Rightarrow> nat \<Rightarrow> pqxx_error + string"
  bin_parse :: "string \<Rightarrow> pqxx_error + string"

text \<open>\<open>through_buf\<close> is \<open>generic_to_buf\<close>: the view that \<open>into_buf\<close> makes, null for a null value.\<close>

definition through_buf ::
    "('v \<Rightarrow> bool) \<Rightarrow> (string \<Rightarrow> nat \<Rightarrow> 'v \<Rightarrow> pqxx_error + nat \<times> string) \<Rightarrow> string \<Rightarrow> nat \<Rightarrow> 'v \<Rightarrow>
       pqxx_error + string option \<times> string" where
  "through_buf null into mem begin v =
     (if null v then Inr (None, mem)
      else and_then (into mem begin v) (\<lambda>(stop, mem). Inr (Some (segment mem begin (stop - 1)), mem)))"

section \<open>Arithmetic types\<close>

definition integral_size_buffer :: "int_type \<Rightarrow> nat" where
  "integral_size_buffer t = (if is_signed t then 1 else 0) + digits10 t + 1 + 1"

definition integral_traits :: "compiled \<Rightarrow> int_type \<Rightarrow> int traits" where
  "integral_traits c t =
     \<lparr>t_name = ''integer'', t_null = \<lambda>x. False, t_size = \<lambda>x. Inr (integral_size_buffer t),
      t_into = \<lambda>mem begin x. num_into c mem begin t x,
      t_view = \<lambda>mem begin x. and_then (num_view c mem begin t x) (\<lambda>(s, mem). Inr (Some s, mem)),
      t_parse = Some (num_parse c t), t_unquoted = True, t_format = \<lambda>x. Inr Text_format\<rparr>"

definition enum_traits :: "('e \<Rightarrow> 'i) \<Rightarrow> ('i \<Rightarrow> 'e) \<Rightarrow> 'i traits \<Rightarrow> 'e traits" where
  "enum_traits to_underlying cast impl =
     \<lparr>t_name = ''enum'', t_null = \<lambda>e. False, t_size = \<lambda>e. t_size impl (to_underlying e),
      t_into = \<lambda>mem begin e. t_into impl mem begin (to_underlying e),
      t_view = \<lambda>mem begin e. t_view impl mem begin (to_underlying e),
      t_parse = (case t_parse impl of
          None \<Rightarrow> None
        | Some from_impl \<Rightarrow> Some (\<lambda>s. and_then (from_impl s) (\<lambda>i. Inr (cast i)))),
      t_unquoted = False, t_format = \<lambda>e. Inr Text_format\<rparr>"

definition bool_traits :: "compiled \<Rightarrow> bool traits" where
  "bool_traits c =
     \<lparr>t_name = ''bool'', t_null = \<lambda>b. False, t_size = \<lambda>b. Inr 6,
      t_into = \<lambda>mem begin b. generic_into_buf mem begin ''bool'' (bool_text b),
      t_view = \<lambda>mem begin b. Inr (Some (bool_text b), mem),
      t_parse = Some (bool_parse c), t_unquoted = True, t_format = \<lambda>b. Inr Text_format\<rparr>"

text \<open>
  A floating-point type, by its decimal limits (\<open>min_exponent10\<close> without its sign): the digits of a number
  and the size of the buffer.  The conversions themselves are compiled elsewhere.
\<close>

record float_type =
  max_digits10 :: nat
  max_exponent10 :: nat
  neg_min_exponent10 :: nat

fun float_digits10 :: "nat \<Rightarrow> nat" where
  "float_digits10 v = (if v < 10 then 1 else 1 + float_digits10 (v div 10))"

declare float_digits10.simps [simp del]

definition float_size_buffer :: "float_type \<Rightarrow> nat" where
  "float_size_buffer f =
     (let max_pos_exp = float_digits10 (max_exponent10 f);
          max_neg_exp = float_digits10 (max_digits10 f + neg_min_exponent10 f) in
      1 + 1 + max_digits10 f + 1 + 1 + max max_pos_exp max_neg_exp + 1)"

text \<open>The built-in types that have these conversions, on a machine with 64-bit \<open>long\<close> and x87 \<open>long double\<close>.\<close>

datatype builtin = Short | Unsigned_short | Plain_int | Unsigned | Long | Unsigned_long | Long_long | Unsigned_long_long

fun builtin_type :: "builtin \<Rightarrow> int_type" where
  "builtin_type Short = \<lparr>is_signed = True, bits = 16\<rparr>"
| "builtin_type Unsigned_short = \<lparr>is_signed = False, bits = 16\<rparr>"
| "builtin_type Plain_int = \<lparr>is_signed = True, bits = 32\<rparr>"
| "builtin_type Unsigned = \<lparr>is_signed = False, bits = 32\<rparr>"
| "builtin_type Long = \<lparr>is_signed = True, bits = 64\<rparr>"
| "builtin_type Unsigned_long = \<lparr>is_signed = False, bits = 64\<rparr>"
| "builtin_type Long_long = \<lparr>is_signed = True, bits = 64\<rparr>"
| "builtin_type Unsigned_long_long = \<lparr>is_signed = False, bits = 64\<rparr>"

definition builtin_traits :: "compiled \<Rightarrow> builtin \<Rightarrow> int traits" where
  "builtin_traits c b = integral_traits c (builtin_type b)"

datatype builtin_float = Float | Double | Long_double

fun builtin_float_type :: "builtin_float \<Rightarrow> float_type" where
  "builtin_float_type Float = \<lparr>max_digits10 = 9, max_exponent10 = 38, neg_min_exponent10 = 37\<rparr>"
| "builtin_float_type Double = \<lparr>max_digits10 = 17, max_exponent10 = 308, neg_min_exponent10 = 307\<rparr>"
| "builtin_float_type Long_double = \<lparr>max_digits10 = 21, max_exponent10 = 4932, neg_min_exponent10 = 4931\<rparr>"

section \<open>Text types\<close>

text \<open>
  A C string is \<open>None\<close> for a null pointer and otherwise the bytes before its zero; its length is then read
  from nowhere.  Parsing one gives the view's pointer: the text is followed by a zero.  A character array is
  all its bytes.
\<close>

definition c_string_null :: "string option \<Rightarrow> bool" where
  "c_string_null s \<longleftrightarrow> s = None"

definition c_string_size :: "string option \<Rightarrow> pqxx_error + nat" where
  "c_string_size s = (case s of None \<Rightarrow> Inl (read_out_of_bounds 0) | Some s \<Rightarrow> Inr (length (c_str s) + 1))"

definition c_string_into :: "string \<Rightarrow> nat \<Rightarrow> string option \<Rightarrow> pqxx_error + nat \<times> string" where
  "c_string_into mem begin s =
     (case s of
        None \<Rightarrow> Inl (read_out_of_bounds 0)
      | Some s \<Rightarrow>
          (let space = length mem - begin; len = length (c_str s) + 1 in
           if space < len then Inl (conversion_overrun ''Could not copy string: buffer too small.  '')
           else and_then (copy_to mem begin (c_str s @ [CHR 0x00])) (\<lambda>mem. Inr (begin + len, mem))))"

definition c_string_traits :: "string option traits" where
  "c_string_traits =
     \<lparr>t_name = ''char const *'', t_null = c_string_null, t_size = c_string_size, t_into = c_string_into,
      t_view = through_buf c_string_null c_string_into,
      t_parse = Some (\<lambda>text. Inr (Some (c_str text))), t_unquoted = False, t_format = \<lambda>s. Inr Text_format\<rparr>"

text \<open>A pointer to changeable characters: the same conversions, but none from a string.\<close>

definition char_pointer_traits :: "string option traits" where
  "char_pointer_traits =
     \<lparr>t_name = ''char *'', t_null = c_string_null, t_size = t_size c_string_traits, t_into = t_into c_string_traits,
      t_view = t_view c_string_traits, t_parse = None, t_unquoted = False, t_format = \<lambda>s. Inr Text_format\<rparr>"

definition char_array_into :: "string \<Rightarrow> nat \<Rightarrow> string \<Rightarrow> pqxx_error + nat \<times> string" where
  "char_array_into mem begin a =
     (if length mem - begin < length a then
        Inl (conversion_overrun ''Could not convert char[] to string: too long for buffer.'')
      else and_then (copy_to mem begin a) (\<lambda>mem. Inr (begin + length a, mem)))"

definition char_array_traits :: "string traits" where
  "char_array_traits =
     \<lparr>t_name = ''char[]'', t_null = \<lambda>a. False, t_size = \<lambda>a. Inr (length a), t_into = char_array_into,
      t_view = \<lambda>mem begin a. Inr (Some (butlast a), mem),
      t_parse = None, t_unquoted = False, t_format = \<lambda>a. Inr Text_format\<rparr>"

definition std_string_traits :: "string traits" where
  "std_string_traits =
     \<lparr>t_name = ''std::string'', t_null = \<lambda>s. False, t_size = \<lambda>s. Inr (length s + 1), t_into = string_into_buf,
      t_view = through_buf (\<lambda>s. False) string_into_buf, t_parse = Some Inr, t_unquoted = False,
      t_format = \<lambda>s. Inr Text_format\<rparr>"

definition view_into :: "string \<Rightarrow> nat \<Rightarrow> string \<Rightarrow> pqxx_error + nat \<times> string" where
  "view_into mem begin s =
     (if length s \<ge> length mem - begin then Inl (conversion_overrun ''Could not store string_view: too long for buffer.'')
      else and_then (copy_to mem begin s) (\<lambda>mem.
           and_then (put mem (begin + length s) (CHR 0x00)) (\<lambda>mem. Inr (begin + length s + 1, mem))))"

definition view_traits :: "string traits" where
  "view_traits =
     \<lparr>t_name = ''std::string_view'', t_null = \<lambda>s. False, t_size = \<lambda>s. Inr (length s + 1), t_into = view_into,
      t_view = through_buf (\<lambda>s. False) view_into, t_parse = None, t_unquoted = False,
      t_format = \<lambda>s. Inr Text_format\<rparr>"

definition zview_into :: "string \<Rightarrow> nat \<Rightarrow> string \<Rightarrow> pqxx_error + nat \<times> string" where
  "zview_into mem begin s =
     (if length mem - begin \<le> length s then Inl (conversion_overrun ''Not enough buffer space to store this zview.'')
      else and_then (copy_to mem begin s) (\<lambda>mem.
           and_then (put mem (begin + length s) (CHR 0x00)) (\<lambda>mem. Inr (begin + length s + 1, mem))))"

definition zview_view :: "string \<Rightarrow> nat \<Rightarrow> string \<Rightarrow> pqxx_error + string option \<times> string" where
  "zview_view mem begin s =
     and_then (zview_into mem begin s) (\<lambda>(stop, mem). Inr (Some (segment mem begin (stop - 1)), mem))"

definition zview_traits :: "string traits" where
  "zview_traits =
     \<lparr>t_name = ''pqxx::zview'', t_null = \<lambda>s. False, t_size = \<lambda>s. Inr (length s + 1), t_into = zview_into,
      t_view = zview_view, t_parse = None, t_unquoted = False, t_format = \<lambda>s. Inr Text_format\<rparr>"

section \<open>Binary data\<close>

text \<open>
  The size of the bytes an escaped text stands for wraps for a text of fewer than two characters; a byte
  string has at most \<open>2 ^ 63 - 2\<close> bytes.
\<close>

definition size_esc_bin :: "nat \<Rightarrow> nat" where
  "size_esc_bin binary_bytes = 2 + (2 * binary_bytes) + 1"

definition size_unesc_bin :: "nat \<Rightarrow> nat" where
  "size_unesc_bin escaped_bytes = ((escaped_bytes + 2 ^ 64 - 2) mod 2 ^ 64) div 2"

definition binary_into :: "compiled \<Rightarrow> string \<Rightarrow> nat \<Rightarrow> string \<Rightarrow> pqxx_error + nat \<times> string" where
  "binary_into c mem begin b =
     (let budget = size_esc_bin (length b) in
      if length mem - begin < budget then Inl (conversion_overrun ''Not enough buffer space to escape binary data.'')
      else and_then (bin_into c b mem begin) (\<lambda>mem. Inr (begin + budget, mem)))"

definition bytes_from_string :: "compiled \<Rightarrow> string \<Rightarrow> pqxx_error + string" where
  "bytes_from_string c text =
     (if size_unesc_bin (length text) > 2 ^ 63 - 2 then Inl length_error else bin_parse c text)"

definition bytes_traits :: "compiled \<Rightarrow> string traits" where
  "bytes_traits c =
     \<lparr>t_name = ''bytes'', t_null = \<lambda>b. False, t_size = \<lambda>b. Inr (size_esc_bin (length b)), t_into = binary_into c,
      t_view = through_buf (\<lambda>b. False) (binary_into c), t_parse = Some (bytes_from_string c), t_unquoted = False,
      t_format = \<lambda>b. Inr Binary_format\<rparr>"

definition bytes_view_traits :: "compiled \<Rightarrow> string traits" where
  "bytes_view_traits c =
     \<lparr>t_name = ''bytes_view'', t_null = \<lambda>b. False, t_size = \<lambda>b. Inr (size_esc_bin (length b)), t_into = binary_into c,
      t_view = through_buf (\<lambda>b. False) (binary_into c), t_parse = None, t_unquoted = False,
      t_format = \<lambda>b. Inr Binary_format\<rparr>"

section \<open>Wrappers\<close>

text \<open>
  An empty optional throws inside the \<open>noexcept\<close> \<open>size_buffer\<close>; elsewhere it, and an empty pointer, are
  read without a look (\<open>deref\<close>).
\<close>

definition deref :: "('v \<Rightarrow> pqxx_error + 'a) \<Rightarrow> 'v option \<Rightarrow> pqxx_error + 'a" where
  "deref f v = (case v of None \<Rightarrow> Inl (read_out_of_bounds 0) | Some w \<Rightarrow> f w)"

definition optional_null :: "'v traits \<Rightarrow> 'v option \<Rightarrow> bool" where
  "optional_null T v = (case v of None \<Rightarrow> True | Some w \<Rightarrow> t_null T w)"

definition view_if_any :: "'v traits \<Rightarrow> string \<Rightarrow> nat \<Rightarrow> 'v option \<Rightarrow> pqxx_error + string option \<times> string" where
  "view_if_any T mem begin v = (case v of None \<Rightarrow> Inr (None, mem) | Some w \<Rightarrow> t_view T mem begin w)"

definition parse_some :: "'v traits \<Rightarrow> (string \<Rightarrow> pqxx_error + 'v option) option" where
  "parse_some T =
     (case t_parse T of None \<Rightarrow> None | Some from_inner \<Rightarrow> Some (\<lambda>s. and_then (from_inner s) (\<lambda>v. Inr (Some v))))"

definition optional_traits :: "'v traits \<Rightarrow> 'v option traits" where
  "optional_traits T =
     \<lparr>t_name = ''std::optional'', t_null = optional_null T,
      t_size = \<lambda>v. case v of None \<Rightarrow> Inl terminates | Some w \<Rightarrow> t_size T w,
      t_into = \<lambda>mem begin. deref (t_into T mem begin), t_view = view_if_any T, t_parse = parse_some T,
      t_unquoted = t_unquoted T, t_format = deref (t_format T)\<rparr>"

definition unique_null :: "'v traits \<Rightarrow> 'v option \<Rightarrow> bool" where
  "unique_null T p = (case p of None \<Rightarrow> True | Some w \<Rightarrow> t_null T w)"

definition unique_ptr_traits :: "'v traits \<Rightarrow> 'v option traits" where
  "unique_ptr_traits T =
     \<lparr>t_name = ''std::unique_ptr'', t_null = unique_null T, t_size = deref (t_size T),
      t_into = \<lambda>mem begin. deref (t_into T mem begin), t_view = view_if_any T, t_parse = parse_some T,
      t_unquoted = t_unquoted T, t_format = deref (t_format T)\<rparr>"

definition shared_null :: "'v traits \<Rightarrow> 'v option \<Rightarrow> bool" where
  "shared_null T p = (case p of None \<Rightarrow> True | Some w \<Rightarrow> t_null T w)"

definition shared_ptr_traits :: "'v traits \<Rightarrow> 'v option traits" where
  "shared_ptr_traits T =
     \<lparr>t_name = ''std::shared_ptr'', t_null = shared_null T, t_size = deref (t_size T),
      t_into = \<lambda>mem begin. deref (t_into T mem begin), t_view = \<lambda>mem begin. deref (t_view T mem begin),
      t_parse = parse_some T, t_unquoted = t_unquoted T, t_format = deref (t_format T)\<rparr>"

text \<open>A variant of two types; one of more types is a variant of a type and a variant.\<close>

definition variant_null :: "'a traits \<Rightarrow> 'b traits \<Rightarrow> 'a + 'b \<Rightarrow> bool" where
  "variant_null A B = case_sum (t_null A) (t_null B)"

definition variant_traits :: "'a traits \<Rightarrow> 'b traits \<Rightarrow> ('a + 'b) traits" where
  "variant_traits A B =
     \<lparr>t_name = ''std::variant'', t_null = variant_null A B, t_size = case_sum (t_size A) (t_size B),
      t_into = \<lambda>mem begin. case_sum (t_into A mem begin) (t_into B mem begin),
      t_view = \<lambda>mem begin. case_sum (t_view A mem begin) (t_view B mem begin), t_parse = None,
      t_unquoted = t_unquoted A \<and> t_unquoted B, t_format = case_sum (t_format A) (t_format B)\<rparr>"

section \<open>Strings from values\<close>

definition to_string :: "'v traits \<Rightarrow> 'v \<Rightarrow> pqxx_error + string" where
  "to_string T v =
     (if t_null T v then Inl (conversion_error (''Attempt to convert null '' @ t_name T @ '' to a string.''))
      else and_then (t_size T v) (\<lambda>n.
           and_then (t_into T (replicate n (CHR 0x00)) 0 v) (\<lambda>(stop, buf). Inr (take (stop - 1) buf))))"

definition into_string :: "'v traits \<Rightarrow> 'v \<Rightarrow> string \<Rightarrow> pqxx_error + string" where
  "into_string T v out_text =
     (if t_null T v then Inl (conversion_error (''Attempt to convert null '' @ t_name T @ '' to a string.''))
      else and_then (t_size T v) (\<lambda>n.
           and_then (t_into T (resize out_text (n + 1)) 0 v) (\<lambda>(stop, buf). Inr (take (stop - 1) buf))))"

text \<open>
  \<open>concat_items\<close> is \<open>concat\<close>; its items of different types are the alternatives of one variant.  \<open>views_of\<close>
  is the \<open>to_buf\<close> of several values.
\<close>

definition render_item :: "'v traits \<Rightarrow> string \<Rightarrow> nat \<Rightarrow> 'v \<Rightarrow> pqxx_error + nat \<times> string" where
  "render_item T mem here v =
     and_then (t_into T mem here v) (\<lambda>(stop, mem).
     and_then (pqxx_assume (stop - 1 \<ge> here)) (\<lambda>_. Inr (stop - 1, mem)))"

fun render_items :: "'v traits \<Rightarrow> 'v list \<Rightarrow> string \<Rightarrow> nat \<Rightarrow> pqxx_error + nat \<times> string" where
  "render_items T [] mem here = Inr (here, mem)"
| "render_items T (v # vs) mem here = and_then (render_item T mem here v) (\<lambda>(here, mem). render_items T vs mem here)"

fun total_size :: "'v traits \<Rightarrow> 'v list \<Rightarrow> pqxx_error + nat" where
  "total_size T [] = Inr 0"
| "total_size T (v # vs) = and_then (t_size T v) (\<lambda>n. and_then (total_size T vs) (\<lambda>m. Inr (n + m)))"

definition concat_items :: "'v traits \<Rightarrow> 'v list \<Rightarrow> pqxx_error + string" where
  "concat_items T vs =
     and_then (total_size T vs) (\<lambda>n.
     and_then (render_items T vs (replicate n (CHR 0x00)) 0) (\<lambda>(here, buf). Inr (take here buf)))"

fun views_of :: "'v traits \<Rightarrow> 'v list \<Rightarrow> string \<Rightarrow> nat \<Rightarrow> pqxx_error + (nat \<times> nat) list \<times> string" where
  "views_of T [] mem here = Inr ([], mem)"
| "views_of T (v # vs) mem here =
     and_then (t_into T mem here v) (\<lambda>(stop, mem).
     and_then (views_of T vs mem stop) (\<lambda>(views, mem). Inr ((here, stop - here - 1) # views, mem)))"

section \<open>The contract of \<open>string_traits\<close>\<close>

text \<open>
  What the users of a conversion rely on, for the values that are \<open>ok\<close>: they are not null; the size of a
  value leaves room for its text and a zero; with room for that size \<open>into_buf\<close> writes just these, and
  with too little for the text it throws and writes nothing.  In between, a conversion may do either: the
  documentation allows it to be conservative about a buffer that is large enough.  \<open>conversion\<close> adds
  that \<open>to_buf\<close> shows the text, given room for the size.
\<close>

locale writing =
  fixes T :: "'v traits" and ok :: "'v \<Rightarrow> bool" and shown :: "'v \<Rightarrow> string"
  assumes not_null: "ok v \<Longrightarrow> \<not> t_null T v"
    and sized: "ok v \<Longrightarrow> \<exists>n. t_size T v = Inr n \<and> length (shown v) < n"
    and fits: "ok v \<Longrightarrow> t_size T v = Inr n \<Longrightarrow> pos + n \<le> length mem \<Longrightarrow>
      \<exists>rest. t_into T mem pos v = Inr (pos + length (shown v) + 1, take pos mem @ shown v @ CHR 0x00 # rest) \<and>
        pos + length (shown v) + 1 + length rest = length mem"
    and overruns: "ok v \<Longrightarrow> pos \<le> length mem \<Longrightarrow> length mem \<le> pos + length (shown v) \<Longrightarrow>
      \<exists>m. t_into T mem pos v = Inl (conversion_overrun m)"
begin

lemma to_string_text: "ok v \<Longrightarrow> to_string T v = Inr (shown v)"
proof -
  assume ok: "ok v"
  from sized [OF this] obtain n where n: "t_size T v = Inr n" "length (shown v) < n" by blast
  with fits [OF ok n(1), of 0 "replicate n CHR 0x00"] not_null [OF ok] show ?thesis by (auto simp: to_string_def)
qed

lemma into_string_text: "ok v \<Longrightarrow> into_string T v old = Inr (shown v)"
proof -
  assume ok: "ok v"
  from sized [OF this] obtain n where n: "t_size T v = Inr n" "length (shown v) < n" by blast
  have "0 + n \<le> length (resize old (n + 1))" by (simp add: resize_def)
  from fits [OF ok n(1) this] obtain rest where
    "t_into T (resize old (n + 1)) 0 v = Inr (length (shown v) + 1, shown v @ CHR 0x00 # rest)" by auto
  with n(1) not_null [OF ok] show ?thesis by (simp add: into_string_def)
qed

lemma total_size_texts:
  "\<forall>v \<in> set vs. ok v \<Longrightarrow> \<exists>n. total_size T vs = Inr n \<and> length (concat (map shown vs)) + length vs \<le> n"
proof (induction vs)
  case (Cons v vs)
  then obtain n where "total_size T vs = Inr n" "length (concat (map shown vs)) + length vs \<le> n" by auto
  moreover from Cons.prems sized [of v] obtain m where "t_size T v = Inr m" "length (shown v) < m" by auto
  ultimately show ?case by auto
qed simp

text \<open>
  When the space that is left is the sum of the sizes, each value has room for its size, as the ones
  before it took no more than theirs.
\<close>

lemma total_size_Cons:
  assumes "ok v" and "total_size T (v # vs) = Inr n"
  obtains m k where "t_size T v = Inr m" "total_size T vs = Inr k" "n = m + k" "length (shown v) < m"
  using assms sized [of v] by (auto simp: and_then_Inr)

lemma render_items_texts:
  assumes "\<forall>v \<in> set vs. ok v" and "total_size T vs = Inr n" and "here + n \<le> length mem"
  shows "\<exists>mem'. render_items T vs mem here = Inr (here + length (concat (map shown vs)), mem') \<and>
    take (here + length (concat (map shown vs))) mem' = take here mem @ concat (map shown vs) \<and> length mem' = length mem"
  using assms
proof (induction vs arbitrary: here mem n)
  case (Cons v vs)
  then have ok: "ok v" by simp
  obtain m k where mk: "t_size T v = Inr m" "total_size T vs = Inr k" "n = m + k" "length (shown v) < m"
    using total_size_Cons [OF ok Cons.prems(2)] .
  from Cons.prems(3) mk(3) have "here + m \<le> length mem" by simp
  from fits [OF ok mk(1) this] obtain rest where r: "t_into T mem here v = Inr (here + length (shown v) + 1, take here mem @ shown v @ CHR 0x00 # rest)"
    "here + length (shown v) + 1 + length rest = length mem" by auto
  let ?mem = "take here mem @ shown v @ CHR 0x00 # rest"
  have "(here + length (shown v)) + k \<le> length ?mem" using mk(3,4) Cons.prems(3) r(2) by simp
  from Cons.IH [OF _ mk(2) this] Cons.prems(1) obtain mem' where
    "render_items T vs ?mem (here + length (shown v)) = Inr (here + length (shown v) + length (concat (map shown vs)), mem')"
    "take (here + length (shown v) + length (concat (map shown vs))) mem' = take (here + length (shown v)) ?mem @ concat (map shown vs)"
    "length mem' = length ?mem" by auto
  with r mk(3,4) Cons.prems(3) show ?case by (simp add: render_item_def add.assoc)
qed simp

lemma concat_items_texts:
  assumes "\<forall>v \<in> set vs. ok v"
  shows "concat_items T vs = Inr (concat (map shown vs))"
proof -
  from total_size_texts [OF assms] obtain n where n: "total_size T vs = Inr n"
    "length (concat (map shown vs)) + length vs \<le> n" by blast
  with render_items_texts [OF assms n(1), of 0 "replicate n CHR 0x00"] show ?thesis
    by (auto simp: concat_items_def simp del: render_items.simps total_size.simps)
qed

text \<open>The views of several values in one buffer all show their texts at the end.\<close>

lemma views_of_texts:
  assumes "\<forall>v \<in> set vs. ok v" and "total_size T vs = Inr n" and "here + n \<le> length mem"
  shows "\<exists>views mem'. views_of T vs mem here = Inr (views, mem') \<and> take here mem' = take here mem \<and>
    length mem' = length mem \<and> map (\<lambda>(i, n). segment mem' i (i + n)) views = map shown vs"
  using assms
proof (induction vs arbitrary: here mem n)
  case (Cons v vs)
  then have ok: "ok v" by simp
  obtain m k where mk: "t_size T v = Inr m" "total_size T vs = Inr k" "n = m + k" "length (shown v) < m"
    using total_size_Cons [OF ok Cons.prems(2)] .
  from Cons.prems(3) mk(3) have "here + m \<le> length mem" by simp
  from fits [OF ok mk(1) this] obtain rest where r: "t_into T mem here v = Inr (here + length (shown v) + 1, take here mem @ shown v @ CHR 0x00 # rest)"
    "here + length (shown v) + 1 + length rest = length mem" by auto
  let ?mem = "take here mem @ shown v @ CHR 0x00 # rest" and ?stop = "here + length (shown v) + 1"
  have hl: "here \<le> length mem" using r(2) by simp
  then have len: "length ?mem = length mem" using r(2) by simp
  have "?stop + k \<le> length ?mem" unfolding len using mk(3,4) Cons.prems(3) by simp
  from Cons.IH [OF _ mk(2) this] Cons.prems(1) obtain views mem' where s: "views_of T vs ?mem ?stop = Inr (views, mem')"
    "take ?stop mem' = take ?stop ?mem" "length mem' = length ?mem"
    "map (\<lambda>(i, n). segment mem' i (i + n)) views = map shown vs" by auto
  have t: "take ?stop mem' = take here mem @ shown v @ [CHR 0x00]" using s(2) r(2) by simp
  from arg_cong [OF t, of "take here"] r(2) have "take here mem' = take here mem" by (simp add: min_def)
  moreover from arg_cong [OF t, of "\<lambda>m. take (length (shown v)) (drop here m)"] r(2)
  have "segment mem' here (here + length (shown v)) = shown v" by (simp add: segment_def take_drop min_def)
  ultimately show ?case using r(1) s(1,3,4) len by simp
qed simp

end

locale conversion = writing +
  assumes viewed: "ok v \<Longrightarrow> t_size T v = Inr n \<Longrightarrow> pos + n \<le> length mem \<Longrightarrow>
    \<exists>mem'. t_view T mem pos v = Inr (Some (shown v), mem') \<and> length mem' = length mem \<and> take pos mem' = take pos mem"

lemmas conversion_unfold = conversion_def writing_def conversion_axioms_def

text \<open>A conversion that needs no more room than the text and its zero take has the contract.\<close>

lemma conversion_exact:
  assumes "\<And>v. ok v \<Longrightarrow> \<not> t_null T v"
    and s: "\<And>v. ok v \<Longrightarrow> \<exists>n. t_size T v = Inr n \<and> length (shown v) < n"
    and f: "\<And>v pos mem. ok v \<Longrightarrow> pos + length (shown v) < length mem \<Longrightarrow>
      \<exists>rest. t_into T mem pos v = Inr (pos + length (shown v) + 1, take pos mem @ shown v @ CHR 0x00 # rest) \<and>
        pos + length (shown v) + 1 + length rest = length mem"
    and "\<And>v pos mem. ok v \<Longrightarrow> pos \<le> length mem \<Longrightarrow> length mem \<le> pos + length (shown v) \<Longrightarrow>
      \<exists>m. t_into T mem pos v = Inl (conversion_overrun m)"
    and w: "\<And>v pos mem. ok v \<Longrightarrow> pos + length (shown v) < length mem \<Longrightarrow>
      \<exists>mem'. t_view T mem pos v = Inr (Some (shown v), mem') \<and> length mem' = length mem \<and> take pos mem' = take pos mem"
  shows "conversion T ok shown"
proof
  have "pos + length (shown v) < length mem" if "ok v" "t_size T v = Inr n" "pos + n \<le> length mem" for v n pos and mem :: string
    using s [OF that(1)] that by auto
  with f w show "\<And>v n pos mem. ok v \<Longrightarrow> t_size T v = Inr n \<Longrightarrow> pos + n \<le> length mem \<Longrightarrow>
      \<exists>rest. t_into T mem pos v = Inr (pos + length (shown v) + 1, take pos mem @ shown v @ CHR 0x00 # rest) \<and>
        pos + length (shown v) + 1 + length rest = length mem"
    and "\<And>v n pos mem. ok v \<Longrightarrow> t_size T v = Inr n \<Longrightarrow> pos + n \<le> length mem \<Longrightarrow>
      \<exists>mem'. t_view T mem pos v = Inr (Some (shown v), mem') \<and> length mem' = length mem \<and> take pos mem' = take pos mem"
    by blast+
qed (use assms in blast)+

context conversion
begin

text \<open>The wrappers keep the contract.\<close>

lemma optional: "conversion (optional_traits T) (\<lambda>v. \<exists>w. v = Some w \<and> ok w) (\<lambda>v. shown (the v))"
  by unfold_locales
     (auto simp: optional_traits_def optional_null_def deref_def view_if_any_def not_null sized overruns
       intro: fits [simplified] viewed)

lemma unique_ptr: "conversion (unique_ptr_traits T) (\<lambda>v. \<exists>w. v = Some w \<and> ok w) (\<lambda>v. shown (the v))"
  by unfold_locales
     (auto simp: unique_ptr_traits_def unique_null_def deref_def view_if_any_def not_null sized overruns
       intro: fits [simplified] viewed)

lemma shared_ptr: "conversion (shared_ptr_traits T) (\<lambda>v. \<exists>w. v = Some w \<and> ok w) (\<lambda>v. shown (the v))"
  by unfold_locales
     (auto simp: shared_ptr_traits_def shared_null_def deref_def not_null sized overruns
       intro: fits [simplified] viewed)

lemma enum: "conversion (enum_traits to_underlying cast T) (\<lambda>e. ok (to_underlying e)) (\<lambda>e. shown (to_underlying e))"
  by unfold_locales
     (auto simp: enum_traits_def not_null sized overruns intro: fits [simplified] viewed)

end

lemma variant_writing:
  assumes "writing A okA shownA" and "writing B okB shownB"
  shows "writing (variant_traits A B) (case_sum okA okB) (case_sum shownA shownB)"
proof -
  from assms show ?thesis
    unfolding writing_def variant_traits_def variant_null_def by (auto split: sum.splits)
qed

text \<open>A conversion with a parser that gives each value back from its text.\<close>

locale reading = conversion +
  fixes from_string :: "string \<Rightarrow> pqxx_error + 'a"
  assumes parser: "t_parse T = Some from_string"
    and parses_back: "ok v \<Longrightarrow> from_string (shown v) = Inr v"
begin

lemma round_trip: "ok v \<Longrightarrow> and_then (to_string T v) (the (t_parse T)) = Inr v"
  by (simp add: to_string_text parser parses_back)

lemma optional_reading:
  "reading (optional_traits T) (\<lambda>v. \<exists>w. v = Some w \<and> ok w) (\<lambda>v. shown (the v)) (\<lambda>s. and_then (from_string s) (\<lambda>v. Inr (Some v)))"
  by (intro reading.intro optional reading_axioms.intro)
     (auto simp: optional_traits_def parse_some_def parser parses_back)

lemma unique_reading:
  "reading (unique_ptr_traits T) (\<lambda>v. \<exists>w. v = Some w \<and> ok w) (\<lambda>v. shown (the v)) (\<lambda>s. and_then (from_string s) (\<lambda>v. Inr (Some v)))"
  by (intro reading.intro unique_ptr reading_axioms.intro)
     (auto simp: unique_ptr_traits_def parse_some_def parser parses_back)

lemma shared_reading:
  "reading (shared_ptr_traits T) (\<lambda>v. \<exists>w. v = Some w \<and> ok w) (\<lambda>v. shown (the v)) (\<lambda>s. and_then (from_string s) (\<lambda>v. Inr (Some v)))"
  by (intro reading.intro shared_ptr reading_axioms.intro)
     (auto simp: shared_ptr_traits_def parse_some_def parser parses_back)

lemma enum_reading:
  assumes "\<And>e. cast (to_underlying e) = e"
  shows "reading (enum_traits to_underlying cast T) (\<lambda>e. ok (to_underlying e)) (\<lambda>e. shown (to_underlying e))
    (\<lambda>s. and_then (from_string s) (\<lambda>i. Inr (cast i)))"
  by (intro reading.intro enum reading_axioms.intro) (simp_all add: enum_traits_def parser parses_back assms)

end

section \<open>Numbers fit their buffers\<close>

definition dec_int :: "int \<Rightarrow> string" where
  "dec_int x = (if x < 0 then CHR ''-'' # dec (nat (- x)) else dec (nat x))"

lemma power_2_digit: "k > 0 \<Longrightarrow> (2 ^ k) mod 10 \<in> {2, 4, 6, 8 :: nat}"
proof (induction k)
  case (Suc k)
  show ?case
  proof (cases "k = 0")
    case False
    with Suc have "(2 ^ k) mod 10 \<in> {2, 4, 6, 8 :: nat}" by simp
    moreover have "2 ^ Suc k mod 10 = 2 * (2 ^ k mod 10) mod (10::nat)" by (simp add: mod_mult_right_eq)
    ultimately show ?thesis by auto
  qed simp
qed simp

text \<open>The one value whose negation is not in its type has no more digits than the largest.\<close>

lemma dec_power_2: "k > 0 \<Longrightarrow> length (dec (2 ^ k)) = length (dec (2 ^ k - 1))"
proof -
  assume k: "k > 0"
  have s: "(2::nat) ^ k = Suc (2 ^ k - 1)" by simp
  from power_2_digit [OF k] have "Suc (2 ^ k - 1) mod 10 \<noteq> 0" by auto
  from dec_Suc [OF this] dec_nonempty [of "2 ^ k - 1"] show ?thesis by (subst s) simp
qed

lemma integral_text_fits:
  assumes "in_type t x" and "bits t \<ge> 2"
  shows "length (dec_int x) < integral_size_buffer t"
proof -
  let ?M = "nat (highest t)"
  have d: "length (dec ?M) \<le> digits10 t + 1" by (simp add: digits10_def)
  show ?thesis
  proof (cases "x < 0")
    case False
    with assms(1) have "length (dec (nat x)) \<le> length (dec ?M)" by (intro dec_length_mono nat_mono) (simp add: in_type_def)
    with False d show ?thesis by (simp add: dec_int_def integral_size_buffer_def)
  next
    case True
    with assms(1) have s: "is_signed t" by (auto simp: in_type_def lowest_def split: if_splits)
    with assms(1) have "nat (- x) \<le> nat (2 ^ (bits t - 1))" by (intro nat_mono) (simp add: in_type_def lowest_def)
    then have "nat (- x) \<le> 2 ^ (bits t - 1)" by (simp add: nat_power_eq)
    then have "length (dec (nat (- x))) \<le> length (dec (2 ^ (bits t - 1)))" by (rule dec_length_mono)
    also have "\<dots> = length (dec (2 ^ (bits t - 1) - 1))" using assms(2) by (intro dec_power_2) simp
    also have "2 ^ (bits t - 1) - 1 = ?M" using s by (simp add: highest_def nat_diff_distrib nat_power_eq)
    finally show ?thesis using True s d by (simp add: dec_int_def integral_size_buffer_def)
  qed
qed

text \<open>
  The shortest text of a floating-point number in scientific notation, with the two exponent digits that
  \<open>std::to_chars\<close> writes at least, fits the buffer of its type.
\<close>

lemma float_digits10_dec: "float_digits10 n = length (dec n)"
proof (induction n rule: float_digits10.induct)
  case (1 v)
  then show ?case by (cases "v < 10") (simp_all add: float_digits10.simps [of v] dec_digit dec_tens)
qed

definition scientific :: "bool \<Rightarrow> char \<Rightarrow> string \<Rightarrow> char \<Rightarrow> nat \<Rightarrow> string" where
  "scientific negative d digits exp_sign e =
     (if negative then ''-'' else []) @ [d] @ (if digits = [] then [] else CHR ''.'' # digits) @ [CHR ''e'', exp_sign] @
     (if e < 10 then CHR ''0'' # dec e else dec e)"

lemma float_text_fits:
  assumes "length digits < max_digits10 f" and "10 \<le> max_exponent10 f"
    and "e \<le> max_exponent10 f \<or> e \<le> max_digits10 f + neg_min_exponent10 f"
  shows "length (scientific negative d digits exp_sign e) < float_size_buffer f"
proof -
  let ?top = "max (length (dec (max_exponent10 f))) (length (dec (max_digits10 f + neg_min_exponent10 f)))"
  from assms(3) dec_length_mono have "length (dec e) \<le> ?top" by (auto simp: le_max_iff_disj)
  moreover have "2 \<le> length (dec (max_exponent10 f))"
    using dec_length_mono [OF assms(2)] dec_tens [of 10] by (simp add: dec_digit)
  then have "2 \<le> ?top" by simp
  moreover have "length (dec e) = 1" if "e < 10" using that by (simp add: dec_digit)
  ultimately have "length (if e < 10 then CHR ''0'' # dec e else dec e) \<le> ?top" by simp
  with assms(1) show ?thesis
    by (simp add: scientific_def float_size_buffer_def float_digits10_dec Let_def split: if_splits)
qed

section \<open>Binary data in hexadecimal\<close>

definition hex_byte :: "char \<Rightarrow> string" where
  "hex_byte c = [hex_digit (byte_of c div 16), hex_digit (byte_of c mod 16)]"

definition bin_text :: "string \<Rightarrow> string" where
  "bin_text b = backslash # CHR ''x'' # concat (map hex_byte b)"

lemma length_bin_text [simp]: "length (bin_text b) = 2 + 2 * length b"
  by (induction b) (simp_all add: bin_text_def hex_byte_def)

definition fits_memory :: "string \<Rightarrow> bool" where
  "fits_memory b \<longleftrightarrow> length b < 2 ^ 62"

lemma size_unesc_esc: "fits_memory b \<Longrightarrow> size_unesc_bin (length (bin_text b)) = length b"
  by (simp add: fits_memory_def size_unesc_bin_def)

text \<open>The text of a byte string is at least \<open>\x\<close>; the size for a shorter one wraps.\<close>

lemma bytes_from_short_text: "length s < 2 \<Longrightarrow> bytes_from_string c s = Inl length_error"
  by (cases s) (auto simp: bytes_from_string_def size_unesc_bin_def)

section \<open>What is relied on of the compiled part\<close>

text \<open>
  An integer of one of the eight types that have a conversion is written in base ten with a zero after
  it when there is room for the size \<open>size_buffer\<close> gives, and an overrun is reported when there is too
  little for the text (in between, the library may do either); \<open>to_buf\<close> shows it when there is room for
  that size.  It can be read back, as a \<open>bool\<close> and binary data can, whose escaping writes its text and a zero.
\<close>

definition writes_number :: "compiled \<Rightarrow> bool" where
  "writes_number c \<longleftrightarrow> (\<forall>k x mem pos. in_type (builtin_type k) x \<longrightarrow>
     (pos + integral_size_buffer (builtin_type k) \<le> length mem \<longrightarrow>
       (\<exists>rest. num_into c mem pos (builtin_type k) x =
           Inr (pos + length (dec_int x) + 1, take pos mem @ dec_int x @ CHR 0x00 # rest) \<and>
         pos + length (dec_int x) + 1 + length rest = length mem)) \<and>
     (pos \<le> length mem \<and> length mem \<le> pos + length (dec_int x) \<longrightarrow>
       (\<exists>m. num_into c mem pos (builtin_type k) x = Inl (conversion_overrun m))))"

definition shows_number :: "compiled \<Rightarrow> bool" where
  "shows_number c \<longleftrightarrow> (\<forall>k x mem pos. in_type (builtin_type k) x \<and>
       pos + integral_size_buffer (builtin_type k) \<le> length mem \<longrightarrow>
     (\<exists>mem'. num_view c mem pos (builtin_type k) x = Inr (dec_int x, mem') \<and> length mem' = length mem \<and>
        take pos mem' = take pos mem))"

definition writes_binary :: "compiled \<Rightarrow> bool" where
  "writes_binary c \<longleftrightarrow> (\<forall>b mem pos. pos + size_esc_bin (length b) \<le> length mem \<longrightarrow>
     bin_into c b mem pos = Inr (take pos mem @ bin_text b @ CHR 0x00 # drop (pos + size_esc_bin (length b)) mem))"

definition reads_back :: "compiled \<Rightarrow> bool" where
  "reads_back c \<longleftrightarrow> (\<forall>k x. in_type (builtin_type k) x \<longrightarrow> num_parse c (builtin_type k) (dec_int x) = Inr x) \<and>
     (\<forall>b. bool_parse c (bool_text b) = Inr b) \<and> (\<forall>b. bin_parse c (bin_text b) = Inr b)"

definition compiled_ok :: "compiled \<Rightarrow> bool" where
  "compiled_ok c \<longleftrightarrow> writes_number c \<and> shows_number c \<and> writes_binary c \<and> reads_back c"

section \<open>Every type keeps the contract\<close>

lemma copy_with_zero:
  assumes "pos + length s < length mem"
  shows "\<exists>rest. copy_to mem pos (s @ [CHR 0x00]) = Inr (take pos mem @ s @ CHR 0x00 # rest) \<and>
    pos + length s + 1 + length rest = length mem"
  using assms by (simp add: copy_to_eq)

text \<open>Copying and then setting the zero is copying both.\<close>

lemma and_then_return [simp]: "and_then m Inr = m"
  by (cases m) simp_all

lemma copy_to_snoc: "copy_to mem i (cs @ [c]) = and_then (copy_to mem i cs) (\<lambda>mem. put mem (i + length cs) c)"
  by (induction cs arbitrary: mem i) (simp_all add: and_then_assoc)

lemma copy_then_zero:
  assumes "pos + length s < length mem"
  shows "\<exists>rest. and_then (copy_to mem pos s) (\<lambda>mem. and_then (put mem (pos + length s) (CHR 0x00)) (\<lambda>mem. Inr (pos + length s + 1, mem))) =
      Inr (pos + length s + 1, take pos mem @ s @ CHR 0x00 # rest) \<and> pos + length s + 1 + length rest = length mem"
proof -
  have "and_then (copy_to mem pos s) (\<lambda>mem. and_then (put mem (pos + length s) (CHR 0x00)) (\<lambda>mem. Inr (pos + length s + 1, mem))) =
      and_then (copy_to mem pos (s @ [CHR 0x00])) (\<lambda>mem. Inr (pos + length s + 1, mem))"
    by (simp add: copy_to_snoc and_then_assoc)
  with copy_with_zero [OF assms] show ?thesis by auto
qed

text \<open>The view through \<open>into_buf\<close> follows from the rest of the contract.\<close>

lemma view_through:
  assumes "\<And>v. ok v \<Longrightarrow> \<not> null v"
    and "\<And>v pos mem. ok v \<Longrightarrow> pos + length (shown v) < length mem \<Longrightarrow>
      \<exists>rest. into mem pos v = Inr (pos + length (shown v) + 1, take pos mem @ shown v @ CHR 0x00 # rest) \<and>
        pos + length (shown v) + 1 + length rest = length mem"
    and "ok v" and "pos + length (shown v) < length mem"
  shows "\<exists>mem'. through_buf null into mem pos v = Inr (Some (shown v), mem') \<and> length mem' = length mem \<and>
    take pos mem' = take pos mem"
proof -
  from assms(2) [OF assms(3,4)] obtain rest where
    "into mem pos v = Inr (pos + length (shown v) + 1, take pos mem @ shown v @ CHR 0x00 # rest)"
    "pos + length (shown v) + 1 + length rest = length mem" by blast
  with assms(1) [OF assms(3)] assms(4) show ?thesis by (simp add: through_buf_def segment_def)
qed

lemma string_traits_contract: "reading std_string_traits (\<lambda>s. True) (\<lambda>s. s) Inr"
proof (intro reading.intro conversion_exact reading_axioms.intro)
  fix mem s :: string and pos
  have f: "\<exists>rest. string_into_buf mem pos s = Inr (pos + length s + 1, take pos mem @ s @ CHR 0x00 # rest) \<and>
      pos + length s + 1 + length rest = length mem" if "pos + length s < length mem" for pos mem s
    using that copy_with_zero [OF that] by (auto simp: string_into_buf_def)
  then show "pos + length s < length mem \<Longrightarrow>
      \<exists>rest. t_into std_string_traits mem pos s = Inr (pos + length s + 1, take pos mem @ s @ CHR 0x00 # rest) \<and>
        pos + length s + 1 + length rest = length mem"
    by (simp add: std_string_traits_def)
  from view_through [of "\<lambda>s. True" "\<lambda>s. False" "\<lambda>s. s", OF _ f] show "pos + length s < length mem \<Longrightarrow>
      \<exists>mem'. t_view std_string_traits mem pos s = Inr (Some s, mem') \<and> length mem' = length mem \<and> take pos mem' = take pos mem"
    by (simp add: std_string_traits_def)
  show "pos \<le> length mem \<Longrightarrow> length mem \<le> pos + length s \<Longrightarrow> \<exists>m. t_into std_string_traits mem pos s = Inl (conversion_overrun m)"
    by (auto simp: std_string_traits_def string_into_buf_def)
qed (simp_all add: std_string_traits_def)

interpretation std_string: reading std_string_traits "\<lambda>s. True" "\<lambda>s. s" Inr
  by (rule string_traits_contract)

interpretation string_view: conversion view_traits "\<lambda>s. True" "\<lambda>s. s"
proof (rule conversion_exact)
  fix mem s :: string and pos
  have f: "\<exists>rest. view_into mem pos s = Inr (pos + length s + 1, take pos mem @ s @ CHR 0x00 # rest) \<and>
      pos + length s + 1 + length rest = length mem" if "pos + length s < length mem" for pos mem s
    using that copy_then_zero [OF that] by (simp add: view_into_def)
  then show "pos + length s < length mem \<Longrightarrow>
      \<exists>rest. t_into view_traits mem pos s = Inr (pos + length s + 1, take pos mem @ s @ CHR 0x00 # rest) \<and>
        pos + length s + 1 + length rest = length mem"
    by (simp add: view_traits_def)
  from view_through [of "\<lambda>s. True" "\<lambda>s. False" "\<lambda>s. s", OF _ f] show "pos + length s < length mem \<Longrightarrow>
      \<exists>mem'. t_view view_traits mem pos s = Inr (Some s, mem') \<and> length mem' = length mem \<and> take pos mem' = take pos mem"
    by (simp add: view_traits_def)
qed (auto simp: view_traits_def view_into_def)

interpretation zero_view: conversion zview_traits "\<lambda>s. True" "\<lambda>s. s"
proof (rule conversion_exact)
  fix mem s :: string and pos
  have f: "\<exists>rest. zview_into mem pos s = Inr (pos + length s + 1, take pos mem @ s @ CHR 0x00 # rest) \<and>
      pos + length s + 1 + length rest = length mem" if "pos + length s < length mem" for pos mem s
    using that copy_then_zero [OF that] by (simp add: zview_into_def)
  then show "pos + length s < length mem \<Longrightarrow>
      \<exists>rest. t_into zview_traits mem pos s = Inr (pos + length s + 1, take pos mem @ s @ CHR 0x00 # rest) \<and>
        pos + length s + 1 + length rest = length mem"
    by (simp add: zview_traits_def)
  have "zview_view mem pos s = through_buf (\<lambda>s. False) zview_into mem pos s" by (simp add: zview_view_def through_buf_def)
  with view_through [of "\<lambda>s. True" "\<lambda>s. False" "\<lambda>s. s", OF _ f] show "pos + length s < length mem \<Longrightarrow>
      \<exists>mem'. t_view zview_traits mem pos s = Inr (Some s, mem') \<and> length mem' = length mem \<and> take pos mem' = take pos mem"
    by (simp add: zview_traits_def)
qed (auto simp: zview_traits_def zview_into_def)

text \<open>A C string that has no zero inside, as every one has not, and a character array that ends in a zero.\<close>

definition c_string_ok :: "string option \<Rightarrow> bool" where
  "c_string_ok s \<longleftrightarrow> (\<exists>t. s = Some t \<and> CHR 0x00 \<notin> set t)"

lemma c_string_fits:
  assumes "c_string_ok s" and "pos + length (the s) < length mem"
  shows "\<exists>rest. c_string_into mem pos s = Inr (pos + length (the s) + 1, take pos mem @ the s @ CHR 0x00 # rest) \<and>
    pos + length (the s) + 1 + length rest = length mem"
  using assms copy_with_zero [OF assms(2)] by (auto simp: c_string_into_def c_string_ok_def c_str_id)

interpretation c_string: reading c_string_traits c_string_ok the "\<lambda>text. Inr (Some (c_str text))"
proof (intro reading.intro conversion_exact reading_axioms.intro)
  fix mem :: string and pos s
  assume ok: "c_string_ok s"
  show "pos + length (the s) < length mem \<Longrightarrow>
      \<exists>rest. t_into c_string_traits mem pos s = Inr (pos + length (the s) + 1, take pos mem @ the s @ CHR 0x00 # rest) \<and>
        pos + length (the s) + 1 + length rest = length mem"
    using c_string_fits [OF ok] by (simp add: c_string_traits_def)
  show "pos + length (the s) < length mem \<Longrightarrow>
      \<exists>mem'. t_view c_string_traits mem pos s = Inr (Some (the s), mem') \<and> length mem' = length mem \<and> take pos mem' = take pos mem"
    using view_through [of c_string_ok c_string_null the, OF _ c_string_fits ok]
    by (auto simp: c_string_traits_def c_string_ok_def c_string_null_def)
qed (auto simp: c_string_traits_def c_string_ok_def c_string_null_def c_string_size_def c_string_into_def c_str_id)

interpretation char_pointer: conversion char_pointer_traits c_string_ok the
  using c_string.conversion_axioms c_string.writing_axioms unfolding conversion_unfold
  by (simp add: char_pointer_traits_def c_string_traits_def)

interpretation char_array: conversion char_array_traits "\<lambda>a. a \<noteq> [] \<and> last a = CHR 0x00" butlast
proof (rule conversion_exact)
  fix mem a :: string and pos
  assume ok: "a \<noteq> [] \<and> last a = CHR 0x00"
  then obtain b where a: "a = b @ [CHR 0x00]" by (metis append_butlast_last_id)
  show "pos + length (butlast a) < length mem \<Longrightarrow>
      \<exists>rest. t_into char_array_traits mem pos a = Inr (pos + length (butlast a) + 1, take pos mem @ butlast a @ CHR 0x00 # rest) \<and>
        pos + length (butlast a) + 1 + length rest = length mem"
    using a copy_with_zero [of pos b mem] by (auto simp: char_array_traits_def char_array_into_def)
  show "\<exists>n. t_size char_array_traits a = Inr n \<and> length (butlast a) < n"
    using a by (simp add: char_array_traits_def)
  show "pos \<le> length mem \<Longrightarrow> length mem \<le> pos + length (butlast a) \<Longrightarrow>
      \<exists>m. t_into char_array_traits mem pos a = Inl (conversion_overrun m)"
    using a by (auto simp: char_array_traits_def char_array_into_def)
qed (auto simp: char_array_traits_def)

lemma bool_traits_contract: "compiled_ok c \<Longrightarrow> reading (bool_traits c) (\<lambda>b. True) bool_text (bool_parse c)"
proof (intro reading.intro conversion_exact reading_axioms.intro)
  fix mem :: string and pos b
  show "pos + length (bool_text b) < length mem \<Longrightarrow>
      \<exists>rest. t_into (bool_traits c) mem pos b = Inr (pos + length (bool_text b) + 1, take pos mem @ bool_text b @ CHR 0x00 # rest) \<and>
        pos + length (bool_text b) + 1 + length rest = length mem"
    using copy_with_zero [of pos "bool_text b" mem] by (auto simp: bool_traits_def generic_into_buf_def)
  show "\<exists>n. t_size (bool_traits c) b = Inr n \<and> length (bool_text b) < n"
    by (simp add: bool_traits_def bool_text_def)
qed (auto simp: bool_traits_def generic_into_buf_def compiled_ok_def reads_back_def)

text \<open>The eight integer types keep the contract, each for all of its values, the lowest one too.\<close>

lemma builtin_bits: "2 \<le> bits (builtin_type k)"
  by (cases k) simp_all

lemma builtin_writing:
  assumes "writes_number c"
  shows "writing (builtin_traits c k) (in_type (builtin_type k)) dec_int"
proof
  fix mem :: string and pos x n
  assume x: "in_type (builtin_type k) x"
  show "\<exists>n. t_size (builtin_traits c k) x = Inr n \<and> length (dec_int x) < n"
    using integral_text_fits [OF x builtin_bits] by (simp add: builtin_traits_def integral_traits_def)
  show "\<exists>rest. t_into (builtin_traits c k) mem pos x = Inr (pos + length (dec_int x) + 1, take pos mem @ dec_int x @ CHR 0x00 # rest) \<and>
      pos + length (dec_int x) + 1 + length rest = length mem"
    if "t_size (builtin_traits c k) x = Inr n" "pos + n \<le> length mem"
    using assms x that unfolding writes_number_def by (simp add: builtin_traits_def integral_traits_def)
  show "pos \<le> length mem \<Longrightarrow> length mem \<le> pos + length (dec_int x) \<Longrightarrow>
      \<exists>m. t_into (builtin_traits c k) mem pos x = Inl (conversion_overrun m)"
    using assms x by (simp add: builtin_traits_def integral_traits_def writes_number_def)
qed (simp add: builtin_traits_def integral_traits_def)

lemma builtin_contract:
  assumes c: "compiled_ok c"
  shows "reading (builtin_traits c k) (in_type (builtin_type k)) dec_int (num_parse c (builtin_type k))"
proof (intro reading.intro conversion.intro builtin_writing conversion_axioms.intro reading_axioms.intro)
  show "writes_number c" using c by (simp add: compiled_ok_def)
  fix mem :: string and pos x n
  assume x: "in_type (builtin_type k) x"
  show "num_parse c (builtin_type k) (dec_int x) = Inr x" using c x by (simp add: compiled_ok_def reads_back_def)
  assume n: "t_size (builtin_traits c k) x = Inr n" "pos + n \<le> length mem"
  then have "pos + integral_size_buffer (builtin_type k) \<le> length mem" by (simp add: builtin_traits_def integral_traits_def)
  with c x obtain mem' where "num_view c mem pos (builtin_type k) x = Inr (dec_int x, mem')" "length mem' = length mem"
    "take pos mem' = take pos mem" unfolding compiled_ok_def shows_number_def by blast
  then show "\<exists>mem'. t_view (builtin_traits c k) mem pos x = Inr (Some (dec_int x), mem') \<and> length mem' = length mem \<and>
      take pos mem' = take pos mem" by (simp add: builtin_traits_def integral_traits_def)
qed (simp add: builtin_traits_def integral_traits_def)

lemma builtin_float_sizes:
  "float_size_buffer (builtin_float_type f) = (case f of Float \<Rightarrow> 16 | Double \<Rightarrow> 25 | Long_double \<Rightarrow> 30)"
  by (cases f) (simp_all add: float_size_buffer_def float_digits10.simps)

lemma builtin_float_fits:
  assumes "length digits < max_digits10 (builtin_float_type f)"
    and "e \<le> max_digits10 (builtin_float_type f) + neg_min_exponent10 (builtin_float_type f)"
  shows "length (scientific negative d digits exp_sign e) < (case f of Float \<Rightarrow> 16 | Double \<Rightarrow> 25 | Long_double \<Rightarrow> 30)"
proof -
  have "10 \<le> max_exponent10 (builtin_float_type f)" by (cases f) simp_all
  from float_text_fits [OF assms(1) this] assms(2) show ?thesis by (simp flip: builtin_float_sizes)
qed

lemma binary_fits:
  assumes "compiled_ok c" and "pos + length (bin_text b) < length mem"
  shows "\<exists>rest. binary_into c mem pos b = Inr (pos + length (bin_text b) + 1, take pos mem @ bin_text b @ CHR 0x00 # rest) \<and>
    pos + length (bin_text b) + 1 + length rest = length mem"
proof -
  have e: "size_esc_bin (length b) = length (bin_text b) + 1" by (simp add: size_esc_bin_def)
  have "pos + size_esc_bin (length b) \<le> length mem" using assms(2) unfolding e by simp
  with assms(1) have "bin_into c b mem pos = Inr (take pos mem @ bin_text b @ CHR 0x00 # drop (pos + size_esc_bin (length b)) mem)"
    unfolding compiled_ok_def writes_binary_def by blast
  with assms(2) show ?thesis by (simp add: binary_into_def e del: length_bin_text) linarith
qed

lemma bytes_view_contract: "compiled_ok c \<Longrightarrow> conversion (bytes_view_traits c) (\<lambda>b. True) bin_text"
proof (rule conversion_exact)
  fix mem b :: string and pos
  assume c: "compiled_ok c"
  show "pos + length (bin_text b) < length mem \<Longrightarrow>
      \<exists>rest. t_into (bytes_view_traits c) mem pos b = Inr (pos + length (bin_text b) + 1, take pos mem @ bin_text b @ CHR 0x00 # rest) \<and>
        pos + length (bin_text b) + 1 + length rest = length mem"
    using binary_fits [OF c] by (simp add: bytes_view_traits_def del: length_bin_text)
  show "pos + length (bin_text b) < length mem \<Longrightarrow>
      \<exists>mem'. t_view (bytes_view_traits c) mem pos b = Inr (Some (bin_text b), mem') \<and> length mem' = length mem \<and> take pos mem' = take pos mem"
    using view_through [of "\<lambda>b. True" "\<lambda>b. False" bin_text, OF _ binary_fits [OF c]]
    by (simp add: bytes_view_traits_def del: length_bin_text)
qed (auto simp: bytes_view_traits_def size_esc_bin_def binary_into_def)

lemma bytes_traits_contract: "compiled_ok c \<Longrightarrow> reading (bytes_traits c) fits_memory bin_text (bytes_from_string c)"
proof -
  assume c: "compiled_ok c"
  have "conversion (bytes_traits c) fits_memory bin_text"
    using bytes_view_contract [OF c] unfolding conversion_unfold by (simp add: bytes_traits_def bytes_view_traits_def)
  moreover have "bytes_from_string c (bin_text b) = Inr b" if "fits_memory b" for b
    using size_unesc_esc [OF that] that c
    by (simp add: bytes_from_string_def fits_memory_def compiled_ok_def reads_back_def del: length_bin_text)
  ultimately show ?thesis by (intro reading.intro reading_axioms.intro) (simp_all add: bytes_traits_def)
qed

text \<open>A field of a composite value is an optional string or a \<open>bool\<close>: their conversions are these.\<close>

lemma sql_value_is_text:
  "size_buffer (Text s) = t_size (optional_traits std_string_traits) (Some s)"
  "size_buffer No_text = t_size (optional_traits std_string_traits) None"
  "size_buffer (Bool b) = t_size (bool_traits c) b"
  "value_into_buf mem pos (Text s) = t_into (optional_traits std_string_traits) mem pos (Some s)"
  "value_into_buf mem pos (Bool b) = t_into (bool_traits c) mem pos b"
  by (simp_all add: optional_traits_def std_string_traits_def bool_traits_def deref_def value_into_buf_def)

section \<open>A realisation\<close>

text \<open>The documented behaviour can be had: an instance of the compiled part in decimal and hexadecimal.\<close>

definition dec_value :: "string \<Rightarrow> nat" where
  "dec_value = foldl (\<lambda>n c. 10 * n + (byte_of c - 48)) 0"

lemma dec_value_dec [simp]: "dec_value (dec n) = n"
proof (induction n rule: dec.induct)
  case (1 n)
  then show ?case by (cases "n < 10") (auto simp: dec_digit dec_tens dec_value_def byte_of_def)
qed

lemma digit_no_minus: "n < 10 \<Longrightarrow> char_of (48 + n :: nat) \<noteq> CHR ''-''"
  by (rule notI, drule arg_cong [of _ _ "of_char :: char \<Rightarrow> nat"]) simp

definition dec_int_value :: "string \<Rightarrow> int" where
  "dec_int_value s = (if s \<noteq> [] \<and> hd s = CHR ''-'' then - int (dec_value (tl s)) else int (dec_value s))"

lemma dec_int_value [simp]: "dec_int_value (dec_int x) = x"
proof (cases "x < 0")
  case False
  have "hd (dec n) \<noteq> CHR ''-''" for n
  proof (induction n rule: dec.induct)
    case (1 n)
    then show ?case using dec_nonempty [of "n div 10"] by (cases "n < 10") (auto simp: dec_digit dec_tens digit_no_minus)
  qed
  with False show ?thesis by (simp add: dec_int_value_def dec_int_def)
qed (simp add: dec_int_value_def dec_int_def)

definition hex_value :: "char \<Rightarrow> nat" where
  "hex_value c = (if byte_of c < 87 then byte_of c - 48 else byte_of c - 87)"

fun unhex :: "string \<Rightarrow> string" where
  "unhex (c # d # s) = char_of (16 * hex_value c + hex_value d) # unhex s"
| "unhex _ = []"

lemma hex_value_digit [simp]: "n < 16 \<Longrightarrow> hex_value (hex_digit n) = n"
  by (auto simp: hex_value_def byte_of_def)

lemma unhex_byte: "unhex (hex_byte c @ s) = c # unhex s"
proof -
  have "byte_of c div 16 < 16" using byte_of_less [of c] by linarith
  then have "16 * hex_value (hex_digit (byte_of c div 16)) + hex_value (hex_digit (byte_of c mod 16)) = byte_of c"
    by (simp del: hex_digit.simps)
  then show ?thesis by (simp add: hex_byte_def del: hex_digit.simps) (simp add: byte_of_def)
qed

lemma unhex_hex [simp]: "unhex (concat (map hex_byte b)) = b"
  by (induction b) (simp_all add: unhex_byte)

definition decimal_compiled :: compiled where
  "decimal_compiled =
     \<lparr>num_into = \<lambda>mem pos t x. string_into_buf mem pos (dec_int x),
      num_view = \<lambda>mem pos t x. Inr (dec_int x, mem),
      num_parse = \<lambda>t s. Inr (dec_int_value s),
      bool_parse = \<lambda>s. Inr (s = ''true''),
      bin_into = \<lambda>b mem pos. copy_to mem pos (bin_text b @ [CHR 0x00]),
      bin_parse = \<lambda>s. Inr (unhex (drop 2 s))\<rparr>"

lemma decimal_compiled_ok: "compiled_ok decimal_compiled"
  unfolding compiled_ok_def
proof (intro conjI)
  have "length (dec_int x) < integral_size_buffer (builtin_type k)" if "in_type (builtin_type k) x" for k x
    using integral_text_fits [OF that builtin_bits] .
  then show "writes_number decimal_compiled"
    by (fastforce simp: writes_number_def decimal_compiled_def string_into_buf_def copy_to_eq)
  show "shows_number decimal_compiled"
    by (simp add: shows_number_def decimal_compiled_def)
  show "writes_binary decimal_compiled"
    by (simp add: writes_binary_def decimal_compiled_def copy_to_eq size_esc_bin_def)
  show "reads_back decimal_compiled"
    by (simp add: reads_back_def decimal_compiled_def bool_text_def) (simp add: bin_text_def)
qed

section \<open>Text and back\<close>

definition round_trips :: "'v traits \<Rightarrow> 'v \<Rightarrow> bool" where
  "round_trips T v \<longleftrightarrow> (\<exists>from. t_parse T = Some from \<and> and_then (to_string T v) from = Inr v)"

lemma reading_round_trips: "reading T ok shown from \<Longrightarrow> ok v \<Longrightarrow> round_trips T v"
  using reading.round_trip reading.parser unfolding round_trips_def by fastforce

text \<open>
  C29. Conversion to text and back: every value of each of the eight integer types that have a conversion
  (short to unsigned long long; the lowest values too, in the space that \<open>size_buffer\<close> gives), alone, as
  an enumeration, or in an optional, a unique or a shared pointer, and every string, C string, optional
  string, truth value and byte string (of less than 2^62 bytes) is converted to text without an error,
  and \<open>from_string\<close> of the text gives the value back.  Assumed of the part that is compiled elsewhere,
  as documented: given the room that \<open>size_buffer\<close> asks for (less may be refused), it writes an integer
  in base ten, and binary data in hexadecimal, with a zero after it, and its parsers read these texts
  and true and false back.  The cast of the enumeration inverts the conversion to the underlying type.
\<close>
theorem conversion_roundtrip:
  assumes c: "compiled_ok c" and x: "in_type (builtin_type k) x" and z: "CHR 0x00 \<notin> set z" and b: "fits_memory b"
    and e: "\<And>e. cast (to_underlying e) = e" "in_type (builtin_type k) (to_underlying e)"
  shows "round_trips (builtin_traits c k) x \<and>
    round_trips (optional_traits (builtin_traits c k)) (Some x) \<and>
    round_trips (unique_ptr_traits (builtin_traits c k)) (Some x) \<and>
    round_trips (shared_ptr_traits (builtin_traits c k)) (Some x) \<and>
    round_trips (enum_traits to_underlying cast (builtin_traits c k)) e \<and>
    round_trips std_string_traits s \<and> round_trips (optional_traits std_string_traits) (Some s) \<and>
    round_trips c_string_traits (Some z) \<and> round_trips (bool_traits c) d \<and> round_trips (bytes_traits c) b"
proof -
  note int = builtin_contract [OF c, of k]
  note wrapped = reading.optional_reading reading.unique_reading reading.shared_reading
  note trips = reading_round_trips [OF int x] wrapped [OF int, THEN reading_round_trips, of "Some x"]
    reading.enum_reading [OF int e(1), THEN reading_round_trips, of e]
    reading_round_trips [OF string_traits_contract, of s]
    std_string.optional_reading [THEN reading_round_trips, of "Some s"]
    reading_round_trips [OF c_string.reading_axioms, of "Some z"]
    reading_round_trips [OF bool_traits_contract [OF c], of d] reading_round_trips [OF bytes_traits_contract [OF c] b]
  from trips x z e(2) show ?thesis by (simp add: c_string_ok_def)
qed

theorem conversion_roundtrip_witness:
  "round_trips (builtin_traits decimal_compiled Short) (- 32768)"
  using conversion_roundtrip [OF decimal_compiled_ok, where k = Short and x = "- 32768" and z = "[]" and b = "[]" and
      cast = "\<lambda>b. b = 1" and to_underlying = of_bool]
  by (auto simp: in_type_def lowest_def highest_def fits_memory_def)

text \<open>
  C30. \<open>concat\<close>, on which the library's error messages are built, gives the texts of its items, strings and
  integers of one of the eight types that have a conversion, one after the other, and never overruns the
  buffer it has sized by \<open>size_buffer\<close>: the items before one leave it at least the room its own
  \<open>size_buffer\<close> asks for, which is all that is assumed of the compiled conversion of integers (given that
  room it writes the number in base ten and a zero; with less it may refuse).
\<close>
theorem concat_correct:
  assumes "writes_number c" and "\<forall>x. Inr x \<in> set items \<longrightarrow> in_type (builtin_type k) x"
  shows "concat_items (variant_traits view_traits (builtin_traits c k)) items =
    Inr (concat (map (case_sum (\<lambda>s. s) dec_int) items))"
proof -
  note v = variant_writing [OF string_view.writing_axioms builtin_writing [OF assms(1), of k]]
  from assms(2) have "\<forall>i \<in> set items. case_sum (\<lambda>s. True) (in_type (builtin_type k)) i" by (auto split: sum.splits)
  from writing.concat_items_texts [OF v this] show ?thesis .
qed

text \<open>A conservative realisation: \<open>into_buf\<close> insists on the full size, as the documentation allows.\<close>

definition strict_compiled :: compiled where
  "strict_compiled = decimal_compiled
     \<lparr>num_into := \<lambda>mem pos t x.
        if length mem < pos + integral_size_buffer t then Inl (conversion_overrun ''integer'')
        else string_into_buf mem pos (dec_int x)\<rparr>"

lemma strict_writes_number: "writes_number strict_compiled"
proof -
  have "length (dec_int x) < integral_size_buffer (builtin_type k)" if "in_type (builtin_type k) x" for k x
    using integral_text_fits [OF that builtin_bits] .
  then show ?thesis
    by (fastforce simp: writes_number_def strict_compiled_def string_into_buf_def copy_to_eq)
qed

theorem concat_correct_witness:
  "concat_items (variant_traits view_traits (builtin_traits strict_compiled Short))
     [Inl ''Array has '', Inr (- 7), Inl '' elements''] =
   Inr (concat (map (case_sum (\<lambda>s. s) dec_int) [Inl ''Array has '', Inr (- 7), Inl '' elements'']))"
  by (rule concat_correct [OF strict_writes_number]) (auto simp: in_type_def lowest_def highest_def)

end
