(* ===== verification/Pqxx_Session.thy ===== *)
theory Pqxx_Session
  imports Pqxx_Convert
begin

text \<open>
  The functions of a connection and of a transaction that are in the headers (\<open>pqxx/connection.hxx\<close>,
  \<open>pqxx/transaction_base.hxx\<close>, \<open>pqxx/isolation.hxx\<close>, \<open>pqxx/transaction.hxx\<close>): the commands that begin transactions,
  the parameters of a connection, session variables, escaping into a buffer, the functions that execute
  statements; and the focus of a transaction (\<open>pqxx/transaction_focus.hxx\<close>) with its moves.
\<close>

section \<open>Starting a transaction\<close>

datatype write_policy = Read_only | Read_write

datatype isolation_level = Read_committed | Repeatable_read | Serializable

fun begin_cmd :: "isolation_level \<Rightarrow> write_policy \<Rightarrow> string" where
  "begin_cmd Read_committed Read_write = ''BEGIN''"
| "begin_cmd Read_committed Read_only = ''BEGIN READ ONLY''"
| "begin_cmd Repeatable_read Read_write = ''BEGIN ISOLATION LEVEL REPEATABLE READ''"
| "begin_cmd Repeatable_read Read_only = ''BEGIN ISOLATION LEVEL REPEATABLE READ READ ONLY''"
| "begin_cmd Serializable Read_write = ''BEGIN ISOLATION LEVEL SERIALIZABLE''"
| "begin_cmd Serializable Read_only = ''BEGIN ISOLATION LEVEL SERIALIZABLE READ ONLY''"

text \<open>\<open>work\<close> and \<open>read_transaction\<close>: a transaction is of the default level and policy.\<close>

definition work :: "isolation_level \<times> write_policy" where
  "work = (Read_committed, Read_write)"

definition read_transaction :: "isolation_level \<times> write_policy" where
  "read_transaction = (Read_committed, Read_only)"

lemma begin_cmd_inj: "begin_cmd i w = begin_cmd j v \<longleftrightarrow> i = j \<and> w = v"
  by (cases i; cases j; cases w; cases v) simp_all

section \<open>Connections\<close>

text \<open>
  The arrays of keywords and values that libpq is given, each with a null pointer at its end; libpq reads
  them up to the first null keyword (\<open>libpq_params\<close>), and a text up to its first zero.
\<close>

definition connection_arrays :: "(string \<times> string) list \<Rightarrow> string option list \<times> string option list" where
  "connection_arrays params =
     (map (\<lambda>(key, value). Some (c_str key)) params @ [None], map (\<lambda>(key, value). Some (c_str value)) params @ [None])"

fun libpq_params :: "string option list \<Rightarrow> string option list \<Rightarrow> (string \<times> string option) list" where
  "libpq_params (Some k # ks) (v # vs) = (k, v) # libpq_params ks vs"
| "libpq_params _ _ = []"

lemma connection_arrays_params:
  "(\<lambda>(keys, values). libpq_params keys values) (connection_arrays params) = map (\<lambda>(k, v). (c_str k, Some (c_str v))) params"
  by (induction params) (auto simp: connection_arrays_def)

text \<open>
  Setting a variable of the session gives the statement to execute; \<open>has_null\<close> and \<open>null\<close> are the type's
  nullness, \<open>quote\<close> and \<open>quote_name\<close> the connection's.
\<close>

definition set_session_var ::
    "(string \<Rightarrow> string) \<Rightarrow> ('v \<Rightarrow> pqxx_error + string) \<Rightarrow> bool \<Rightarrow> ('v \<Rightarrow> bool) \<Rightarrow> string \<Rightarrow> 'v \<Rightarrow> pqxx_error + string" where
  "set_session_var quote_name quote has_null null var value =
     (if has_null \<and> null value then
        and_then (concat_items view_traits [''Attempted to set variable '', var, '' to null.'']) (\<lambda>m. Inl (null_variable m))
      else and_then (quote value) (\<lambda>q. concat_items view_traits [''SET '', quote_name var, ''='', q]))"

definition get_var_as :: "('v traits) \<Rightarrow> (string \<Rightarrow> pqxx_error + string) \<Rightarrow> string \<Rightarrow> pqxx_error + 'v" where
  "get_var_as T get_var var =
     (case t_parse T of None \<Rightarrow> Inl no_return | Some from \<Rightarrow> and_then (get_var var) from)"

text \<open>
  Escaping into a buffer of the caller's: of a text (by libpq, which is given a buffer it assumes to be large
  enough) and of binary data.
\<close>

definition escape_room :: "string \<Rightarrow> nat \<Rightarrow> nat \<Rightarrow> nat \<Rightarrow> pqxx_error + unit" where
  "escape_room what len needed space =
     (if space < needed then
        Inl (range_error (''Not enough room to escape '' @ what @ '' of '' @ dec len @ '' byte(s): need '' @ dec needed @
          '' bytes of buffer space, but buffer size is '' @ dec space @ ''.''))
      else Inr ())"

definition esc_buffer ::
    "(string \<Rightarrow> string \<Rightarrow> nat \<Rightarrow> pqxx_error + nat \<times> string) \<Rightarrow> string \<Rightarrow> string \<Rightarrow> pqxx_error + string \<times> string" where
  "esc_buffer esc_to_buf text buffer =
     (let needed = 2 * length text + 1 in
      and_then (escape_room ''string'' (length text) needed (length buffer)) (\<lambda>_.
      and_then (esc_to_buf text buffer 0) (\<lambda>(n, mem). Inr (segment mem 0 n, mem))))"

definition esc_binary_buffer :: "compiled \<Rightarrow> string \<Rightarrow> string \<Rightarrow> pqxx_error + string \<times> string" where
  "esc_binary_buffer c data buffer =
     (let needed = size_esc_bin (length data) in
      and_then (escape_room ''binary string'' (length data) needed (length buffer)) (\<lambda>_.
      and_then (bin_into c data buffer 0) (\<lambda>mem. Inr (segment mem 0 (needed - 1), mem))))"

definition unesc_bin_text :: "compiled \<Rightarrow> string \<Rightarrow> pqxx_error + string" where
  "unesc_bin_text c text =
     (if size_unesc_bin (length text) > 2 ^ 63 - 2 then Inl length_error else bin_parse c text)"

text \<open>Both escapes are the whole escaped text, if the buffer is as large as is asked for.\<close>

lemma esc_buffer_text:
  assumes "esc_ok escaped esc" and "2 * length text + 1 \<le> length buffer"
  shows "\<exists>mem. esc_buffer esc text buffer = Inr (escaped text, mem) \<and> length mem = length buffer"
proof -
  have len: "length (escaped text) \<le> 2 * length text" using assms(1) by (simp add: esc_ok_def)
  from assms obtain rest where "esc text buffer 0 = Inr (length (escaped text), take 0 buffer @ escaped text @ CHR 0x00 # rest)"
    "length rest = length buffer - (0 + length (escaped text) + 1)" unfolding esc_ok_def by (metis add_0)
  with assms(2) len show ?thesis by (simp add: esc_buffer_def escape_room_def segment_def)
qed

lemma esc_binary_buffer_text:
  assumes "compiled_ok c" and "size_esc_bin (length data) \<le> length buffer"
  shows "\<exists>mem. esc_binary_buffer c data buffer = Inr (bin_text data, mem)"
proof -
  have e: "size_esc_bin (length data) = length (bin_text data) + 1" by (simp add: size_esc_bin_def)
  from assms have "bin_into c data buffer 0 = Inr (take 0 buffer @ bin_text data @ CHR 0x00 # drop (0 + size_esc_bin (length data)) buffer)"
    unfolding compiled_ok_def writes_binary_def by auto
  with assms(2) show ?thesis
    by (simp add: esc_binary_buffer_def escape_room_def segment_def e Let_def del: length_bin_text)
qed

text \<open>What is escaped into a buffer is what \<open>unesc_bin\<close> reads.\<close>

lemma unesc_bin_roundtrip: "compiled_ok c \<Longrightarrow> fits_memory data \<Longrightarrow> unesc_bin_text c (bin_text data) = Inr data"
  using reading.parses_back [OF bytes_traits_contract] by (simp add: unesc_bin_text_def bytes_from_string_def)

lemma set_session_var_text:
  assumes "quote value = Inr q" and "\<not> (has_null \<and> null value)"
  shows "set_session_var quote_name quote has_null null var value = Inr (''SET '' @ quote_name var @ ''='' @ q)"
  using assms by (simp add: set_session_var_def string_view.concat_items_texts)

section \<open>Parameters from a range and from arguments\<close>

text \<open>
  A range of values with an accessor that is applied to each; without one the values are taken as they are.
  \<open>append_pack\<close> appends the arguments of the constructor of \<open>params\<close>, one after the other.
\<close>

record 'a dynamic_params =
  dp_range :: "'a list"
  dp_access :: "'a \<Rightarrow> sql_value"

definition dynamic_identity :: "sql_value list \<Rightarrow> sql_value dynamic_params" where
  "dynamic_identity xs = \<lparr>dp_range = xs, dp_access = \<lambda>x. x\<rparr>"

fun append_range :: "string \<Rightarrow> ('a \<Rightarrow> sql_value) \<Rightarrow> string option list \<Rightarrow> 'a list \<Rightarrow> pqxx_error + string option list" where
  "append_range tn access ps [] = Inr ps"
| "append_range tn access ps (x # xs) = and_then (append_param tn ps (access x)) (\<lambda>ps. append_range tn access ps xs)"

definition append_dynamic :: "string \<Rightarrow> string option list \<Rightarrow> 'a dynamic_params \<Rightarrow> pqxx_error + string option list" where
  "append_dynamic tn ps d = append_range tn (dp_access d) ps (dp_range d)"

fun append_pack :: "string \<Rightarrow> string option list \<Rightarrow> sql_value list \<Rightarrow> pqxx_error + string option list" where
  "append_pack tn ps [] = Inr ps"
| "append_pack tn ps (v # vs) = and_then (append_param tn ps v) (\<lambda>ps. append_pack tn ps vs)"

definition new_params :: "string \<Rightarrow> sql_value list \<Rightarrow> pqxx_error + string option list" where
  "new_params tn args = append_pack tn [] args"

text \<open>However they are given, the parameters that are sent are the same.\<close>

lemma append_range_multi: "append_range tn access ps xs = append_multi tn ps (map access xs)"
  by (induction xs arbitrary: ps) simp_all

lemma append_pack_multi: "append_pack tn ps vs = append_multi tn ps vs"
  by (induction vs arbitrary: ps) simp_all

lemma params_agree:
  "new_params tn vs = append_dynamic tn [] (dynamic_identity vs)"
  "new_params tn vs = Inr (map (\<lambda>v. if v = No_text then None else Some (plain_text v)) vs)"
  by (simp_all add: new_params_def append_dynamic_def dynamic_identity_def append_pack_multi append_range_multi append_multi_params)

section \<open>Executing statements\<close>

text \<open>
  \<open>run\<close> executes a statement, or a prepared statement by its name, with its parameters, and is compiled
  elsewhere; \<open>one_row\<close> and \<open>opt_row\<close> of a result are too.  The description of a query is not used.
\<close>

type_synonym executor = "string \<Rightarrow> string option list \<Rightarrow> pqxx_error + query_result"

definition exec0 :: "executor \<Rightarrow> string \<Rightarrow> pqxx_error + query_result" where
  "exec0 run query = and_then (run query []) no_rows"

definition exec1 :: "(query_result \<Rightarrow> pqxx_error + res_row) \<Rightarrow> executor \<Rightarrow> string \<Rightarrow> pqxx_error + res_row" where
  "exec1 one_row run query = and_then (run query []) one_row"

definition exec_n :: "executor \<Rightarrow> nat \<Rightarrow> string \<Rightarrow> pqxx_error + query_result" where
  "exec_n run rows query = and_then (run query []) (expect_rows rows)"

definition exec_params :: "executor \<Rightarrow> string \<Rightarrow> string \<Rightarrow> sql_value list \<Rightarrow> pqxx_error + query_result" where
  "exec_params run tn query args = and_then (new_params tn args) (run query)"

definition exec_params1 ::
    "(query_result \<Rightarrow> pqxx_error + res_row) \<Rightarrow> executor \<Rightarrow> string \<Rightarrow> string \<Rightarrow> sql_value list \<Rightarrow> pqxx_error + res_row" where
  "exec_params1 one_row run tn query args = and_then (exec_params run tn query args) one_row"

definition exec_params0 :: "executor \<Rightarrow> string \<Rightarrow> string \<Rightarrow> sql_value list \<Rightarrow> pqxx_error + query_result" where
  "exec_params0 run tn query args = and_then (exec_params run tn query args) no_rows"

text \<open>The count of rows is a \<open>std::size_t\<close>, which is checked after the statement has run, or an \<open>int\<close>.\<close>

definition exec_params_n_size :: "bool \<Rightarrow> executor \<Rightarrow> string \<Rightarrow> nat \<Rightarrow> string \<Rightarrow> sql_value list \<Rightarrow> pqxx_error + query_result" where
  "exec_params_n_size have_cmp run tn rows query args =
     and_then (exec_params run tn query args) (\<lambda>r.
     and_then (check_cast have_cmp \<lparr>is_signed = False, bits = 64\<rparr> \<lparr>is_signed = True, bits = 32\<rparr> (int rows) ''number of rows'') (\<lambda>n.
     expect_rows (nat n) r))"

definition exec_params_n :: "executor \<Rightarrow> string \<Rightarrow> nat \<Rightarrow> string \<Rightarrow> sql_value list \<Rightarrow> pqxx_error + query_result" where
  "exec_params_n run tn rows query args = and_then (exec_params run tn query args) (expect_rows rows)"

definition query_params :: "'v field_type list \<Rightarrow> executor \<Rightarrow> string \<Rightarrow> string option list \<Rightarrow> 'v list list \<times> pqxx_error option" where
  "query_params fts run query parms = query_iter fts (run query parms)"

definition query_n_params ::
    "'v field_type list \<Rightarrow> executor \<Rightarrow> nat \<Rightarrow> string \<Rightarrow> string option list \<Rightarrow> 'v list list \<times> pqxx_error option" where
  "query_n_params fts run rows query parms = query_iter fts (and_then (run query parms) (expect_rows rows))"

definition query01_params ::
    "(query_result \<Rightarrow> pqxx_error + res_row option) \<Rightarrow> nat list \<Rightarrow> 'v field_type list \<Rightarrow> executor \<Rightarrow> string \<Rightarrow>
       string option list \<Rightarrow> pqxx_error + 'v list option" where
  "query01_params opt_row order fts run query parms = query01 opt_row order fts (run query parms)"

definition for_query_params ::
    "nat list \<Rightarrow> 'v field_type list \<Rightarrow> executor \<Rightarrow> string \<Rightarrow> string option list \<Rightarrow> 'v list list \<times> pqxx_error option" where
  "for_query_params order fts run query parms = for_query order fts (run query parms)"

text \<open>The same for a prepared statement.\<close>

definition exec_prepared :: "executor \<Rightarrow> string \<Rightarrow> string \<Rightarrow> sql_value list \<Rightarrow> pqxx_error + query_result" where
  "exec_prepared run tn statement args = and_then (new_params tn args) (run statement)"

definition exec_prepared1 ::
    "(query_result \<Rightarrow> pqxx_error + res_row) \<Rightarrow> executor \<Rightarrow> string \<Rightarrow> string \<Rightarrow> sql_value list \<Rightarrow> pqxx_error + res_row" where
  "exec_prepared1 one_row run tn statement args = and_then (exec_prepared run tn statement args) one_row"

definition exec_prepared0 :: "executor \<Rightarrow> string \<Rightarrow> string \<Rightarrow> sql_value list \<Rightarrow> pqxx_error + query_result" where
  "exec_prepared0 run tn statement args = and_then (exec_prepared run tn statement args) no_rows"

definition exec_prepared_n :: "executor \<Rightarrow> string \<Rightarrow> nat \<Rightarrow> string \<Rightarrow> sql_value list \<Rightarrow> pqxx_error + query_result" where
  "exec_prepared_n run tn rows statement args = and_then (exec_prepared run tn statement args) (expect_rows rows)"

definition query_prepped ::
    "'v field_type list \<Rightarrow> executor \<Rightarrow> string \<Rightarrow> string option list \<Rightarrow> 'v list list \<times> pqxx_error option" where
  "query_prepped fts run statement parms = query_iter fts (run statement parms)"

definition query_value_prepped ::
    "(query_result \<Rightarrow> pqxx_error + res_field) \<Rightarrow> 'v field_type \<Rightarrow> executor \<Rightarrow> string \<Rightarrow> string option list \<Rightarrow> pqxx_error + 'v" where
  "query_value_prepped one_field ft run statement parms =
     and_then (and_then (and_then (run statement parms) (expect_columns 1)) one_field) (as_value ft)"

definition for_query_prepped ::
    "nat list \<Rightarrow> 'v field_type list \<Rightarrow> executor \<Rightarrow> string \<Rightarrow> string option list \<Rightarrow> 'v list list \<times> pqxx_error option" where
  "for_query_prepped order fts run statement parms = for_query order fts (run statement parms)"

lemma int_rows: "check_cast have_cmp \<lparr>is_signed = False, bits = 64\<rparr> \<lparr>is_signed = True, bits = 32\<rparr> (int rows) d =
    (if rows < 2 ^ 31 then Inr (int rows) else Inl (range_error (''Cast overflow: '' @ d)))" if "rows < 2 ^ 64"
  using that by (auto simp: check_cast_def cmp_greater_def cmp_less_def highest_def lowest_def)

text \<open>The parameters are sent as they are given; the count of rows is checked for both of its types.\<close>

lemma exec_params_sends:
  "exec_params run tn query args = run query (map (\<lambda>v. if v = No_text then None else Some (plain_text v)) args)"
  by (simp add: exec_params_def params_agree(2))

lemma exec_params_n_size:
  "rows < 2 ^ 64 \<Longrightarrow> exec_params_n_size have_cmp run tn rows query args =
    (if rows < 2 ^ 31 then exec_params_n run tn rows query args
     else and_then (exec_params run tn query args) (\<lambda>_. Inl (range_error ''Cast overflow: number of rows'')))"
  by (simp add: exec_params_n_size_def exec_params_n_def int_rows)
section \<open>The focus of a transaction\<close>

text \<open>
  A transaction has a pointer to the one stream, pipeline or the like that has its attention, and each of
  these has a pointer to its transaction and says whether it is registered there.  Registering and
  unregistering are compiled elsewhere (\<open>reg\<close> and \<open>unreg\<close>).
\<close>

record transaction_focus =
  fo_trans :: nat
  fo_registered :: bool
  fo_classname :: string
  fo_name :: string

record focus_state =
  foci :: "nat \<Rightarrow> transaction_focus option"
  hosts :: "nat \<Rightarrow> nat option"

definition new_focus :: "nat \<Rightarrow> string \<Rightarrow> string \<Rightarrow> transaction_focus" where
  "new_focus t cname oname = \<lparr>fo_trans = t, fo_registered = False, fo_classname = cname, fo_name = oname\<rparr>"

definition focus_upd :: "nat \<Rightarrow> (transaction_focus \<Rightarrow> transaction_focus) \<Rightarrow> focus_state \<Rightarrow> focus_state" where
  "focus_upd f g s = s\<lparr>foci := (foci s)(f := map_option g (foci s f))\<rparr>"

definition is_registered :: "focus_state \<Rightarrow> nat \<Rightarrow> bool" where
  "is_registered s f = (case foci s f of None \<Rightarrow> False | Some o' \<Rightarrow> fo_registered o')"

definition focus_name :: "focus_state \<Rightarrow> nat \<Rightarrow> string" where
  "focus_name s f = (case foci s f of None \<Rightarrow> [] | Some o' \<Rightarrow> fo_name o')"

definition move_name_and_registration ::
    "(nat \<Rightarrow> focus_state \<Rightarrow> pqxx_error + focus_state) \<Rightarrow> (nat \<Rightarrow> focus_state \<Rightarrow> focus_state) \<Rightarrow> nat \<Rightarrow> nat \<Rightarrow> focus_state \<Rightarrow>
       pqxx_error + focus_state" where
  "move_name_and_registration reg unreg this other s =
     (let r = is_registered s other;
          s = (if r then unreg other s else s);
          name = focus_name s other;
          s = focus_upd other (\<lambda>f. f\<lparr>fo_name := []\<rparr>) s;
          s = focus_upd this (\<lambda>f. f\<lparr>fo_name := name\<rparr>) s in
      if r then reg this s else Inr s)"

definition move_construct ::
    "(nat \<Rightarrow> focus_state \<Rightarrow> pqxx_error + focus_state) \<Rightarrow> (nat \<Rightarrow> focus_state \<Rightarrow> focus_state) \<Rightarrow> nat \<Rightarrow> nat \<Rightarrow> focus_state \<Rightarrow>
       pqxx_error + focus_state" where
  "move_construct reg unreg this other s =
     (case foci s other of
        None \<Rightarrow> Inl (read_out_of_bounds 0)
      | Some f \<Rightarrow>
          move_name_and_registration reg unreg this other (s\<lparr>foci := (foci s)(this \<mapsto> f\<lparr>fo_name := []\<rparr>)\<rparr>))"

definition move_assign ::
    "(nat \<Rightarrow> focus_state \<Rightarrow> pqxx_error + focus_state) \<Rightarrow> (nat \<Rightarrow> focus_state \<Rightarrow> focus_state) \<Rightarrow> nat \<Rightarrow> nat \<Rightarrow> focus_state \<Rightarrow>
       pqxx_error + focus_state" where
  "move_assign reg unreg this other s =
     (if other \<noteq> this then
        (case foci s other of
           None \<Rightarrow> Inl (read_out_of_bounds 0)
         | Some f \<Rightarrow>
             (let s = (if is_registered s this then unreg this s else s);
                  s = focus_upd this (\<lambda>g. g\<lparr>fo_trans := fo_trans f, fo_classname := fo_classname f\<rparr>) s in
              move_name_and_registration reg unreg this other s))
      else Inr s)"

text \<open>
  The documented behaviour of the two: a transaction takes a focus when it has none, and gives up the one it
  has.
\<close>

definition registers ::
    "(nat \<Rightarrow> focus_state \<Rightarrow> pqxx_error + focus_state) \<Rightarrow> (nat \<Rightarrow> focus_state \<Rightarrow> focus_state) \<Rightarrow> bool" where
  "registers reg unreg \<longleftrightarrow>
     (\<forall>f s o'. foci s f = Some o' \<and> hosts s (fo_trans o') = None \<longrightarrow>
        reg f s = Inr (focus_upd f (\<lambda>g. g\<lparr>fo_registered := True\<rparr>) (s\<lparr>hosts := (hosts s)(fo_trans o' \<mapsto> f)\<rparr>))) \<and>
     (\<forall>f s o'. foci s f = Some o' \<and> hosts s (fo_trans o') = Some f \<longrightarrow>
        unreg f s = focus_upd f (\<lambda>g. g\<lparr>fo_registered := False\<rparr>) (s\<lparr>hosts := (hosts s)(fo_trans o' := None)\<rparr>))"

text \<open>The two pointers agree: a transaction's focus is just the one that is registered with it.\<close>

definition focus_inv :: "focus_state \<Rightarrow> bool" where
  "focus_inv s \<longleftrightarrow> (\<forall>t f. hosts s t = Some f \<longleftrightarrow> (\<exists>o'. foci s f = Some o' \<and> fo_trans o' = t \<and> fo_registered o'))"

lemma focus_upd_simps [simp]:
  "foci (focus_upd f g s) h = (if h = f then map_option g (foci s f) else foci s h)"
  "hosts (focus_upd f g s) = hosts s"
  by (simp_all add: focus_upd_def)

lemma move_registration:
  assumes r: "registers reg unreg" and "this \<noteq> other" and o': "foci s other = Some o'" and "foci s this = Some t'"
    and "fo_trans t' = fo_trans o'" and h: "fo_registered o' \<Longrightarrow> hosts s (fo_trans o') = Some other"
  shows "\<exists>s'. move_name_and_registration reg unreg this other s = Inr s' \<and>
    foci s' = (foci s)(other \<mapsto> o'\<lparr>fo_registered := False, fo_name := []\<rparr>,
      this \<mapsto> t'\<lparr>fo_registered := (fo_registered o' \<or> fo_registered t'), fo_name := fo_name o'\<rparr>) \<and>
    hosts s' = (if fo_registered o' then (hosts s)(fo_trans o' \<mapsto> this) else hosts s)"
proof (cases "fo_registered o'")
  case True
  let ?s = "focus_upd other (\<lambda>g. g\<lparr>fo_registered := False\<rparr>) (s\<lparr>hosts := (hosts s)(fo_trans o' := None)\<rparr>)"
  from r o' h [OF True] have u: "unreg other s = ?s" unfolding registers_def by blast
  let ?s2 = "focus_upd this (\<lambda>f. f\<lparr>fo_name := fo_name o'\<rparr>) (focus_upd other (\<lambda>f. f\<lparr>fo_name := []\<rparr>) ?s)"
  have "foci ?s2 this = Some (t'\<lparr>fo_name := fo_name o'\<rparr>)" "hosts ?s2 (fo_trans (t'\<lparr>fo_name := fo_name o'\<rparr>)) = None"
    using assms(2,4,5) by simp_all
  with r have "reg this ?s2 = Inr (focus_upd this (\<lambda>g. g\<lparr>fo_registered := True\<rparr>)
      (?s2\<lparr>hosts := (hosts ?s2)(fo_trans (t'\<lparr>fo_name := fo_name o'\<rparr>) \<mapsto> this)\<rparr>))" unfolding registers_def by blast
  moreover have "is_registered s other" "focus_name ?s other = fo_name o'"
    using True o' by (simp_all add: is_registered_def focus_name_def)
  ultimately show ?thesis
    using True assms(2,4,5) o' u by (auto simp: move_name_and_registration_def Let_def fun_eq_iff focus_upd_def)
next
  case False
  have "is_registered s other = False" "focus_name s other = fo_name o'"
    using False o' by (simp_all add: is_registered_def focus_name_def)
  with False assms(2,4) o' show ?thesis
    by (cases o'; cases t') (auto simp: move_name_and_registration_def Let_def fun_eq_iff focus_upd_def)
qed
lemma inv_registered: "focus_inv s \<Longrightarrow> foci s f = Some o' \<Longrightarrow> fo_registered o' \<Longrightarrow> hosts s (fo_trans o') = Some f"
  by (auto simp: focus_inv_def)

lemma focus_inv_moved:
  assumes inv: "focus_inv s" and "this \<noteq> other" and "foci s other = Some o'"
    and free: "\<forall>t'. foci s this = Some t' \<longrightarrow> \<not> fo_registered t'" and "fo_trans n = fo_trans o'"
    and "fo_registered n = fo_registered o'"
    and f: "foci s' = (foci s)(other \<mapsto> o'\<lparr>fo_registered := False, fo_name := []\<rparr>, this \<mapsto> n)"
    and h: "hosts s' = (if fo_registered o' then (hosts s)(fo_trans o' \<mapsto> this) else hosts s)"
  shows "focus_inv s'"
  unfolding focus_inv_def
proof (intro allI)
  fix t f
  have i: "hosts s t = Some g \<longleftrightarrow> (\<exists>o'. foci s g = Some o' \<and> fo_trans o' = t \<and> fo_registered o')" for g
    using inv by (simp add: focus_inv_def)
  show "hosts s' t = Some f \<longleftrightarrow> (\<exists>o'. foci s' f = Some o' \<and> fo_trans o' = t \<and> fo_registered o')"
  proof (cases "fo_registered o' \<and> t = fo_trans o'")
    case True
    with i [of other] assms(3) have "hosts s t = Some other" by auto
    with i [of f] True assms(2,5,6) show ?thesis by (auto simp: f h)
  next
    case False
    with i [of f] assms(2,3,5,6) free show ?thesis by (auto simp: f h)
  qed
qed

lemma focus_inv_left:
  assumes inv: "focus_inv s" and t': "foci s this = Some t'"
    and f: "foci s' = (foci s)(this \<mapsto> t'\<lparr>fo_registered := False\<rparr>)"
    and h: "hosts s' = (if fo_registered t' then (hosts s)(fo_trans t' := None) else hosts s)"
  shows "focus_inv s'"
  unfolding focus_inv_def
proof (intro allI)
  fix t g
  have i: "hosts s t = Some g \<longleftrightarrow> (\<exists>o'. foci s g = Some o' \<and> fo_trans o' = t \<and> fo_registered o')" for g
    using inv by (simp add: focus_inv_def)
  show "hosts s' t = Some g \<longleftrightarrow> (\<exists>o'. foci s' g = Some o' \<and> fo_trans o' = t \<and> fo_registered o')"
  proof (cases "fo_registered t' \<and> t = fo_trans t'")
    case True
    with i [of this] t' have "hosts s t = Some this" by auto
    with i [of g] True show ?thesis by (auto simp: f h)
  next
    case False
    with i [of g] t' show ?thesis by (auto simp: f h)
  qed
qed

lemma move_construct_result:
  assumes r: "registers reg unreg" and inv: "focus_inv s" and o': "foci s other = Some o'" and ne: "this \<noteq> other"
    and new: "foci s this = None"
  shows "\<exists>s'. move_construct reg unreg this other s = Inr s' \<and> focus_inv s' \<and>
    foci s' = (foci s)(other \<mapsto> o'\<lparr>fo_registered := False, fo_name := []\<rparr>, this \<mapsto> o')"
proof -
  let ?s = "s\<lparr>foci := (foci s)(this \<mapsto> o'\<lparr>fo_name := []\<rparr>)\<rparr>"
  have "foci ?s other = Some o'" "foci ?s this = Some (o'\<lparr>fo_name := []\<rparr>)" using o' ne by simp_all
  from move_registration [OF r ne this] inv_registered [OF inv o'] obtain s' where
    m: "move_name_and_registration reg unreg this other ?s = Inr s'"
    "foci s' = (foci ?s)(other \<mapsto> o'\<lparr>fo_registered := False, fo_name := []\<rparr>, this \<mapsto> o')"
    "hosts s' = (if fo_registered o' then (hosts ?s)(fo_trans o' \<mapsto> this) else hosts ?s)" by (cases o') auto
  have "focus_inv s'"
    by (rule focus_inv_moved [OF inv ne o']) (use m(2,3) new ne in \<open>auto simp: fun_eq_iff\<close>)
  with m(1,2) o' ne show ?thesis by (auto simp: move_construct_def)
qed

text \<open>
  Moving the base class part of a focus to a new object, or onto an old one, which then gives up its own
  transaction: the new object has the name, the class and the registration of the old one, the old one is
  left unregistered and without a name, and every transaction still points to just the one object that is
  registered with it.  Of the classes derived from it only \<open>stream_to\<close> can be moved, and only to a new
  object; no class makes the assignment available.
\<close>
lemma focus_moves:
  assumes r: "registers reg unreg" and inv: "focus_inv s" and o': "foci s other = Some o'" and ne: "this \<noteq> other"
  shows "(foci s this = None \<longrightarrow>
      (\<exists>s'. move_construct reg unreg this other s = Inr s' \<and> focus_inv s' \<and> foci s' this = Some o' \<and>
        foci s' other = Some (o'\<lparr>fo_registered := False, fo_name := []\<rparr>))) \<and>
    (foci s this \<noteq> None \<longrightarrow>
      (\<exists>s'. move_assign reg unreg this other s = Inr s' \<and> focus_inv s' \<and> foci s' this = Some o' \<and>
        foci s' other = Some (o'\<lparr>fo_registered := False, fo_name := []\<rparr>)))"
proof (intro conjI impI)
  assume "foci s this = None"
  with move_construct_result [OF r inv o' ne] ne
  show "\<exists>s'. move_construct reg unreg this other s = Inr s' \<and> focus_inv s' \<and> foci s' this = Some o' \<and>
      foci s' other = Some (o'\<lparr>fo_registered := False, fo_name := []\<rparr>)" by auto
next
  assume "foci s this \<noteq> None"
  then obtain t' where t': "foci s this = Some t'" by blast
  obtain s1 where def: "s1 = (if is_registered s this then unreg this s else s)" by blast
  let ?t1 = "t'\<lparr>fo_registered := False\<rparr>"
  have s1: "foci s1 = (foci s)(this \<mapsto> ?t1)"
    "hosts s1 = (if fo_registered t' then (hosts s)(fo_trans t' := None) else hosts s)"
  proof -
    have "unreg this s = focus_upd this (\<lambda>g. g\<lparr>fo_registered := False\<rparr>) (s\<lparr>hosts := (hosts s)(fo_trans t' := None)\<rparr>)"
      if "fo_registered t'" using r t' inv_registered [OF inv t' that] unfolding registers_def by blast
    then show "foci s1 = (foci s)(this \<mapsto> ?t1)"
      "hosts s1 = (if fo_registered t' then (hosts s)(fo_trans t' := None) else hosts s)"
      unfolding def using t' by (cases t'; auto simp: is_registered_def focus_upd_def fun_eq_iff)+
  qed
  have inv1: "focus_inv s1"
    using s1 by (rule focus_inv_left [OF inv t'])
  let ?s2 = "focus_upd this (\<lambda>g. g\<lparr>fo_trans := fo_trans o', fo_classname := fo_classname o'\<rparr>) s1"
  let ?t2 = "?t1\<lparr>fo_trans := fo_trans o', fo_classname := fo_classname o'\<rparr>"
  have f2: "foci ?s2 = (foci s)(this \<mapsto> ?t2)" using s1(1) by (auto simp: fun_eq_iff)
  have o2: "foci s1 other = Some o'" "foci ?s2 other = Some o'" using o' ne s1(1) by auto
  have "fo_trans ?t2 = fo_trans o'" by simp
  from move_registration [OF r ne o2(2) _ this] f2 inv_registered [OF inv1 o2(1)] obtain s' where
    m: "move_name_and_registration reg unreg this other ?s2 = Inr s'"
    "foci s' = (foci ?s2)(other \<mapsto> o'\<lparr>fo_registered := False, fo_name := []\<rparr>, this \<mapsto> o')"
    "hosts s' = (if fo_registered o' then (hosts ?s2)(fo_trans o' \<mapsto> this) else hosts ?s2)"
    by (cases o'; cases t') auto
  have "focus_inv s'"
    by (rule focus_inv_moved [OF inv1 ne o2(1)]) (use m(2,3) s1(1) f2 in \<open>auto simp: fun_eq_iff\<close>)
  with m(1,2) o' ne show "\<exists>s'. move_assign reg unreg this other s = Inr s' \<and> focus_inv s' \<and> foci s' this = Some o' \<and>
      foci s' other = Some (o'\<lparr>fo_registered := False, fo_name := []\<rparr>)"
    by (simp add: move_assign_def Let_def def [symmetric])
qed
definition take_focus :: "nat \<Rightarrow> focus_state \<Rightarrow> pqxx_error + focus_state" where
  "take_focus f s =
     (case foci s f of
        None \<Rightarrow> Inl (usage_error ''No focus.'')
      | Some o' \<Rightarrow>
          (if hosts s (fo_trans o') = None then
             Inr (focus_upd f (\<lambda>g. g\<lparr>fo_registered := True\<rparr>) (s\<lparr>hosts := (hosts s)(fo_trans o' \<mapsto> f)\<rparr>))
           else Inl (usage_error ''Already has a focus.'')))"

definition leave_focus :: "nat \<Rightarrow> focus_state \<Rightarrow> focus_state" where
  "leave_focus f s =
     (case foci s f of
        None \<Rightarrow> s
      | Some o' \<Rightarrow>
          (if hosts s (fo_trans o') = Some f then
             focus_upd f (\<lambda>g. g\<lparr>fo_registered := False\<rparr>) (s\<lparr>hosts := (hosts s)(fo_trans o' := None)\<rparr>)
           else focus_upd f (\<lambda>g. g\<lparr>fo_registered := False\<rparr>) s))"

lemma take_leave_registers: "registers take_focus leave_focus"
  by (auto simp: registers_def take_focus_def leave_focus_def)

text \<open>A transaction with a stream that is its focus.\<close>

definition one_stream :: focus_state where
  "one_stream = \<lparr>foci = [1 \<mapsto> (new_focus 0 ''stream_to'' ''t'')\<lparr>fo_registered := True\<rparr>], hosts = [0 \<mapsto> 1]\<rparr>"

lemma one_stream_inv: "focus_inv one_stream"
  by (auto simp: focus_inv_def one_stream_def new_focus_def split: if_splits)

end
