(* ===== verification/Pqxx_Exceptions.thy ===== *)
theory Pqxx_Exceptions
  imports Pqxx_Client
begin

text \<open>
  The constructors of the exceptions for failed statements (\<open>pqxx/except.hxx\<close>, from \<open>feature_not_supported\<close> on),
  and what a handler of their base class sees of them.
\<close>

section \<open>Exceptions of failed statements\<close>

text \<open>
  What an exception for a failed statement holds; \<open>ex_position\<close> is there for syntax errors, minus one when it is
  not known.  The constructor of \<open>sql_error\<close> is compiled elsewhere (\<open>base\<close>), as are those of the classes declared
  before it.  Each constructor passes what it is given to its base class; the class is that of the whole
  object.
\<close>

record sql_exception =
  ex_class :: exception_class
  ex_what :: string
  ex_query :: string
  ex_sqlstate :: string
  ex_position :: "int option"

type_synonym sql_constructor = "string \<Rightarrow> string \<Rightarrow> string option \<Rightarrow> sql_exception"

definition make_feature_not_supported :: "sql_constructor \<Rightarrow> sql_constructor" where
  "make_feature_not_supported base err q sqlstate = (base err q sqlstate)\<lparr>ex_class := feature_not_supported\<rparr>"

definition make_data_exception :: "sql_constructor \<Rightarrow> sql_constructor" where
  "make_data_exception base err q sqlstate = (base err q sqlstate)\<lparr>ex_class := data_exception\<rparr>"

definition make_integrity_constraint_violation :: "sql_constructor \<Rightarrow> sql_constructor" where
  "make_integrity_constraint_violation base err q sqlstate = (base err q sqlstate)\<lparr>ex_class := integrity_constraint_violation\<rparr>"

definition make_restrict_violation :: "sql_constructor \<Rightarrow> sql_constructor" where
  "make_restrict_violation base err q sqlstate = (make_integrity_constraint_violation base err q sqlstate)\<lparr>ex_class := restrict_violation\<rparr>"

definition make_not_null_violation :: "sql_constructor \<Rightarrow> sql_constructor" where
  "make_not_null_violation base err q sqlstate = (make_integrity_constraint_violation base err q sqlstate)\<lparr>ex_class := not_null_violation\<rparr>"

definition make_foreign_key_violation :: "sql_constructor \<Rightarrow> sql_constructor" where
  "make_foreign_key_violation base err q sqlstate = (make_integrity_constraint_violation base err q sqlstate)\<lparr>ex_class := foreign_key_violation\<rparr>"

definition make_unique_violation :: "sql_constructor \<Rightarrow> sql_constructor" where
  "make_unique_violation base err q sqlstate = (make_integrity_constraint_violation base err q sqlstate)\<lparr>ex_class := unique_violation\<rparr>"

definition make_check_violation :: "sql_constructor \<Rightarrow> sql_constructor" where
  "make_check_violation base err q sqlstate = (make_integrity_constraint_violation base err q sqlstate)\<lparr>ex_class := check_violation\<rparr>"

definition make_invalid_cursor_state :: "sql_constructor \<Rightarrow> sql_constructor" where
  "make_invalid_cursor_state base err q sqlstate = (base err q sqlstate)\<lparr>ex_class := invalid_cursor_state\<rparr>"

definition make_invalid_sql_statement_name :: "sql_constructor \<Rightarrow> sql_constructor" where
  "make_invalid_sql_statement_name base err q sqlstate = (base err q sqlstate)\<lparr>ex_class := invalid_sql_statement_name\<rparr>"

definition make_invalid_cursor_name :: "sql_constructor \<Rightarrow> sql_constructor" where
  "make_invalid_cursor_name base err q sqlstate = (base err q sqlstate)\<lparr>ex_class := invalid_cursor_name\<rparr>"

definition make_syntax_error :: "sql_constructor \<Rightarrow> string \<Rightarrow> string \<Rightarrow> string option \<Rightarrow> int \<Rightarrow> sql_exception" where
  "make_syntax_error base err q sqlstate pos = (base err q sqlstate)\<lparr>ex_class := syntax_error, ex_position := Some pos\<rparr>"

definition make_undefined_column :: "sql_constructor \<Rightarrow> sql_constructor" where
  "make_undefined_column base err q sqlstate = (make_syntax_error base err q sqlstate (- 1))\<lparr>ex_class := undefined_column\<rparr>"

definition make_undefined_function :: "sql_constructor \<Rightarrow> sql_constructor" where
  "make_undefined_function base err q sqlstate = (make_syntax_error base err q sqlstate (- 1))\<lparr>ex_class := undefined_function\<rparr>"

definition make_undefined_table :: "sql_constructor \<Rightarrow> sql_constructor" where
  "make_undefined_table base err q sqlstate = (make_syntax_error base err q sqlstate (- 1))\<lparr>ex_class := undefined_table\<rparr>"

definition make_insufficient_privilege :: "sql_constructor \<Rightarrow> sql_constructor" where
  "make_insufficient_privilege base err q sqlstate = (base err q sqlstate)\<lparr>ex_class := insufficient_privilege\<rparr>"

definition make_insufficient_resources :: "sql_constructor \<Rightarrow> sql_constructor" where
  "make_insufficient_resources base err q sqlstate = (base err q sqlstate)\<lparr>ex_class := insufficient_resources\<rparr>"

definition make_disk_full :: "sql_constructor \<Rightarrow> sql_constructor" where
  "make_disk_full base err q sqlstate = (make_insufficient_resources base err q sqlstate)\<lparr>ex_class := disk_full\<rparr>"

definition make_out_of_memory :: "sql_constructor \<Rightarrow> sql_constructor" where
  "make_out_of_memory base err q sqlstate = (make_insufficient_resources base err q sqlstate)\<lparr>ex_class := out_of_memory\<rparr>"

definition make_plpgsql_error :: "sql_constructor \<Rightarrow> sql_constructor" where
  "make_plpgsql_error base err q sqlstate = (base err q sqlstate)\<lparr>ex_class := plpgsql_error\<rparr>"

definition make_plpgsql_raise :: "sql_constructor \<Rightarrow> sql_constructor" where
  "make_plpgsql_raise base err q sqlstate = (make_plpgsql_error base err q sqlstate)\<lparr>ex_class := plpgsql_raise\<rparr>"

definition make_plpgsql_no_data_found :: "sql_constructor \<Rightarrow> sql_constructor" where
  "make_plpgsql_no_data_found base err q sqlstate = (make_plpgsql_error base err q sqlstate)\<lparr>ex_class := plpgsql_no_data_found\<rparr>"

definition make_plpgsql_too_many_rows :: "sql_constructor \<Rightarrow> sql_constructor" where
  "make_plpgsql_too_many_rows base err q sqlstate = (make_plpgsql_error base err q sqlstate)\<lparr>ex_class := plpgsql_too_many_rows\<rparr>"

section \<open>What a handler sees\<close>

text \<open>The constructor of each class, for a syntax error with the position that is not known.\<close>

definition constructors :: "(exception_class \<times> (sql_constructor \<Rightarrow> sql_constructor)) list" where
  "constructors =
     [(feature_not_supported, make_feature_not_supported),
      (data_exception, make_data_exception),
      (integrity_constraint_violation, make_integrity_constraint_violation),
      (restrict_violation, make_restrict_violation),
      (not_null_violation, make_not_null_violation),
      (foreign_key_violation, make_foreign_key_violation),
      (unique_violation, make_unique_violation),
      (check_violation, make_check_violation),
      (invalid_cursor_state, make_invalid_cursor_state),
      (invalid_sql_statement_name, make_invalid_sql_statement_name),
      (invalid_cursor_name, make_invalid_cursor_name),
      (undefined_column, make_undefined_column),
      (undefined_function, make_undefined_function),
      (undefined_table, make_undefined_table),
      (insufficient_privilege, make_insufficient_privilege),
      (insufficient_resources, make_insufficient_resources),
      (disk_full, make_disk_full),
      (out_of_memory, make_out_of_memory),
      (plpgsql_error, make_plpgsql_error),
      (plpgsql_raise, make_plpgsql_raise),
      (plpgsql_no_data_found, make_plpgsql_no_data_found),
      (plpgsql_too_many_rows, make_plpgsql_too_many_rows),
      (syntax_error, \<lambda>base err q sqlstate. make_syntax_error base err q sqlstate (- 1))]"

lemmas make_defs =
  make_feature_not_supported_def make_data_exception_def make_integrity_constraint_violation_def
  make_restrict_violation_def make_not_null_violation_def make_foreign_key_violation_def
  make_unique_violation_def make_check_violation_def make_invalid_cursor_state_def
  make_invalid_sql_statement_name_def make_invalid_cursor_name_def make_undefined_column_def
  make_undefined_function_def make_undefined_table_def make_insufficient_privilege_def
  make_insufficient_resources_def make_disk_full_def make_out_of_memory_def
  make_plpgsql_error_def make_plpgsql_raise_def make_plpgsql_no_data_found_def
  make_plpgsql_too_many_rows_def make_syntax_error_def

text \<open>
  Whichever class is thrown, a handler of \<open>sql_error\<close> catches it and sees the message, the statement and the
  state that it was thrown with; only syntax errors have a position.
\<close>

lemma handler_sees:
  "(e, mk) \<in> set constructors \<Longrightarrow>
    ex_class (mk base err q sqlstate) = e \<and> is_a e sql_error \<and>
    ex_what (mk base err q sqlstate) = ex_what (base err q sqlstate) \<and>
    ex_query (mk base err q sqlstate) = ex_query (base err q sqlstate) \<and>
    ex_sqlstate (mk base err q sqlstate) = ex_sqlstate (base err q sqlstate) \<and>
    ex_position (mk base err q sqlstate) = (if is_a e syntax_error then Some (- 1) else ex_position (base err q sqlstate))"
  by (auto simp: constructors_def make_defs is_a_def eval_nat_numeral)

text \<open>
  Every class that derives from \<open>sql_error\<close> has its constructor here, except the rollbacks, whose
  constructors are compiled elsewhere.
\<close>

lemma constructors_complete:
  "is_a e sql_error \<Longrightarrow> e \<noteq> sql_error \<Longrightarrow> \<not> is_a e transaction_rollback \<Longrightarrow> \<exists>mk. (e, mk) \<in> set constructors"
  by (cases e) (simp_all add: constructors_def is_a_def eval_nat_numeral)

end
