(* ===== verification/Pqxx_Field_Stream.thy ===== *)
theory Pqxx_Field_Stream
  imports Pqxx_Result
begin

text \<open>Streams that read a field, and the output of a field (\<open>pqxx/field.hxx\<close>).\<close>

section \<open>The stream buffer of a field\<close>

text \<open>
  The get area is the text of the field, with the position of \<open>gptr\<close>; there is no put area.  An end of file is
  minus one for the operations that return a number, and \<open>None\<close> for a character.
\<close>

record field_streambuf =
  fs_area :: string
  fs_gptr :: nat

definition initialize_field_streambuf :: "res_field \<Rightarrow> field_streambuf" where
  "initialize_field_streambuf f = \<lparr>fs_area = view f, fs_gptr = 0\<rparr>"

definition field_streambuf_sync :: "field_streambuf \<Rightarrow> int" where
  "field_streambuf_sync sb = - 1"

definition field_streambuf_seekoff :: "int \<Rightarrow> field_streambuf \<Rightarrow> int \<times> field_streambuf" where
  "field_streambuf_seekoff offset sb = (- 1, sb)"

definition field_streambuf_seekpos :: "int \<Rightarrow> field_streambuf \<Rightarrow> int \<times> field_streambuf" where
  "field_streambuf_seekpos pos sb = (- 1, sb)"

definition field_streambuf_overflow :: "char option \<Rightarrow> field_streambuf \<Rightarrow> int \<times> field_streambuf" where
  "field_streambuf_overflow ch sb = (- 1, sb)"

definition field_streambuf_underflow :: "field_streambuf \<Rightarrow> char option \<times> field_streambuf" where
  "field_streambuf_underflow sb = (None, sb)"

text \<open>\<open>sbumpc\<close> and \<open>sputc\<close> are the standard stream buffer's; a text read with the first up to the end of the file.\<close>

definition field_sbumpc :: "field_streambuf \<Rightarrow> char option \<times> field_streambuf" where
  "field_sbumpc sb =
     (if fs_gptr sb < length (fs_area sb) then (Some (fs_area sb ! fs_gptr sb), sb\<lparr>fs_gptr := fs_gptr sb + 1\<rparr>)
      else field_streambuf_underflow sb)"

definition field_sputc :: "char \<Rightarrow> field_streambuf \<Rightarrow> int \<times> field_streambuf" where
  "field_sputc c sb = field_streambuf_overflow (Some c) sb"

function field_read_all :: "field_streambuf \<Rightarrow> string" where
  "field_read_all sb = (case field_sbumpc sb of (None, sb) \<Rightarrow> [] | (Some c, sb) \<Rightarrow> c # field_read_all sb)"
  by pat_completeness auto
termination
  by (relation "measure (\<lambda>sb. length (fs_area sb) - fs_gptr sb)")
     (auto simp: field_sbumpc_def field_streambuf_underflow_def split: if_splits)

declare field_read_all.simps [simp del]

section \<open>Reading and printing a field\<close>

definition print_field :: "string \<Rightarrow> res_field \<Rightarrow> string" where
  "print_field out_text f = out_text @ view f"

lemma field_read_rest: "fs_gptr sb \<le> length (fs_area sb) \<Longrightarrow> field_read_all sb = drop (fs_gptr sb) (fs_area sb)"
proof (induction sb rule: field_read_all.induct)
  case (1 sb)
  show ?case
  proof (cases "fs_gptr sb < length (fs_area sb)")
    case True
    let ?sb = "sb\<lparr>fs_gptr := fs_gptr sb + 1\<rparr>"
    have s: "field_sbumpc sb = (Some (fs_area sb ! fs_gptr sb), ?sb)" using True by (simp add: field_sbumpc_def)
    with 1(1) [OF s [symmetric] refl] True have "field_read_all ?sb = drop (fs_gptr sb + 1) (fs_area sb)" by simp
    with True s show ?thesis by (simp add: field_read_all.simps [of sb] Cons_nth_drop_Suc)
  next
    case False
    with 1(2) show ?thesis
      by (simp add: field_read_all.simps [of sb] field_sbumpc_def field_streambuf_underflow_def)
  qed
qed

text \<open>A stream on a field gives what printing the field gives: its text, nothing for a null; it cannot seek or write.\<close>

lemma fieldstream_reads_text: "field_read_all (initialize_field_streambuf f) = print_field [] f"
  by (simp add: field_read_rest initialize_field_streambuf_def print_field_def)

lemma fieldstream_is_read_only:
  "snd (field_sputc c sb) = sb" "fst (field_sputc c sb) = - 1" "snd (field_streambuf_seekpos pos sb) = sb"
  by (simp_all add: field_sputc_def field_streambuf_overflow_def field_streambuf_seekpos_def)

end
