(* ===== verification/Pqxx_Array_Access.thy ===== *)
theory Pqxx_Array_Access
  imports Pqxx_Array_Shape
begin

text \<open>
  The other ways into a parsed array (\<open>pqxx/array.hxx\<close>): the constructor, the sizes, the access without a
  check of the bounds, the first and the last element, and the order of iteration.
\<close>

section \<open>The accessors\<close>

text \<open>The constructor has a parser for each group of encodings.\<close>

definition new_array ::
    "encoding_group \<Rightarrow> 'v field_type \<Rightarrow> nat \<Rightarrow> char \<Rightarrow> string \<Rightarrow> pqxx_error + 'v sql_array" where
  "new_array enc ft dims sep data =
     (case enc of
        MONOBYTE \<Rightarrow> parse_array MONOBYTE ft dims sep data
      | BIG5 \<Rightarrow> parse_array BIG5 ft dims sep data
      | EUC_CN \<Rightarrow> parse_array EUC_CN ft dims sep data
      | EUC_JP \<Rightarrow> parse_array EUC_JP ft dims sep data
      | EUC_KR \<Rightarrow> parse_array EUC_KR ft dims sep data
      | EUC_TW \<Rightarrow> parse_array EUC_TW ft dims sep data
      | GB18030 \<Rightarrow> parse_array GB18030 ft dims sep data
      | GBK \<Rightarrow> parse_array GBK ft dims sep data
      | JOHAB \<Rightarrow> parse_array JOHAB ft dims sep data
      | MULE_INTERNAL \<Rightarrow> parse_array MULE_INTERNAL ft dims sep data
      | SJIS \<Rightarrow> parse_array SJIS ft dims sep data
      | UHC \<Rightarrow> parse_array UHC ft dims sep data
      | UTF8 \<Rightarrow> parse_array UTF8 ft dims sep data)"

lemma new_array_parses: "new_array enc = parse_array enc"
  by (simp add: new_array_def fun_eq_iff split: encoding_group.splits)

definition array_dimensions :: "'v sql_array \<Rightarrow> nat" where
  "array_dimensions a = length (sizes a)"

definition array_size :: "'v sql_array \<Rightarrow> nat" where
  "array_size a = length (m_elts a)"

text \<open>The signed size is that of 64 bits.\<close>

definition array_ssize :: "'v sql_array \<Rightarrow> int" where
  "array_ssize a = (int (array_size a) + 2 ^ 63) mod 2 ^ 64 - 2 ^ 63"

text \<open>
  An offset outside the elements, and the end of an array without any, is undefined behaviour; \<open>locate\<close>
  is \<open>noexcept\<close>.
\<close>

definition index_unchecked :: "bool \<Rightarrow> 'v sql_array \<Rightarrow> index list \<Rightarrow> pqxx_error + 'v" where
  "index_unchecked hc a idx =
     (case add_index hc (length (sizes a)) (m_factors a) idx of
        Inl e \<Rightarrow> Inl terminates
      | Inr i \<Rightarrow> if i < length (m_elts a) then Inr (m_elts a ! i) else Inl (read_out_of_bounds i))"

definition array_front :: "'v sql_array \<Rightarrow> pqxx_error + 'v" where
  "array_front a = (if m_elts a = [] then Inl (read_out_of_bounds 0) else Inr (hd (m_elts a)))"

definition array_back :: "'v sql_array \<Rightarrow> pqxx_error + 'v" where
  "array_back a = (if m_elts a = [] then Inl (read_out_of_bounds 0) else Inr (last (m_elts a)))"

definition array_forward :: "'v sql_array \<Rightarrow> 'v list" where
  "array_forward a = m_elts a"

definition array_reverse :: "'v sql_array \<Rightarrow> 'v list" where
  "array_reverse a = rev (m_elts a)"

section \<open>Access without a check\<close>

text \<open>What the checked access gives, the other gives as well; it may only say more.\<close>

lemma unchecked_agrees: "at_index hc a idx = Inr v \<Longrightarrow> index_unchecked hc a idx = Inr v"
  by (auto simp: at_index_def index_unchecked_def and_then_Inr split: sum.splits if_splits)

lemma unchecked_says_more:
  assumes "at_index hc a idx = Inl e"
  shows "e = terminates \<or> e = std_out_of_range \<or> check_bounds hc (sizes a) idx = Inl e"
  using assms by (cases "check_bounds hc (sizes a) idx") (auto simp: at_index_def split: sum.splits if_splits)

text \<open>An index over the end of a row reads the next row.\<close>

lemma unchecked_next_row:
  fixes a :: "sql_value sql_array"
  defines "a \<equiv> \<lparr>m_elts = [Text ''a'', Text ''b'', Text ''c'', Text ''d''], sizes = [2, 2], m_factors = [2]\<rparr>"
  shows "index_unchecked False a [(size_t, 0), (size_t, 2)] = Inr (Text ''c'')"
    and "\<exists>m. at_index False a [(size_t, 0), (size_t, 2)] = Inl (range_error m)"
  unfolding a_def
  by (simp_all add: index_unchecked_def at_index_def cast_index_def check_cast_def size_t_def lowest_def highest_def
      cmp_less_def cmp_greater_def Let_def)

section \<open>The ends of an array\<close>

lemma row_major_zeros: "row_major exts (replicate (length exts) 0) = 0"
  by (induction exts) simp_all

lemma elements_if_sizes: "0 \<notin> set exts \<Longrightarrow> 0 < prod_list exts" for exts :: "nat list"
  by (induction exts) auto

lemma row_major_last:
  "0 \<notin> set exts \<Longrightarrow> row_major exts (map (\<lambda>e. e - 1) exts) = prod_list exts - 1"
proof (induction exts)
  case (Cons e exts)
  then have "0 < prod_list exts" "0 < e" using elements_if_sizes [of exts] by auto
  then have "(e - 1) * prod_list exts + (prod_list exts - 1) = e * prod_list exts - 1"
    by (cases e) simp_all
  with Cons show ?case by simp
qed simp

lemma size_at_most_elements: "0 \<notin> set exts \<Longrightarrow> e \<in> set exts \<Longrightarrow> e \<le> prod_list exts" for exts :: "nat list"
proof (induction exts)
  case (Cons x exts)
  then have "0 < prod_list exts" "0 < x" using elements_if_sizes [of exts] by auto
  then have "x \<le> x * prod_list exts" "prod_list exts \<le> x * prod_list exts" by simp_all
  with Cons show ?case by (auto intro: order_trans)
qed simp

lemma good_indexes:
  assumes "\<forall>e \<in> set exts. e < 2 ^ 64" and "list_all2 (<) is exts"
  shows "list_all2 good_index (map (\<lambda>i. (size_t, int i)) is) exts"
proof -
  have "good_index (size_t, int i) e" if "i < e" "e < 2 ^ 64" for i e
    using that by (simp add: good_index_def in_type_def size_t_def lowest_def highest_def)
  with assms show ?thesis by (simp add: list_all2_conv_all_nth)
qed

text \<open>
  The first element is the one at index zero in every dimension, the last one that at the greatest index
  in every dimension, with or without a check; the iteration goes from the one to the other and back.
\<close>

lemma parsed_array_ends:
  assumes p: "new_array enc ft dims sep data = Inr a" and d: "0 < dims" "dims < npos" and n: "prod_list (sizes a) < 2 ^ 64"
    and z: "0 \<notin> set (sizes a)"
  shows "array_front a = at_index hc a (replicate (array_dimensions a) (size_t, 0)) \<and>
    array_back a = at_index hc a (map (\<lambda>e. (size_t, int (e - 1))) (sizes a)) \<and>
    array_size a = prod_list (sizes a) \<and> 0 < array_size a \<and>
    array_front a = Inr (hd (array_forward a)) \<and> array_back a = Inr (hd (array_reverse a))"
proof -
  from p have a: "length (sizes a) = dims" "length (m_elts a) = prod_list (sizes a)" "m_factors a = init_factors (sizes a)"
    using parse_array_shape [of enc ft dims sep data a] d by (simp_all add: new_array_parses)
  have pos: "0 < prod_list (sizes a)" using elements_if_sizes [OF z] .
  have s: "sizes a \<noteq> []" using a(1) d(1) by auto
  have at: "at_index hc a (map (\<lambda>i. (size_t, int i)) is) = Inr (m_elts a ! row_major (sizes a) is)"
    if "list_all2 (<) is (sizes a)" for "is"
  proof -
    have "list_all2 good_index (map (\<lambda>i. (size_t, int i)) is) (sizes a)"
      using size_at_most_elements [OF z] n by (intro good_indexes that) fastforce
    from at_index_good [OF s n a(3,2) this] show ?thesis by (simp add: o_def)
  qed
  have "list_all2 (<) (replicate (length (sizes a)) 0) (sizes a)"
    using z by (auto simp: list_all2_conv_all_nth in_set_conv_nth intro: Nat.gr0I)
  from at [OF this] have "at_index hc a (replicate (array_dimensions a) (size_t, 0)) = Inr (m_elts a ! 0)"
    by (simp add: row_major_zeros array_dimensions_def)
  moreover have "list_all2 (<) (map (\<lambda>e. e - 1) (sizes a)) (sizes a)"
    using z by (auto simp: list_all2_conv_all_nth in_set_conv_nth)
  from at [OF this] have "at_index hc a (map (\<lambda>e. (size_t, int (e - 1))) (sizes a)) = Inr (m_elts a ! (prod_list (sizes a) - 1))"
    by (simp add: row_major_last [OF z, simplified] o_def)
  ultimately show ?thesis
    using pos a(2) by (auto simp: array_front_def array_back_def array_size_def array_forward_def array_reverse_def
        hd_conv_nth last_conv_nth hd_rev)
qed

text \<open>An array without elements has no ends.\<close>

lemma empty_array_ends:
  assumes "new_array enc ft dims sep data = Inr a" and "0 < dims" "dims < npos" and "0 \<in> set (sizes a)"
  shows "array_size a = 0 \<and> array_front a = Inl (read_out_of_bounds 0) \<and> array_back a = Inl (read_out_of_bounds 0)"
proof -
  from parse_array_shape [of enc ft dims sep data a] assms
  have "length (m_elts a) = 0" by (simp add: new_array_parses prod_list_zero_iff)
  then show ?thesis by (simp add: array_size_def array_front_def array_back_def)
qed

lemma signed_size: "array_size a < 2 ^ 63 \<Longrightarrow> array_ssize a = int (array_size a)"
  by (simp add: array_ssize_def)

end
