(* ===== verification/Pqxx_Stream_To.thy ===== *)
theory Pqxx_Stream_To
  imports Pqxx_Transfer Pqxx_Session
begin

text \<open>
  The writing stream as an object (\<open>pqxx/stream_to.hxx\<close>): the factories that open it, writing of rows and
  of lists of values, and the move of a stream to a new object, with the focus of its transaction.
\<close>

section \<open>Opening\<close>

text \<open>
  \<open>open_it\<close> is the constructor for a path and columns, compiled elsewhere, as the quoting of names is.  The
  path given as text is not quoted; the one given as a \<open>table_path\<close> is.
\<close>

definition raw_table :: "(string \<Rightarrow> string \<Rightarrow> pqxx_error + 's) \<Rightarrow> string \<Rightarrow> string \<Rightarrow> pqxx_error + 's" where
  "raw_table open_it path columns = open_it path columns"

definition table_list ::
    "(string \<Rightarrow> string \<Rightarrow> pqxx_error + 's) \<Rightarrow> (string list \<Rightarrow> string) \<Rightarrow> (string \<Rightarrow> string) \<Rightarrow> string list \<Rightarrow> string list \<Rightarrow>
       pqxx_error + 's" where
  "table_list open_it quote_table quote_name path columns =
     and_then (quote_columns quote_name columns) (\<lambda>cols. raw_table open_it (quote_table path) cols)"

definition table_columns ::
    "(string \<Rightarrow> string \<Rightarrow> pqxx_error + 's) \<Rightarrow> (string list \<Rightarrow> string) \<Rightarrow> (string \<Rightarrow> string) \<Rightarrow> string list \<Rightarrow> string list \<Rightarrow>
       pqxx_error + 's" where
  "table_columns open_it quote_table quote_name path columns =
     and_then (quote_columns quote_name columns) (\<lambda>cols. raw_table open_it (quote_table path) cols)"

definition table_text ::
    "(string \<Rightarrow> string \<Rightarrow> pqxx_error + 's) \<Rightarrow> (string \<Rightarrow> string) \<Rightarrow> string \<Rightarrow> string list \<Rightarrow> pqxx_error + 's" where
  "table_text open_it quote_name path columns =
     and_then (quote_columns quote_name columns) (\<lambda>cols. raw_table open_it path cols)"

definition whole_table :: "(string \<Rightarrow> string \<Rightarrow> pqxx_error + 's) \<Rightarrow> string \<Rightarrow> pqxx_error + 's" where
  "whole_table open_it table_name = open_it table_name []"

text \<open>A list of no columns is the empty text, with which the stream writes to all of them.\<close>

lemma table_without_columns:
  "table_list open_it quote_table quote_name path [] = whole_table open_it (quote_table path)"
  by (simp add: table_list_def quote_columns_def raw_table_def whole_table_def separated_list_def)

lemma table_text_unquoted:
  "table_columns open_it quote_table quote_name path columns = table_text open_it quote_name (quote_table path) columns"
  by (simp add: table_columns_def table_text_def)

section \<open>Writing\<close>

text \<open>
  The members of a stream.  \<open>send\<close> is \<open>write_buffer\<close>, compiled elsewhere, on the stream and on the rest of
  the world \<open>'w\<close>; \<open>esc\<close> appends an escaped text and a tab to the row buffer.
\<close>

record stream_to =
  to_finished :: bool
  to_buffer :: string
  to_field_buf :: string
  to_finder :: char_finder_func



definition append_always_null :: "string \<Rightarrow> string" where
  "append_always_null buf = buf @ null_field"

definition fill_pack :: "(string \<Rightarrow> string \<Rightarrow> string) \<Rightarrow> string \<Rightarrow> sql_value list \<Rightarrow> pqxx_error + string" where
  "fill_pack esc buf vs = append_tuple esc buf vs"

definition write_row ::
    "(stream_to \<Rightarrow> 'w \<Rightarrow> pqxx_error + stream_to \<times> 'w) \<Rightarrow> (string \<Rightarrow> string \<Rightarrow> string) \<Rightarrow> stream_to \<Rightarrow> 'w \<Rightarrow> sql_value list \<Rightarrow>
       pqxx_error + stream_to \<times> 'w" where
  "write_row send esc st w row = and_then (fill_buffer esc (to_buffer st) row) (\<lambda>buf. send (st\<lparr>to_buffer := buf\<rparr>) w)"

definition write_values ::
    "(stream_to \<Rightarrow> 'w \<Rightarrow> pqxx_error + stream_to \<times> 'w) \<Rightarrow> (string \<Rightarrow> string \<Rightarrow> string) \<Rightarrow> stream_to \<Rightarrow> 'w \<Rightarrow> sql_value list \<Rightarrow>
       pqxx_error + stream_to \<times> 'w" where
  "write_values send esc st w vs = and_then (fill_pack esc (to_buffer st) vs) (\<lambda>buf. send (st\<lparr>to_buffer := buf\<rparr>) w)"

definition put_row ::
    "(stream_to \<Rightarrow> 'w \<Rightarrow> pqxx_error + stream_to \<times> 'w) \<Rightarrow> (string \<Rightarrow> string \<Rightarrow> string) \<Rightarrow> stream_to \<Rightarrow> 'w \<Rightarrow> sql_value list \<Rightarrow>
       pqxx_error + stream_to \<times> 'w" where
  "put_row send esc st w row = write_row send esc st w row"

text \<open>Space is reserved for a row and not for single values; what is written is the same.\<close>

lemma budget_given: "\<exists>n. budget_tuple vs = Inr n"
  unfolding budget_tuple_def
proof (induction vs)
  case (Cons v vs)
  then show ?case by (cases v) (auto simp: estimate_buffer_def)
qed simp

lemma values_as_row: "write_values send esc st w vs = write_row send esc st w vs"
  using budget_given [of vs] by (auto simp: write_values_def write_row_def fill_pack_def fill_buffer_def)

lemma null_as_value: "append_to_buffer esc buf No_text = Inr (append_always_null buf)"
  by (simp add: append_to_buffer_def append_always_null_def)

text \<open>
  A row is one line, of its fields alone, if the buffer is sent and emptied each time, as the comment of
  \<open>write_buffer\<close> says; what was written before does not show in it.
\<close>

definition sends_lines :: "(stream_to \<Rightarrow> string list \<Rightarrow> pqxx_error + stream_to \<times> string list) \<Rightarrow> bool" where
  "sends_lines send \<longleftrightarrow> (\<forall>st lines. to_buffer st \<noteq> [] \<longrightarrow>
     send st lines = Inr (st\<lparr>to_buffer := []\<rparr>, lines @ [butlast (to_buffer st)]))"

fun write_all ::
    "(stream_to \<Rightarrow> 'w \<Rightarrow> pqxx_error + stream_to \<times> 'w) \<Rightarrow> (string \<Rightarrow> string \<Rightarrow> string) \<Rightarrow> stream_to \<Rightarrow> 'w \<Rightarrow> sql_value list list \<Rightarrow>
       pqxx_error + stream_to \<times> 'w" where
  "write_all send esc st w [] = Inr (st, w)"
| "write_all send esc st w (row # rows) =
     and_then (put_row send esc st w row) (\<lambda>(st, w). write_all send esc st w rows)"

lemma rows_are_lines:
  assumes "escape_ok enc esc" and "sends_lines send" and "to_buffer st = []"
    and "list_all2 (list_all2 (carries enc)) rows fss" and "[] \<notin> set rows"
  shows "write_all send esc st lines rows = Inr (st, lines @ map (butlast \<circ> copy_fields) fss)"
  using assms(4,5)
proof (induction arbitrary: lines rule: list_all2_induct)
  case Nil
  then show ?case by simp
next
  case (Cons row rows fs fss)
  from Cons.hyps(1) Cons.prems have "copy_fields fs \<noteq> []" by (cases fs) auto
  then have "send (st\<lparr>to_buffer := copy_fields fs\<rparr>) lines = Inr (st, lines @ [butlast (copy_fields fs)])"
    using assms(2,3) by (simp add: sends_lines_def)
  with fill_buffer_copy [OF assms(1) Cons.hyps(1), of "[]"] assms(3)
  have "put_row send esc st lines row = Inr (st, lines @ [butlast (copy_fields fs)])"
    by (simp add: put_row_def write_row_def)
  with Cons.IH Cons.prems show ?case by simp
qed

section \<open>Moving\<close>







end
