(* ===== verification/Pqxx_Binary_String.thy ===== *)
theory Pqxx_Binary_String
  imports Pqxx_Convert
begin

text \<open>
  The class for values of a \<open>bytea\<close> column (\<open>pqxx/binarystring.hxx\<close>): the buffer it shares, the access to
  its bytes, and its conversion from and to text.
\<close>

section \<open>The object\<close>

text \<open>
  \<open>bs_buf\<close> is the memory that the shared pointer owns and \<open>bs_size\<close> the number the object was given for its
  size.  Reading past that memory is undefined behaviour.
\<close>

record binarystring =
  bs_buf :: string
  bs_size :: nat

definition wrap_buffer :: "string \<Rightarrow> nat \<Rightarrow> binarystring" where
  "wrap_buffer ptr n = \<lparr>bs_buf = ptr, bs_size = n\<rparr>"

definition bs_length :: "binarystring \<Rightarrow> nat" where
  "bs_length b = bs_size b"

definition bs_empty :: "binarystring \<Rightarrow> bool" where
  "bs_empty b \<longleftrightarrow> bs_size b = 0"

definition bs_index :: "binarystring \<Rightarrow> nat \<Rightarrow> pqxx_error + char" where
  "bs_index b i = (if i < length (bs_buf b) then Inr (bs_buf b ! i) else Inl (read_out_of_bounds i))"

definition bs_front :: "binarystring \<Rightarrow> pqxx_error + char" where
  "bs_front b = bs_index b 0"

text \<open>The address of the last byte is computed from the size; for an empty string it lies before the buffer.\<close>

definition bs_back :: "binarystring \<Rightarrow> pqxx_error + char" where
  "bs_back b = (if bs_size b = 0 then Inl (read_out_of_bounds 0) else bs_index b (bs_size b - 1))"

definition bs_view :: "binarystring \<Rightarrow> pqxx_error + string" where
  "bs_view b =
     (if bs_size b \<le> length (bs_buf b) then Inr (take (bs_size b) (bs_buf b)) else Inl (read_out_of_bounds (length (bs_buf b))))"

definition bs_bytes_view :: "binarystring \<Rightarrow> pqxx_error + string" where
  "bs_bytes_view b =
     (if bs_size b \<le> length (bs_buf b) then Inr (take (bs_size b) (bs_buf b)) else Inl (read_out_of_bounds (length (bs_buf b))))"

definition bs_differs :: "(binarystring \<Rightarrow> binarystring \<Rightarrow> bool) \<Rightarrow> binarystring \<Rightarrow> binarystring \<Rightarrow> bool" where
  "bs_differs equals a b \<longleftrightarrow> \<not> equals a b"

section \<open>Conversion\<close>

definition bs_into_buf :: "compiled \<Rightarrow> string \<Rightarrow> nat \<Rightarrow> binarystring \<Rightarrow> pqxx_error + nat \<times> string" where
  "bs_into_buf c mem begin v =
     (let budget = size_esc_bin (bs_size v) in
      if length mem - begin < budget then Inl (conversion_overrun ''Not enough buffer space to escape binary data.'')
      else and_then (bs_view v) (\<lambda>text. and_then (bin_into c text mem begin) (\<lambda>mem. Inr (begin + budget, mem))))"

text \<open>
  The parser takes a buffer of the computed size from the heap, which gives at most \<open>heap\<close> bytes and what
  \<open>old\<close> says is in them, and has the bytes written to it.
\<close>

definition bs_from_string :: "nat \<Rightarrow> (nat \<Rightarrow> char) \<Rightarrow> compiled \<Rightarrow> string \<Rightarrow> pqxx_error + binarystring" where
  "bs_from_string heap old c text =
     (let n = size_unesc_bin (length text) in
      if n > heap then Inl bad_alloc
      else and_then (bin_parse c text) (\<lambda>b.
        if length b > n then Inl (write_out_of_bounds n)
        else Inr (wrap_buffer (b @ map old [length b ..< n]) n)))"

definition binarystring_traits :: "nat \<Rightarrow> (nat \<Rightarrow> char) \<Rightarrow> compiled \<Rightarrow> binarystring traits" where
  "binarystring_traits heap old c =
     \<lparr>t_name = ''pqxx::binarystring'', t_null = \<lambda>b. False, t_size = \<lambda>b. Inr (size_esc_bin (bs_size b)),
      t_into = bs_into_buf c, t_view = through_buf (\<lambda>b. False) (bs_into_buf c),
      t_parse = Some (bs_from_string heap old c), t_unquoted = False, t_format = \<lambda>b. Inr Text_format\<rparr>"

section \<open>The bytes of a string\<close>

text \<open>A string is sound if its buffer has the bytes; all of the access functions then agree.\<close>

definition bs_sound :: "binarystring \<Rightarrow> bool" where
  "bs_sound b \<longleftrightarrow> bs_size b \<le> length (bs_buf b)"

definition bs_bytes :: "binarystring \<Rightarrow> string" where
  "bs_bytes b = take (bs_size b) (bs_buf b)"

lemma length_bs_bytes [simp]: "bs_sound b \<Longrightarrow> length (bs_bytes b) = bs_length b"
  by (simp add: bs_sound_def bs_bytes_def bs_length_def)

lemma bs_views: "bs_sound b \<Longrightarrow> bs_view b = Inr (bs_bytes b) \<and> bs_bytes_view b = Inr (bs_bytes b)"
  by (simp add: bs_view_def bs_bytes_view_def bs_bytes_def bs_sound_def)

lemma bs_access:
  assumes "bs_sound b"
  shows "i < bs_length b \<Longrightarrow> bs_index b i = Inr (bs_bytes b ! i)"
    and "\<not> bs_empty b \<Longrightarrow> bs_front b = Inr (hd (bs_bytes b)) \<and> bs_back b = Inr (last (bs_bytes b))"
    and "bs_empty b \<longleftrightarrow> bs_bytes b = []"
proof -
  show i: "i < bs_length b \<Longrightarrow> bs_index b i = Inr (bs_bytes b ! i)" for i
    using assms by (simp add: bs_index_def bs_bytes_def bs_length_def bs_sound_def)
  show e: "bs_empty b \<longleftrightarrow> bs_bytes b = []"
    using length_bs_bytes [OF assms] by (simp add: bs_empty_def bs_length_def flip: length_0_conv)
  show "\<not> bs_empty b \<Longrightarrow> bs_front b = Inr (hd (bs_bytes b)) \<and> bs_back b = Inr (last (bs_bytes b))"
    using i [of 0] i [of "bs_size b - 1"] e length_bs_bytes [OF assms]
    by (simp add: bs_empty_def bs_front_def bs_back_def bs_length_def hd_conv_nth last_conv_nth)
qed

section \<open>The contract of a conversion\<close>

text \<open>
  A sound string is converted like the bytes it stands for, and one of just these bytes, as the parser
  makes, is read back the same.
\<close>

lemma bs_into_bytes: "bs_sound b \<Longrightarrow> bs_into_buf c mem pos b = binary_into c mem pos (bs_bytes b)"
  using bs_views [of b] by (auto simp: bs_into_buf_def binary_into_def bs_length_def Let_def)

definition bs_exact :: "nat \<Rightarrow> binarystring \<Rightarrow> bool" where
  "bs_exact heap b \<longleftrightarrow> length (bs_buf b) = bs_size b \<and> fits_memory (bs_buf b) \<and> bs_size b \<le> heap"

lemma bs_exact_bytes: "bs_exact heap b \<Longrightarrow> bs_sound b \<and> bs_bytes b = bs_buf b"
  by (simp add: bs_exact_def bs_sound_def bs_bytes_def)

lemma binarystring_converts:
  assumes c: "compiled_ok c"
  shows "conversion (binarystring_traits heap old c) bs_sound (\<lambda>b. bin_text (bs_bytes b))"
proof -
  have "through_buf (\<lambda>b. False) (bs_into_buf c) mem pos b = through_buf (\<lambda>b. False) (binary_into c) mem pos (bs_bytes b)"
    if "bs_sound b" for mem pos b using that by (simp add: through_buf_def bs_into_bytes)
  moreover have "size_esc_bin (bs_size b) = size_esc_bin (length (bs_bytes b))" if "bs_sound b" for b
    using that by (simp add: bs_length_def)
  ultimately show ?thesis
    using bytes_view_contract [OF c] unfolding conversion_unfold
    by (simp add: binarystring_traits_def bytes_view_traits_def bs_into_bytes del: length_bin_text length_bs_bytes)
qed

lemma binarystring_reads:
  assumes c: "compiled_ok c"
  shows "reading (binarystring_traits heap old c) (bs_exact heap) (\<lambda>b. bin_text (bs_bytes b)) (bs_from_string heap old c)"
proof -
  have "conversion (binarystring_traits heap old c) (bs_exact heap) (\<lambda>b. bin_text (bs_bytes b))"
    using binarystring_converts [OF c, of heap old] bs_exact_bytes unfolding conversion_unfold by meson
  moreover have "bs_from_string heap old c (bin_text (bs_bytes b)) = Inr b" if "bs_exact heap b" for b
  proof -
    have "bin_parse c (bin_text (bs_buf b)) = Inr (bs_buf b)" using c by (simp add: compiled_ok_def reads_back_def)
    with that bs_exact_bytes [OF that] size_unesc_esc [of "bs_buf b"] show ?thesis
      by (simp add: bs_from_string_def bs_exact_def wrap_buffer_def del: length_bin_text)
  qed
  ultimately show ?thesis
    by (intro reading.intro reading_axioms.intro) (simp_all add: binarystring_traits_def)
qed

text \<open>
  A string the parser makes has a buffer of just its size: there is no room for a zero after the bytes,
  so as a C string it would be read past its end.  For a text of fewer than two characters the size wraps
  to more than any heap has.
\<close>

lemma parsed_exact:
  assumes "bs_from_string heap old c text = Inr b"
  shows "length (bs_buf b) = bs_size b \<and> bs_size b = size_unesc_bin (length text) \<and> bs_index b (bs_size b) = Inl (read_out_of_bounds (bs_size b))"
  using assms by (auto simp: bs_from_string_def and_then_Inr wrap_buffer_def bs_index_def Let_def split: if_splits)

lemma parse_short: "length text < 2 \<Longrightarrow> heap < 2 ^ 63 - 1 \<Longrightarrow> bs_from_string heap old c text = Inl bad_alloc"
  by (cases "text") (auto simp: bs_from_string_def size_unesc_bin_def)

text \<open>On the text of a byte string the two parsers agree.\<close>

lemma parses_like_bytes:
  assumes "compiled_ok c" and "fits_memory b" and "length b \<le> heap"
  shows "bs_from_string heap old c (bin_text b) = Inr (wrap_buffer b (length b)) \<and> bytes_from_string c (bin_text b) = Inr b"
proof
  have "bs_exact heap (wrap_buffer b (length b))" using assms(2,3) by (simp add: bs_exact_def wrap_buffer_def)
  from reading.parses_back [OF binarystring_reads [OF assms(1)] this]
  show "bs_from_string heap old c (bin_text b) = Inr (wrap_buffer b (length b))"
    by (simp add: bs_bytes_def wrap_buffer_def)
  show "bytes_from_string c (bin_text b) = Inr b"
    by (rule reading.parses_back [OF bytes_traits_contract [OF assms(1)] assms(2)])
qed

end
