(* ===== verification/Pqxx_Array_Any.thy ===== *)
theory Pqxx_Array_Any
  imports Pqxx_Array Pqxx_Convert
begin

text \<open>
  Arrays of any element type (\<open>array_string_traits\<close> in \<open>pqxx/internal/conversions.hxx\<close>): the conversion of a
  container to the text of an SQL array, given the conversion of its elements.  The elements can be arrays
  themselves.  A contract that an array satisfies if its elements do gives the conversion of nested arrays
  of any depth.
\<close>

section \<open>The conversion\<close>

text \<open>
  What the templates know of the element type besides its conversion: whether it is \<open>is_sql_array\<close>, whether
  its \<open>to_buf\<close> puts the text at the start of the buffer it is given (or shows text that is elsewhere), and its
  \<open>array_separator\<close>.
\<close>

record array_kind =
  ak_nested :: bool
  ak_in_place :: bool
  ak_sep :: char

fun copy_escaped :: "string \<Rightarrow> nat \<Rightarrow> string \<Rightarrow> pqxx_error + nat \<times> string" where
  "copy_escaped [] pos mem = Inr (pos, mem)"
| "copy_escaped (c # cs) pos mem =
     (if c = dquote \<or> c = backslash then
        and_then (put mem pos backslash) (\<lambda>mem.
        and_then (put mem (pos + 1) c) (\<lambda>mem. copy_escaped cs (pos + 2) mem))
      else and_then (put mem pos c) (\<lambda>mem. copy_escaped cs (pos + 1) mem))"

text \<open>
  An element in quotes: its text is made at the end of the destination, and read from there while the
  escaped text is written.
\<close>

definition write_elt_quoted ::
    "array_kind \<Rightarrow> 'v traits \<Rightarrow> string \<Rightarrow> nat \<Rightarrow> 'v \<Rightarrow> pqxx_error + nat \<times> string" where
  "write_elt_quoted k T mem here v =
     and_then (put mem here dquote) (\<lambda>mem.
     and_then (t_size T v) (\<lambda>elt_budget.
     if \<not> elt_budget < length mem - (here + 1) then Inl terminates
     else and_then (t_view T mem (length mem - elt_budget) v) (\<lambda>(s, mem).
       let shown = (case s of None \<Rightarrow> [] | Some t \<Rightarrow> t) in
       and_then (if ak_in_place k then escape_loop (length shown) (length mem - elt_budget) (here + 1) mem
                 else copy_escaped shown (here + 1) mem) (\<lambda>(here, mem).
       and_then (put mem here dquote) (\<lambda>mem. Inr (here + 1, mem))))))"

definition write_elt :: "array_kind \<Rightarrow> 'v traits \<Rightarrow> string \<Rightarrow> nat \<Rightarrow> 'v \<Rightarrow> pqxx_error + nat \<times> string" where
  "write_elt k T mem here v =
     (if t_null T v then and_then (copy_to mem here ''NULL'') (\<lambda>mem. Inr (here + 4, mem))
      else if ak_nested k then and_then (t_into T mem here v) (\<lambda>(stop, mem). Inr (stop - 1, mem))
      else if t_unquoted T then and_then (t_into T mem here v) (\<lambda>(stop, mem). Inr (stop - 1, mem))
      else write_elt_quoted k T mem here v)"

fun write_elts :: "array_kind \<Rightarrow> 'v traits \<Rightarrow> 'v list \<Rightarrow> string \<Rightarrow> nat \<Rightarrow> pqxx_error + nat \<times> string" where
  "write_elts k T [] mem here = Inr (here, mem)"
| "write_elts k T (v # vs) mem here =
     and_then (write_elt k T mem here v) (\<lambda>(here, mem).
     and_then (put mem here (ak_sep k)) (\<lambda>mem. write_elts k T vs mem (here + 1)))"

text \<open>\<open>size_buffer\<close> is \<open>noexcept\<close>.\<close>

fun elts_size :: "'v traits \<Rightarrow> nat \<Rightarrow> 'v list \<Rightarrow> pqxx_error + nat" where
  "elts_size T acc [] = Inr acc"
| "elts_size T acc (v # vs) =
     (case (if t_null T v then Inr 4 else t_size T v) of
        Inl e \<Rightarrow> Inl terminates
      | Inr n \<Rightarrow> elts_size T (if t_unquoted T then acc + n - 1 else acc + 2 * n + 2) vs)"

definition any_array_size :: "'v traits \<Rightarrow> 'v list \<Rightarrow> pqxx_error + nat" where
  "any_array_size T vs = and_then (elts_size T 0 vs) (\<lambda>n. Inr (3 + n))"

definition any_array_into :: "array_kind \<Rightarrow> 'v traits \<Rightarrow> string \<Rightarrow> nat \<Rightarrow> 'v list \<Rightarrow> pqxx_error + nat \<times> string" where
  "any_array_into k T mem begin vs =
     (if \<not> begin \<le> length mem then Inl terminates
      else and_then (any_array_size T vs) (\<lambda>budget.
        if length mem - begin < budget
        then Inl (conversion_overrun ''Not enough buffer space to convert array to string.'')
        else and_then (put mem begin (CHR ''{'')) (\<lambda>mem.
             and_then (write_elts k T vs mem (begin + 1)) (\<lambda>(here, mem).
             let here = (if vs \<noteq> [] then here - 1 else here) in
             and_then (put mem here (CHR ''}'')) (\<lambda>mem.
             and_then (put mem (here + 1) (CHR 0x00)) (\<lambda>mem. Inr (here + 2, mem)))))))"

text \<open>The conversion of a container \<open>'c\<close> with the given list of elements.\<close>

definition array_traits :: "array_kind \<Rightarrow> 'v traits \<Rightarrow> ('c \<Rightarrow> 'v list) \<Rightarrow> 'c traits" where
  "array_traits k T elements =
     \<lparr>t_name = ''array'', t_null = \<lambda>c. False, t_size = \<lambda>c. any_array_size T (elements c),
      t_into = \<lambda>mem begin c. any_array_into k T mem begin (elements c),
      t_view = through_buf (\<lambda>c. False) (\<lambda>mem begin c. any_array_into k T mem begin (elements c)),
      t_parse = None, t_unquoted = False, t_format = \<lambda>c. Inr Text_format\<rparr>"

section \<open>The text of an array\<close>

fun listed :: "char \<Rightarrow> string list \<Rightarrow> string" where
  "listed c [] = []"
| "listed c [x] = x"
| "listed c (x # y # xs) = x @ c # listed c (y # xs)"

definition quoted :: "string \<Rightarrow> string" where
  "quoted s = dquote # escape s @ [dquote]"

definition elt_shown :: "array_kind \<Rightarrow> 'v traits \<Rightarrow> ('v \<Rightarrow> string) \<Rightarrow> 'v \<Rightarrow> string" where
  "elt_shown k T shown v =
     (if t_null T v then ''NULL'' else if ak_nested k \<or> t_unquoted T then shown v else quoted (shown v))"

definition array_shown :: "array_kind \<Rightarrow> 'v traits \<Rightarrow> ('v \<Rightarrow> string) \<Rightarrow> 'v list \<Rightarrow> string" where
  "array_shown k T shown vs = ''{'' @ listed (ak_sep k) (map (elt_shown k T shown) vs) @ ''}''"

lemma copy_escaped_spec:
  "holds mem n out \<Longrightarrow> length out + length (escape s) \<le> n \<Longrightarrow>
    \<exists>mem'. copy_escaped s (length out) mem = Inr (length (out @ escape s), mem') \<and> holds mem' n (out @ escape s)"
proof (induction s arbitrary: mem out)
  case (Cons c s)
  show ?case
  proof (cases "c = dquote \<or> c = backslash")
    case True
    with Cons.prems have "length out < n" by simp
    with Cons.prems(1) obtain mem1 where m1: "put mem (length out) backslash = Inr mem1" "holds mem1 n (out @ [backslash])"
      by (rule put_holds)
    moreover from True Cons.prems have "length (out @ [backslash]) < n" by simp
    ultimately obtain mem2 where "put mem1 (length (out @ [backslash])) c = Inr mem2" "holds mem2 n ((out @ [backslash]) @ [c])"
      by (meson put_holds)
    with m1(1) True Cons.IH [of mem2 "out @ [backslash, c]"] Cons.prems(2) show ?thesis by auto
  next
    case False
    with Cons.prems have "length out < n" by simp
    with Cons.prems(1) obtain mem1 where "put mem (length out) c = Inr mem1" "holds mem1 n (out @ [c])"
      by (rule put_holds)
    with False Cons.IH [of mem1 "out @ [c]"] Cons.prems(2) show ?thesis by auto
  qed
qed simp

section \<open>The contract within a budget\<close>

text \<open>
  What an array needs of its elements: given the space that \<open>size_buffer\<close> asks for, \<open>into_buf\<close> appends the
  text and a zero, and \<open>to_buf\<close> shows the text and leaves what was written before.  A conversion that needs
  no more space than its text takes has this contract, too; the one of an array has only this one.
\<close>

locale budgeted =
  fixes T :: "'v traits" and ok :: "'v \<Rightarrow> bool" and shown :: "'v \<Rightarrow> string" and in_place :: bool
  assumes size: "ok v \<Longrightarrow> \<exists>n. t_size T v = Inr n \<and> length (shown v) < n"
    and into: "ok v \<Longrightarrow> t_size T v = Inr n \<Longrightarrow> holds mem len out \<Longrightarrow> length out + n \<le> len \<Longrightarrow>
      \<exists>mem'. t_into T mem (length out) v = Inr (length out + length (shown v) + 1, mem') \<and>
        holds mem' len (out @ shown v @ [CHR 0x00])"
    and show_at: "ok v \<Longrightarrow> t_size T v = Inr n \<Longrightarrow> holds mem len out \<Longrightarrow> length out \<le> pos \<Longrightarrow> pos + n \<le> len \<Longrightarrow>
      \<exists>mem'. t_view T mem pos v = Inr (Some (shown v), mem') \<and> holds mem' len out \<and>
        (in_place \<longrightarrow> segment mem' pos (pos + length (shown v)) = shown v)"
begin

lemma to_string_shown: "ok v \<Longrightarrow> \<not> t_null T v \<Longrightarrow> to_string T v = Inr (shown v)"
proof -
  assume ok: "ok v" and "\<not> t_null T v"
  from size [OF ok] obtain n where n: "t_size T v = Inr n" "length (shown v) < n" by blast
  have "holds (replicate n (CHR 0x00)) n []" by (simp add: holds_def)
  from into [OF ok n(1) this] obtain mem' where
    m: "t_into T (replicate n (CHR 0x00)) 0 v = Inr (length (shown v) + 1, mem')" "holds mem' n (shown v @ [CHR 0x00])" by auto
  from holds_prefix [OF m(2)] have "take (length (shown v)) mem' = shown v" by (simp add: holds_def)
  with m(1) n(1) \<open>\<not> t_null T v\<close> show ?thesis by (simp add: to_string_def)
qed

lemma elt_quoted:
  assumes ok: "ok v" and k: "ak_in_place k \<longrightarrow> in_place" and h: "holds mem len out" and n: "t_size T v = Inr n"
    and room: "length out + 2 * n + 1 \<le> len"
  shows "\<exists>mem'. write_elt_quoted k T mem (length out) v = Inr (length (out @ quoted (shown v)), mem') \<and>
    holds mem' len (out @ quoted (shown v))"
proof -
  let ?s = "shown v" and ?out = "out @ [dquote]"
  have l: "length ?s < n" using size [OF ok] n by auto
  have "length out < len" using room by simp
  with h obtain mem1 where m1: "put mem (length out) dquote = Inr mem1" "holds mem1 len ?out" by (rule put_holds)
  have len1: "length mem1 = len" using m1(2) by (simp add: holds_def)
  have "length ?out \<le> len - n" "len - n + n \<le> len" using room l by simp_all
  from show_at [OF ok n m1(2) this] obtain mem2 where m2: "t_view T mem1 (len - n) v = Inr (Some ?s, mem2)" "holds mem2 len ?out"
    and seg: "in_place \<longrightarrow> segment mem2 (len - n) (len - n + length ?s) = ?s" by blast
  have len2: "length mem2 = len" using m2(2) by (simp add: holds_def)
  have "\<exists>mem3. (if ak_in_place k then escape_loop (length ?s) (len - n) (length ?out) mem2 else copy_escaped ?s (length ?out) mem2) =
      Inr (length (?out @ escape ?s), mem3) \<and> holds mem3 len (?out @ escape ?s)"
  proof (cases "ak_in_place k")
    case True
    with k seg have "segment mem2 (len - n) (len - n + length ?s) = ?s" by simp
    moreover have "len - n + length ?s \<le> len" "length ?out + length ?s \<le> len - n" using room l by simp_all
    note escape_loop_spec [OF m2(2) this]
    ultimately show ?thesis using True by simp
  next
    case False
    moreover have "length ?out + length (escape ?s) \<le> len" using room l length_escape [of ?s] by simp
    ultimately show ?thesis using copy_escaped_spec [OF m2(2)] by simp
  qed
  then obtain mem3 where m3: "(if ak_in_place k then escape_loop (length ?s) (len - n) (length ?out) mem2
      else copy_escaped ?s (length ?out) mem2) = Inr (length (?out @ escape ?s), mem3)" "holds mem3 len (?out @ escape ?s)" by blast
  have "length (?out @ escape ?s) < len" using room l length_escape [of ?s] by simp
  with m3(2) obtain mem4 where m4: "put mem3 (length (?out @ escape ?s)) dquote = Inr mem4"
    "holds mem4 len ((?out @ escape ?s) @ [dquote])" by (rule put_holds)
  have "n < len - (length out + 1)" using room l by simp
  with m1(1) m2(1) m3(1) m4 len1 len2 n show ?thesis by (simp add: write_elt_quoted_def quoted_def Let_def cong: if_cong)
qed

text \<open>
  An element with room for its text and a separator, which is written within that room and one byte more.
\<close>

definition roomy :: "array_kind \<Rightarrow> ('v \<Rightarrow> nat) \<Rightarrow> 'v \<Rightarrow> bool" where
  "roomy k r v \<longleftrightarrow> length (elt_shown k T shown v) + 1 \<le> r v \<and>
     (\<forall>mem len out. holds mem len out \<and> length out + r v + 1 \<le> len \<longrightarrow>
        (\<exists>mem'. write_elt k T mem (length out) v = Inr (length (out @ elt_shown k T shown v), mem') \<and>
           holds mem' len (out @ elt_shown k T shown v)))"

lemma into_roomy:
  assumes ok: "ok v" and "\<not> t_null T v" and n: "t_size T v = Inr n" and "ak_nested k \<or> t_unquoted T"
    and r: "n \<le> r v + 1" "length (shown v) + 1 \<le> r v"
  shows "roomy k r v"
proof -
  have "\<exists>mem'. write_elt k T mem (length out) v = Inr (length (out @ shown v), mem') \<and> holds mem' len (out @ shown v)"
    if h: "holds mem len out" "length out + r v + 1 \<le> len" for mem len out
  proof -
    have "length out + n \<le> len" using h(2) r(1) by simp
    from into [OF ok n h(1) this] obtain mem' where "t_into T mem (length out) v = Inr (length out + length (shown v) + 1, mem')"
      "holds mem' len (out @ shown v @ [CHR 0x00])" by blast
    with holds_prefix [of mem' len "out @ shown v" "[CHR 0x00]"] assms(2,4) show ?thesis by (auto simp: write_elt_def)
  qed
  with assms(2,4) r(2) show ?thesis by (simp add: roomy_def elt_shown_def)
qed

text \<open>The room that \<open>size_buffer\<close> gives to an element, quoted or nested, and to one that is not quoted.\<close>

definition elt_room :: "'v \<Rightarrow> nat" where
  "elt_room v = 2 * (if t_null T v then 4 else case t_size T v of Inl e \<Rightarrow> 0 | Inr n \<Rightarrow> n) + 2"

definition plain_room :: "'v \<Rightarrow> nat" where
  "plain_room v = (case t_size T v of Inl e \<Rightarrow> 0 | Inr n \<Rightarrow> n - 1)"

lemma quoted_roomy:
  assumes v: "t_null T v \<or> ok v" and q: "\<not> t_unquoted T" and k: "ak_in_place k \<longrightarrow> in_place"
  shows "roomy k elt_room v"
proof (cases "t_null T v")
  case True
  have "\<exists>mem'. write_elt k T mem (length out) v = Inr (length (out @ ''NULL''), mem') \<and> holds mem' len (out @ ''NULL'')"
    if "holds mem len out" "length out + elt_room v + 1 \<le> len" for mem len out
    using copy_to_end [OF that(1), of "''NULL''"] that(2) True
    by (auto simp: write_elt_def elt_room_def simp del: copy_to.simps)
  with True show ?thesis by (simp add: roomy_def elt_shown_def elt_room_def)
next
  case False
  with v have ok: "ok v" by simp
  with size obtain n where n: "t_size T v = Inr n" "length (shown v) < n" by blast
  show ?thesis
  proof (cases "ak_nested k")
    case True
    with ok False n show ?thesis by (intro into_roomy [where n = n]) (simp_all add: elt_room_def)
  next
    case nested: False
    have "\<exists>mem'. write_elt k T mem (length out) v = Inr (length (out @ quoted (shown v)), mem') \<and> holds mem' len (out @ quoted (shown v))"
      if h: "holds mem len out" "length out + elt_room v + 1 \<le> len" for mem len out
    proof -
      have "length out + 2 * n + 1 \<le> len" using h(2) False n(1) by (simp add: elt_room_def)
      from elt_quoted [OF ok k h(1) n(1) this] False nested q show ?thesis by (simp add: write_elt_def)
    qed
    with n False nested q length_escape [of "shown v"] show ?thesis
      by (simp add: roomy_def elt_shown_def elt_room_def quoted_def)
  qed
qed

lemma plain_roomy:
  assumes "ok v" and "\<not> t_null T v" and "t_unquoted T" and "t_size T v = Inr n" and "length (shown v) + 2 \<le> n"
  shows "roomy k plain_room v"
  by (rule into_roomy [where n = n]) (use assms in \<open>simp_all add: plain_room_def\<close>)

lemma elts_written:
  assumes "\<forall>v \<in> set vs. roomy k r v" and "vs \<noteq> []" and "holds mem len out" and "length out + sum_list (map r vs) + 1 \<le> len"
  shows "\<exists>mem'. write_elts k T vs mem (length out) =
      Inr (length (out @ listed (ak_sep k) (map (elt_shown k T shown) vs) @ [ak_sep k]), mem') \<and>
    holds mem' len (out @ listed (ak_sep k) (map (elt_shown k T shown) vs) @ [ak_sep k])"
  using assms
proof (induction vs arbitrary: mem out)
  case (Cons v vs)
  let ?e = "elt_shown k T shown v"
  have v: "roomy k r v" and r: "length out + r v + 1 \<le> len" using Cons.prems by simp_all
  then obtain mem1 where
    m1: "write_elt k T mem (length out) v = Inr (length (out @ ?e), mem1)" "holds mem1 len (out @ ?e)"
    using Cons.prems(3) unfolding roomy_def by blast
  have l: "length ?e + 1 \<le> r v" using v by (simp add: roomy_def)
  with Cons.prems(4) have "length (out @ ?e) < len" by simp
  with m1(2) obtain mem2 where m2: "put mem1 (length (out @ ?e)) (ak_sep k) = Inr mem2"
    "holds mem2 len ((out @ ?e) @ [ak_sep k])" by (rule put_holds)
  show ?case
  proof (cases vs)
    case Nil
    with m1(1) m2 show ?thesis by simp
  next
    case (Cons w ws)
    with Cons.IH [OF _ _ m2(2)] Cons.prems m1(1) m2(1) l show ?thesis by simp
  qed
qed simp

lemma listed_fits:
  "\<forall>v \<in> set vs. roomy k r v \<Longrightarrow> length (listed c (map (elt_shown k T shown) vs)) \<le> sum_list (map r vs)"
  by (induction vs rule: induct_list012) (auto simp: roomy_def)

lemma array_written:
  assumes v: "\<forall>v \<in> set vs. roomy k r v" and n: "any_array_size T vs = Inr n" "n = 3 + sum_list (map r vs)"
    and h: "holds mem len out" and room: "length out + n \<le> len"
  shows "\<exists>mem'. any_array_into k T mem (length out) vs = Inr (length out + length (array_shown k T shown vs) + 1, mem') \<and>
    holds mem' len (out @ array_shown k T shown vs @ [CHR 0x00])"
proof -
  let ?l = "listed (ak_sep k) (map (elt_shown k T shown) vs)" and ?out = "out @ ''{''"
  have "length out < len" using room n(2) by simp
  with h obtain mem1 where m1: "put mem (length out) (CHR ''{'') = Inr mem1" "holds mem1 len ?out" by (rule put_holds)
  have len: "length mem = len" using h by (simp add: holds_def)
  have "\<exists>mem2 here. write_elts k T vs mem1 (length ?out) = Inr (here, mem2) \<and>
      (if vs \<noteq> [] then here - 1 else here) = length (?out @ ?l) \<and> holds mem2 len (?out @ ?l)"
  proof (cases "vs = []")
    case True
    with m1(2) show ?thesis by simp
  next
    case False
    have "length ?out + sum_list (map r vs) + 1 \<le> len" using room n(2) by simp
    from elts_written [OF v False m1(2) this] obtain mem2 where
      "write_elts k T vs mem1 (length ?out) = Inr (length (?out @ ?l @ [ak_sep k]), mem2)" "holds mem2 len (?out @ ?l @ [ak_sep k])"
      by blast
    with holds_prefix [of mem2 len "?out @ ?l" "[ak_sep k]"] False show ?thesis by simp
  qed
  then obtain mem2 here where m2: "write_elts k T vs mem1 (length ?out) = Inr (here, mem2)"
    "(if vs \<noteq> [] then here - 1 else here) = length (?out @ ?l)" and h2: "holds mem2 len (?out @ ?l)" by blast
  have "length (?out @ ?l) + 1 < len" using room n(2) listed_fits [OF v, of "ak_sep k"] by simp
  from array_close [OF h2 this] obtain mem3 where m3:
    "and_then (put mem2 (length (?out @ ?l)) (CHR ''}'')) (\<lambda>mem. put mem (length (?out @ ?l) + 1) (CHR 0x00)) = Inr mem3"
    "holds mem3 len ((?out @ ?l) @ ''}'' @ [CHR 0x00])" by blast
  have "length out \<le> length mem" "\<not> length mem - length out < n" using room len by simp_all
  with m1(1) m2 m3 n(1) show ?thesis
    unfolding any_array_into_def by (auto simp: array_shown_def Let_def and_then_Inr)
qed

lemma array_size_room:
  assumes "\<forall>v \<in> set vs. t_null T v \<or> ok v" and "\<not> t_unquoted T"
  shows "any_array_size T vs = Inr (3 + sum_list (map elt_room vs))"
proof -
  have "elts_size T acc vs = Inr (acc + sum_list (map elt_room vs))" for acc
    using assms(1)
  proof (induction vs arbitrary: acc)
    case (Cons v vs)
    then show ?case using size [of v] assms(2) by (auto simp: elt_room_def)
  qed simp
  then show ?thesis by (simp add: any_array_size_def)
qed

lemma plain_size_room:
  assumes "\<forall>v \<in> set vs. ok v \<and> \<not> t_null T v" and "t_unquoted T"
  shows "any_array_size T vs = Inr (3 + sum_list (map plain_room vs))"
proof -
  have "elts_size T acc vs = Inr (acc + sum_list (map plain_room vs))" for acc
    using assms(1)
  proof (induction vs arbitrary: acc)
    case (Cons v vs)
    then show ?case using size [of v] assms(2) by (auto simp: plain_room_def)
  qed simp
  then show ?thesis by (simp add: any_array_size_def)
qed

text \<open>
  An array of elements that are not quoted is only right if each of them leaves a byte of its space: the
  separators are not counted.
\<close>

lemma plain_array:
  assumes "\<forall>v \<in> set vs. ok v \<and> \<not> t_null T v \<and> (\<forall>n. t_size T v = Inr n \<longrightarrow> length (shown v) + 2 \<le> n)" and q: "t_unquoted T"
  shows "to_string (array_traits k T (\<lambda>vs. vs)) vs = Inr (array_shown k T shown vs)"
proof -
  have r: "\<forall>v \<in> set vs. roomy k plain_room v"
    using assms size plain_roomy [OF _ _ q] by blast
  obtain n where n: "any_array_size T vs = Inr n" "n = 3 + sum_list (map plain_room vs)"
    using plain_size_room [OF _ q, of vs] assms(1) by blast
  have "holds (replicate n (CHR 0x00)) n []" by (simp add: holds_def)
  from array_written [OF r n this] obtain mem' where
    m: "any_array_into k T (replicate n (CHR 0x00)) 0 vs = Inr (length (array_shown k T shown vs) + 1, mem')"
    "holds mem' n (array_shown k T shown vs @ [CHR 0x00])" by auto
  from holds_prefix [OF m(2)] have "take (length (array_shown k T shown vs)) mem' = array_shown k T shown vs" by (simp add: holds_def)
  with m(1) n(1) show ?thesis by (simp add: to_string_def array_traits_def)
qed

lemma array_budgeted:
  assumes q: "\<not> t_unquoted T" and k: "ak_in_place k \<longrightarrow> in_place"
  shows "budgeted (array_traits k T elements) (\<lambda>c. \<forall>v \<in> set (elements c). t_null T v \<or> ok v)
    (\<lambda>c. array_shown k T shown (elements c)) True"
proof
  fix c
  assume v: "\<forall>v \<in> set (elements c). t_null T v \<or> ok v"
  then have r: "\<forall>v \<in> set (elements c). roomy k elt_room v" using quoted_roomy [OF _ q k] by blast
  show "\<exists>n. t_size (array_traits k T elements) c = Inr n \<and> length (array_shown k T shown (elements c)) < n"
    using array_size_room [OF v q] listed_fits [OF r, of "ak_sep k"] by (simp add: array_traits_def array_shown_def)
  fix n mem len out
  assume n: "t_size (array_traits k T elements) c = Inr n" and h: "holds mem len out"
  have n': "any_array_size T (elements c) = Inr n" using n by (simp add: array_traits_def)
  then have n3: "n = 3 + sum_list (map elt_room (elements c))" using array_size_room [OF v q] by simp
  show "\<exists>mem'. t_into (array_traits k T elements) mem (length out) c =
      Inr (length out + length (array_shown k T shown (elements c)) + 1, mem') \<and>
      holds mem' len (out @ array_shown k T shown (elements c) @ [CHR 0x00])" if "length out + n \<le> len"
    using array_written [OF r n' n3 h that] by (simp add: array_traits_def)
  fix pos
  assume pos: "length out \<le> pos" "pos + n \<le> len"
  from h pos have h': "holds mem len (take pos mem)" by (auto simp: holds_def)
  with pos have "length (take pos mem) + n \<le> len" by (simp add: holds_def)
  from array_written [OF r n' n3 h' this] h pos obtain mem' where
    m: "any_array_into k T mem pos (elements c) = Inr (pos + length (array_shown k T shown (elements c)) + 1, mem')"
    "holds mem' len (take pos mem @ array_shown k T shown (elements c) @ [CHR 0x00])" by (auto simp: holds_def)
  have tp: "length (take pos mem) = pos" "take pos mem = out @ drop (length out) (take pos mem)"
    using h pos append_take_drop_id [of "length out" "take pos mem"] by (simp_all add: holds_def min_def)
  have seg: "segment mem' pos (pos + length (array_shown k T shown (elements c))) = array_shown k T shown (elements c)"
    using holds_segment [OF m(2)] tp(1) by simp
  have "holds mem' len out" using m(2) tp(2) holds_prefix by (metis append.assoc)
  with m(1) seg show "\<exists>mem'. t_view (array_traits k T elements) mem pos c = Inr (Some (array_shown k T shown (elements c)), mem') \<and>
      holds mem' len out \<and> (True \<longrightarrow> segment mem' pos (pos + length (array_shown k T shown (elements c))) = array_shown k T shown (elements c))"
    by (simp add: array_traits_def through_buf_def)
qed

text \<open>Optionals and pointers of elements keep the contract, and are null when empty.\<close>

lemma optional_budgeted: "budgeted (optional_traits T) (\<lambda>v. \<exists>w. v = Some w \<and> ok w) (\<lambda>v. shown (the v)) in_place"
  by unfold_locales (auto simp: optional_traits_def deref_def view_if_any_def intro: size into [simplified] show_at)

lemma unique_budgeted: "budgeted (unique_ptr_traits T) (\<lambda>v. \<exists>w. v = Some w \<and> ok w) (\<lambda>v. shown (the v)) in_place"
  by unfold_locales (auto simp: unique_ptr_traits_def deref_def view_if_any_def intro: size into [simplified] show_at)

lemma shared_budgeted: "budgeted (shared_ptr_traits T) (\<lambda>v. \<exists>w. v = Some w \<and> ok w) (\<lambda>v. shown (the v)) in_place"
  by unfold_locales (auto simp: shared_ptr_traits_def deref_def intro: size into [simplified] show_at)

end

text \<open>
  A conversion that needs no more space than the text takes has the contract; when \<open>to_buf\<close> goes through
  \<open>into_buf\<close>, with the text in place.
\<close>

lemma holds_taken:
  assumes "holds mem len out" and "length out \<le> pos" and "take pos mem' = take pos mem" and "length mem' = length mem"
  shows "holds mem' len out"
proof -
  have "take (length out) (take pos mem') = take (length out) (take pos mem)" using assms(3) by simp
  with assms(1,2,4) show ?thesis by (simp add: holds_def min_def)
qed

context conversion
begin

lemma budgeted_anywhere: "budgeted T ok shown False"
proof
  fix v n mem len out pos
  assume ok: "ok v" and n: "t_size T v = Inr n" and h: "holds mem len out"
  then have l: "length (shown v) < n" using sized by fastforce
  show "\<exists>mem'. t_view T mem pos v = Inr (Some (shown v), mem') \<and> holds mem' len out \<and>
      (False \<longrightarrow> segment mem' pos (pos + length (shown v)) = shown v)" if "length out \<le> pos" "pos + n \<le> len"
  proof -
    have "pos + n \<le> length mem" using that h by (simp add: holds_def)
    from viewed [OF ok n this] holds_taken [OF h that(1)] show ?thesis by blast
  qed
  show "\<exists>mem'. t_into T mem (length out) v = Inr (length out + length (shown v) + 1, mem') \<and>
      holds mem' len (out @ shown v @ [CHR 0x00])" if "length out + n \<le> len"
  proof -
    have "length out + n \<le> length mem" using that h by (simp add: holds_def)
    from fits [OF ok n this] h show ?thesis by (auto simp: holds_def)
  qed
qed (rule sized)

lemma budgeted_in_place:
  assumes "\<And>v. ok v \<Longrightarrow> t_view T = through_buf (\<lambda>v. False) (t_into T)"
  shows "budgeted T ok shown True"
proof (rule budgeted.intro)
  fix v n mem len out pos
  assume ok: "ok v" and n: "t_size T v = Inr n" and h: "holds mem len out"
  then have l: "length (shown v) < n" using sized by fastforce
  show "\<exists>mem'. t_view T mem pos v = Inr (Some (shown v), mem') \<and> holds mem' len out \<and>
      (True \<longrightarrow> segment mem' pos (pos + length (shown v)) = shown v)" if p: "length out \<le> pos" "pos + n \<le> len"
  proof -
    have m: "pos + length (shown v) < length mem" using p l h by (simp add: holds_def)
    have "pos + n \<le> length mem" using p h by (simp add: holds_def)
    from fits [OF ok n this] obtain rest where
      f: "t_into T mem pos v = Inr (pos + length (shown v) + 1, take pos mem @ shown v @ CHR 0x00 # rest)"
      "pos + length (shown v) + 1 + length rest = length mem" by blast
    let ?mem = "take pos mem @ shown v @ CHR 0x00 # rest"
    have "holds ?mem len out" by (rule holds_taken [OF h p(1)]) (use m f(2) in simp_all)
    moreover have "segment ?mem pos (pos + length (shown v)) = shown v" using m by (simp add: segment_def)
    ultimately show ?thesis using f(1) assms [OF ok] by (simp add: through_buf_def)
  qed
qed (use budgeted_anywhere in \<open>auto simp: budgeted_def\<close>)

end

text \<open>Strings, which are shown in place, views of them, which are not, and optional strings as elements.\<close>

interpretation string_elt: budgeted std_string_traits "\<lambda>s. True" "\<lambda>s. s" True
  by (rule std_string.budgeted_in_place) (simp add: std_string_traits_def)

interpretation view_elt: budgeted view_traits "\<lambda>s. True" "\<lambda>s. s" False
  by (rule string_view.budgeted_anywhere)

interpretation optional_string_elt: budgeted "optional_traits std_string_traits" "\<lambda>v. \<exists>w. v = Some w \<and> True" "\<lambda>v. the v" True
  by (rule string_elt.optional_budgeted)

text \<open>
  The lowest integer leaves no byte of its space, so two of them run over the buffer, as two null strings
  of a nested array do not.
\<close>

lemma two_lowest_overrun:
  "any_array_size (builtin_traits decimal_compiled Short) [- 32768, - 32768] = Inr 15"
  "to_string (array_traits \<lparr>ak_nested = False, ak_in_place = True, ak_sep = CHR '',''\<rparr> (builtin_traits decimal_compiled Short) (\<lambda>vs. vs))
     [- 32768, - 32768] = Inl (write_out_of_bounds 15)"
proof -
  have d: "dec_int (- 32768) = ''-32768''" by (simp add: dec_int_def dec_tens dec_digit) code_simp
  have s: "integral_size_buffer \<lparr>is_signed = True, bits = 16\<rparr> = 7"
    by (simp add: integral_size_buffer_def digits10_def highest_def dec_tens dec_digit)
  show z: "any_array_size (builtin_traits decimal_compiled Short) [- 32768, - 32768] = Inr 15"
    by (simp add: any_array_size_def builtin_traits_def integral_traits_def s)
  have r: "replicate 15 (CHR 0x00) = [CHR 0x00, CHR 0x00, CHR 0x00, CHR 0x00, CHR 0x00, CHR 0x00, CHR 0x00, CHR 0x00,
      CHR 0x00, CHR 0x00, CHR 0x00, CHR 0x00, CHR 0x00, CHR 0x00, CHR 0x00]" by (simp add: numeral_eq_Suc)
  show "to_string (array_traits \<lparr>ak_nested = False, ak_in_place = True, ak_sep = CHR '',''\<rparr> (builtin_traits decimal_compiled Short) (\<lambda>vs. vs))
      [- 32768, - 32768] = Inl (write_out_of_bounds 15)"
    using z by (simp add: to_string_def array_traits_def any_array_into_def r write_elt_def builtin_traits_def integral_traits_def
      decimal_compiled_def d string_into_buf_def put_def numeral_eq_Suc)
qed

end
