(* ===== verification/Pqxx_Array_Nested.thy ===== *)
theory Pqxx_Array_Nested
  imports Pqxx_Array_Any Pqxx_Array_Shape
begin

text \<open>
  Arrays of several dimensions: a container of containers is written as nested braces, and \<open>pqxx::array\<close>
  with as many dimensions reads the text back.
\<close>

section \<open>Nested containers\<close>

text \<open>
  A value of a type like \<open>std::vector<std::vector<T>>\<close>; \<open>kids\<close> are the elements of a container.  The
  conversion of the type with \<open>d\<close> levels of containers is the one of arrays, \<open>d\<close> times over that of \<open>T\<close>.
\<close>

datatype 'v nest = Leaf 'v | Nest "'v nest list"

fun kids :: "'v nest \<Rightarrow> 'v nest list" where
  "kids (Leaf v) = []"
| "kids (Nest ts) = ts"

fun leaves :: "'v nest \<Rightarrow> 'v list" where
  "leaves (Leaf v) = [v]"
| "leaves (Nest ts) = concat (map leaves ts)"

definition on_leaf :: "'b \<Rightarrow> ('v \<Rightarrow> 'b) \<Rightarrow> 'v nest \<Rightarrow> 'b" where
  "on_leaf otherwise f t = (case t of Leaf v \<Rightarrow> f v | Nest ts \<Rightarrow> otherwise)"

lemma on_leaf_simps [simp]:
  "on_leaf b f (Leaf v) = f v"
  "on_leaf b f (Nest ts) = b"
  by (simp_all add: on_leaf_def)

definition at_leaf :: "'v traits \<Rightarrow> 'v nest traits" where
  "at_leaf T =
     \<lparr>t_name = t_name T, t_null = on_leaf False (t_null T), t_size = on_leaf (Inl terminates) (t_size T),
      t_into = \<lambda>mem begin. on_leaf (Inl terminates) (t_into T mem begin),
      t_view = \<lambda>mem begin. on_leaf (Inl terminates) (t_view T mem begin),
      t_parse = None, t_unquoted = t_unquoted T, t_format = on_leaf (Inl terminates) (t_format T)\<rparr>"

definition nest_kind :: "bool \<Rightarrow> nat \<Rightarrow> array_kind" where
  "nest_kind in_place d = \<lparr>ak_nested = (0 < d), ak_in_place = (0 < d \<or> in_place), ak_sep = CHR '',''\<rparr>"

fun nested_traits :: "bool \<Rightarrow> 'v traits \<Rightarrow> nat \<Rightarrow> 'v nest traits" where
  "nested_traits in_place T 0 = at_leaf T"
| "nested_traits in_place T (Suc d) = array_traits (nest_kind in_place d) (nested_traits in_place T d) kids"

text \<open>The shape: as many elements in each level as the list of sizes says.\<close>

fun shape :: "nat list \<Rightarrow> 'v nest \<Rightarrow> bool" where
  "shape [] t \<longleftrightarrow> (\<exists>v. t = Leaf v)"
| "shape (n # ns) t \<longleftrightarrow> (\<exists>ts. t = Nest ts \<and> length ts = n \<and> (\<forall>u \<in> set ts. shape ns u))"

text \<open>The text, given the one of each element, which has none if it is null.\<close>

fun nest_text :: "('v \<Rightarrow> string option) \<Rightarrow> 'v nest \<Rightarrow> string" where
  "nest_text render (Leaf v) = (case render v of None \<Rightarrow> ''NULL'' | Some s \<Rightarrow> quoted s)"
| "nest_text render (Nest ts) = ''{'' @ listed (CHR '','') (map (nest_text render) ts) @ ''}''"

section \<open>Writing\<close>

context budgeted
begin

definition render :: "'v \<Rightarrow> string option" where
  "render v = (if t_null T v then None else Some (shown v))"

lemma at_leaf_budgeted: "budgeted (at_leaf T) (on_leaf False ok) (on_leaf [] shown) in_place"
proof
  fix t n mem len out pos
  assume "on_leaf False ok t"
  then obtain v where t: "t = Leaf v" and ok: "ok v" by (cases t) auto
  show "\<exists>n. t_size (at_leaf T) t = Inr n \<and> length (on_leaf [] shown t) < n"
    using size [OF ok] by (simp add: at_leaf_def t)
  assume n: "t_size (at_leaf T) t = Inr n" and h: "holds mem len out"
  have n': "t_size T v = Inr n" using n by (simp add: at_leaf_def t)
  show "\<exists>mem'. t_into (at_leaf T) mem (length out) t = Inr (length out + length (on_leaf [] shown t) + 1, mem') \<and>
      holds mem' len (out @ on_leaf [] shown t @ [CHR 0x00])" if "length out + n \<le> len"
    using into [OF ok n' h that] by (simp add: at_leaf_def t)
  show "\<exists>mem'. t_view (at_leaf T) mem pos t = Inr (Some (on_leaf [] shown t), mem') \<and> holds mem' len out \<and>
      (in_place \<longrightarrow> segment mem' pos (pos + length (on_leaf [] shown t)) = on_leaf [] shown t)"
    if "length out \<le> pos" "pos + n \<le> len"
    using show_at [OF ok n' h that] by (simp add: at_leaf_def t)
qed

fun deep_ok :: "nat \<Rightarrow> 'v nest \<Rightarrow> bool" where
  "deep_ok 0 t \<longleftrightarrow> on_leaf False ok t"
| "deep_ok (Suc d) t \<longleftrightarrow> (\<forall>u \<in> set (kids t). t_null (nested_traits in_place T d) u \<or> deep_ok d u)"

fun deep_shown :: "nat \<Rightarrow> 'v nest \<Rightarrow> string" where
  "deep_shown 0 t = on_leaf [] shown t"
| "deep_shown (Suc d) t = array_shown (nest_kind in_place d) (nested_traits in_place T d) (deep_shown d) (kids t)"

lemma nested_unquoted: "\<not> t_unquoted T \<Longrightarrow> \<not> t_unquoted (nested_traits in_place T d)"
  by (cases d) (simp_all add: at_leaf_def array_traits_def)

lemma nested_null: "t_null (nested_traits in_place T d) t \<longleftrightarrow> d = 0 \<and> on_leaf False (t_null T) t"
  by (cases d) (simp_all add: at_leaf_def array_traits_def)

lemma nested_budgeted:
  assumes "\<not> t_unquoted T"
  shows "budgeted (nested_traits in_place T d) (deep_ok d) (deep_shown d) (0 < d \<or> in_place)"
proof (induction d)
  case 0
  have "deep_ok 0 = on_leaf False ok" "deep_shown 0 = on_leaf [] shown" by (simp_all add: fun_eq_iff)
  then show ?case using at_leaf_budgeted by simp
next
  case (Suc d)
  have "deep_ok (Suc d) = (\<lambda>t. \<forall>u \<in> set (kids t). t_null (nested_traits in_place T d) u \<or> deep_ok d u)"
    "deep_shown (Suc d) = (\<lambda>t. array_shown (nest_kind in_place d) (nested_traits in_place T d) (deep_shown d) (kids t))"
    by (simp_all add: fun_eq_iff)
  moreover from budgeted.array_budgeted [OF Suc nested_unquoted [OF assms], of "nest_kind in_place d" kids]
  have "budgeted (nested_traits in_place T (Suc d))
      (\<lambda>t. \<forall>u \<in> set (kids t). t_null (nested_traits in_place T d) u \<or> deep_ok d u)
      (\<lambda>t. array_shown (nest_kind in_place d) (nested_traits in_place T d) (deep_shown d) (kids t)) True"
    by (simp add: nest_kind_def)
  ultimately show ?case by simp
qed

lemma shaped_ok:
  "shape ns t \<Longrightarrow> ns \<noteq> [] \<Longrightarrow> \<forall>v \<in> set (leaves t). t_null T v \<or> ok v \<Longrightarrow> deep_ok (length ns) t"
proof (induction ns arbitrary: t)
  case (Cons n ns)
  then obtain ts where t: "t = Nest ts" "\<forall>u \<in> set ts. shape ns u" by auto
  show ?case
  proof (cases "ns = []")
    case True
    have "on_leaf False (t_null T) u \<or> on_leaf False ok u" if "u \<in> set ts" for u
    proof -
      from t(2) True that obtain v where "u = Leaf v" by auto
      with that t(1) Cons.prems(3) show ?thesis by force
    qed
    with True t(1) show ?thesis by (auto simp: at_leaf_def)
  next
    case False
    with t Cons show ?thesis by auto
  qed
qed simp

lemma shaped_shown: "shape ns t \<Longrightarrow> ns \<noteq> [] \<Longrightarrow> \<not> t_unquoted T \<Longrightarrow> deep_shown (length ns) t = nest_text render t"
proof (induction ns arbitrary: t)
  case (Cons n ns)
  then obtain ts where t: "t = Nest ts" "\<forall>u \<in> set ts. shape ns u" by auto
  have "elt_shown (nest_kind in_place (length ns)) (nested_traits in_place T (length ns)) (deep_shown (length ns)) u = nest_text render u"
    if "u \<in> set ts" for u
  proof (cases "ns = []")
    case True
    with t that obtain v where "u = Leaf v" by auto
    with True Cons.prems(3) show ?thesis by (simp add: elt_shown_def nest_kind_def at_leaf_def render_def)
  next
    case False
    with t that Cons show ?thesis by (simp add: elt_shown_def nest_kind_def nested_null)
  qed
  then have "map (elt_shown (nest_kind in_place (length ns)) (nested_traits in_place T (length ns)) (deep_shown (length ns))) ts =
      map (nest_text render) ts" by simp
  then show ?case by (simp add: t array_shown_def nest_kind_def del: map_eq_conv)
qed simp

theorem nested_to_string:
  assumes "shape ns t" and "ns \<noteq> []" and "\<forall>v \<in> set (leaves t). t_null T v \<or> ok v" and "\<not> t_unquoted T"
  shows "to_string (nested_traits in_place T (length ns)) t = Inr (nest_text render t)"
  using budgeted.to_string_shown [OF nested_budgeted [OF assms(4)] shaped_ok [OF assms(1-3)]] shaped_shown [OF assms(1,2,4)]
    assms(2) by (simp add: nested_null)

end

section \<open>Reading\<close>

text \<open>The field type reads a value back from its text, and has a null for a value without one.\<close>

definition reads_elt :: "'v field_type \<Rightarrow> ('v \<Rightarrow> string option) \<Rightarrow> 'v \<Rightarrow> bool" where
  "reads_elt ft r v \<longleftrightarrow> (case r v of None \<Rightarrow> null_value ft = Some v | Some s \<Rightarrow> from_string ft s = Inr v)"

lemma parse_leaf:
  assumes bt: "byte_text enc (pre @ nest_text r (Leaf v) @ c # rest)" and v: "reads_elt ft r v" and c: "c \<in> set '',}''"
  shows "parse_element enc ft (CHR '','') (pre @ nest_text r (Leaf v) @ c # rest) (length pre) =
    Inr (v, length pre + length (nest_text r (Leaf v)))"
proof (cases "r v")
  case (Some t)
  let ?b = "pre @ dquote # escape t @ dquote # c # rest"
  have bt: "byte_text enc ?b" using bt Some by (simp add: quoted_def)
  have "c \<noteq> dquote" using c special_chars by auto
  then show ?thesis
    using scan_double_quoted_escape [of "c # rest" enc pre t] parse_double_quoted_escape [of enc pre t "c # rest"] bt Some v
    by (simp add: parse_element_def quoted_def reads_elt_def)
next
  case None
  have n: "CHR ''N'' \<noteq> dquote" by (simp add: dquote_def)
  have "scan_unquoted_string enc '',}'' (pre @ ''NULL'' @ c # rest) (length pre) = Inr (length pre + 4)"
    using scan_unquoted_stop [OF c, of enc pre "''NULL''" rest] bt None by simp
  then show ?thesis using None n v by (simp add: parse_element_def segment_def reads_elt_def)
qed

lemma listed_Cons: "listed c (x # xs) = x @ (if xs = [] then [] else c # listed c xs)"
  by (cases xs) simp_all

lemma leaf_text_start: "\<exists>c cs. nest_text r (Leaf v) = c # cs \<and> c \<notin> set '',{}''"
  using special_chars by (simp add: quoted_def split: option.splits)

lemma nest_text_start: "\<exists>c cs. nest_text r t = c # cs \<and> c \<notin> set '',}''"
  using special_chars by (cases t) (auto simp: quoted_def split: option.splits)

lemma field_end_more: "c \<notin> set '',}'' \<Longrightarrow> parse_field_end (CHR '','') (pre @ CHR '','' # c # rest) (length pre) = Inr (length pre + 1)"
  by (simp add: parse_field_end_def nth_append)

lemma field_end_last: "parse_field_end sep (pre @ CHR ''}'' # rest) (length pre) = Inr (length pre)" if "sep \<noteq> CHR ''}''"
  using that by (simp add: parse_field_end_def)

lemma parse_loop_step:
  "pos_here s < length data \<Longrightarrow> parse_step enc ft dims sep data s = Inr s' \<Longrightarrow>
    parse_loop enc ft dims sep data s = parse_loop enc ft dims sep data s'"
  by (subst parse_loop.simps) simp

text \<open>
  The state of the loop where an element of level \<open>l\<close> (a sub-array or a value) begins or has just ended:
  the extents that are known are those of the array.
\<close>

definition at_level :: "nat list \<Rightarrow> nat \<Rightarrow> 'v parse_state \<Rightarrow> bool" where
  "at_level sz l s \<longleftrightarrow> 0 < l \<and> dim s = l - 1 \<and> length (extents s) = length sz \<and> length (m_extents s) = length sz \<and>
     know_extents_from s \<le> length sz \<and> (\<forall>j. know_extents_from s \<le> j \<and> j < length sz \<longrightarrow> m_extents s ! j = sz ! j)"

text \<open>\<open>n\<close> elements of level \<open>l\<close> with the values \<open>vs\<close> have been read from \<open>s\<close> to \<open>s'\<close>.\<close>

definition went :: "nat \<Rightarrow> nat \<Rightarrow> 'v list \<Rightarrow> 'v parse_state \<Rightarrow> 'v parse_state \<Rightarrow> bool" where
  "went l n vs s s' \<longleftrightarrow> elts s' = elts s @ vs \<and> extents s' ! (l - 1) = extents s ! (l - 1) + n \<and>
     (\<forall>j < l - 1. extents s' ! j = extents s ! j) \<and> (0 < n \<longrightarrow> know_extents_from s' \<le> l)"

text \<open>What the parser does with an element of level \<open>l\<close>, wherever it stands.\<close>

definition parses :: "encoding_group \<Rightarrow> 'v field_type \<Rightarrow> ('v \<Rightarrow> string option) \<Rightarrow> nat list \<Rightarrow> nat \<Rightarrow> 'v nest \<Rightarrow> bool" where
  "parses enc ft r sz l t \<longleftrightarrow> (\<forall>pre c rest h s. byte_text enc (pre @ nest_text r t @ c # rest) \<and> c \<in> set '',}'' \<and>
     at_level sz l s \<and> pos_here s = length pre \<and>
     parse_field_end (CHR '','') (pre @ nest_text r t @ c # rest) (length (pre @ nest_text r t)) = Inr h \<longrightarrow>
     (\<exists>s'. parse_loop enc ft (length sz) (CHR '','') (pre @ nest_text r t @ c # rest) s =
        parse_loop enc ft (length sz) (CHR '','') (pre @ nest_text r t @ c # rest) s' \<and>
        at_level sz l s' \<and> pos_here s' = h \<and> went l 1 (leaves t) s s'))"

lemma leaf_parses:
  fixes v :: 'v
  assumes v: "reads_elt ft r v" and dims: "0 < length sz" "length sz < npos"
  shows "parses enc ft r sz (length sz) (Leaf v)"
  unfolding parses_def
proof (intro allI impI)
  fix pre c rest h and s :: "'v parse_state"
  let ?t = "nest_text r (Leaf v)"
  let ?b = "pre @ ?t @ c # rest"
  assume a: "byte_text enc ?b \<and> c \<in> set '',}'' \<and> at_level sz (length sz) s \<and> pos_here s = length pre \<and>
    parse_field_end (CHR '','') ?b (length (pre @ ?t)) = Inr h"
  let ?s = "s\<lparr>extents := (extents s)[dim s := extents s ! dim s + 1], elts := elts s @ [v], pos_here := h\<rparr>"
  obtain x xs where x: "?t = x # xs" "x \<notin> set '',{}''"
    using leaf_text_start [of r v] by (elim exE conjE) (rule that)
  from a parse_leaf [of enc pre r v c rest ft] v have e: "parse_element enc ft (CHR '','') ?b (length pre) = Inr (v, length (pre @ ?t))"
    by simp
  have st: "?b ! length pre = x" using x(1) by simp
  have d: "dim s = length sz - 1" "dim s \<noteq> outer" using a dims by (auto simp: at_level_def outer_def)
  have f: "parse_field_end (CHR '','') ?b (length (pre @ ?t)) = Inr h" and p: "pos_here s = length pre" using a by blast+
  have "parse_step enc ft (length sz) (CHR '','') ?b s = Inr ?s"
    using e f d st x(2) by (simp add: parse_step_def array_element_def p)
  moreover have "pos_here s < length ?b" by (simp add: p)
  ultimately have "parse_loop enc ft (length sz) (CHR '','') ?b s = parse_loop enc ft (length sz) (CHR '','') ?b ?s"
    by (intro parse_loop_step) simp_all
  moreover have "at_level sz (length sz) ?s" using a by (simp add: at_level_def)
  moreover have "went (length sz) 1 (leaves (Leaf v)) s ?s"
    using a d dims by (auto simp: went_def at_level_def)
  ultimately show "\<exists>s'. parse_loop enc ft (length sz) (CHR '','') ?b s = parse_loop enc ft (length sz) (CHR '','') ?b s' \<and>
      at_level sz (length sz) s' \<and> pos_here s' = h \<and> went (length sz) 1 (leaves (Leaf v)) s s'"
    by (intro exI [of _ ?s]) simp
qed

lemma siblings_parse:
  assumes "\<forall>u \<in> set us. parses enc ft r sz l u" and "byte_text enc (pre @ listed (CHR '','') (map (nest_text r) us) @ CHR ''}'' # rest)"
    and "at_level sz l s" and "pos_here s = length pre"
  shows "\<exists>s'. parse_loop enc ft (length sz) (CHR '','') (pre @ listed (CHR '','') (map (nest_text r) us) @ CHR ''}'' # rest) s =
      parse_loop enc ft (length sz) (CHR '','') (pre @ listed (CHR '','') (map (nest_text r) us) @ CHR ''}'' # rest) s' \<and>
    at_level sz l s' \<and> pos_here s' = length (pre @ listed (CHR '','') (map (nest_text r) us)) \<and>
    went l (length us) (concat (map leaves us)) s s'"
  using assms
proof (induction us arbitrary: pre s)
  case Nil
  then show ?case by (intro exI [of _ s]) (simp add: went_def)
next
  case (Cons u us)
  let ?b = "pre @ listed (CHR '','') (map (nest_text r) (u # us)) @ CHR ''}'' # rest"
  from Cons.prems(1) have u: "parses enc ft r sz l u" by simp
  show ?case
  proof (cases us)
    case Nil
    have b: "?b = pre @ nest_text r u @ CHR ''}'' # rest" by (simp add: Nil)
    have "parse_field_end (CHR '','') (pre @ nest_text r u @ CHR ''}'' # rest) (length (pre @ nest_text r u)) =
        Inr (length (pre @ nest_text r u))"
      using field_end_last [of "CHR '',''" "pre @ nest_text r u" rest] by simp
    with u Cons.prems(2-4) Nil show ?thesis unfolding parses_def by fastforce
  next
    case (Cons w ws)
    obtain d ds where d: "nest_text r w = d # ds" "d \<notin> set '',}''"
      using nest_text_start [of r w] by (elim exE conjE) (rule that)
    let ?r = "listed (CHR '','') (map (nest_text r) us) @ CHR ''}'' # rest"
    have b: "?b = pre @ nest_text r u @ CHR '','' # ?r" by (simp add: Cons)
    obtain es where es: "?r = d # es" using d(1) by (simp add: Cons listed_Cons)
    have "parse_field_end (CHR '','') (pre @ nest_text r u @ CHR '','' # ?r) (length (pre @ nest_text r u)) =
        Inr (length (pre @ nest_text r u) + 1)"
      using field_end_more [OF d(2), of "pre @ nest_text r u" es] es by simp
    with u Cons.prems(2-4) b obtain s1 where
      s1: "parse_loop enc ft (length sz) (CHR '','') ?b s = parse_loop enc ft (length sz) (CHR '','') ?b s1"
      "at_level sz l s1" "pos_here s1 = length (pre @ nest_text r u) + 1" "went l 1 (leaves u) s s1"
      unfolding parses_def by fastforce
    have "\<forall>u \<in> set us. parses enc ft r sz l u" "byte_text enc ((pre @ nest_text r u @ '','') @ ?r)"
      "pos_here s1 = length (pre @ nest_text r u @ '','')"
      using Cons.prems(1,2) b s1(3) by simp_all
    from Cons.IH [OF this(1,2) s1(2) this(3)] obtain s2 where
      "parse_loop enc ft (length sz) (CHR '','') ?b s1 = parse_loop enc ft (length sz) (CHR '','') ?b s2"
      "at_level sz l s2" "pos_here s2 = length (pre @ listed (CHR '','') (map (nest_text r) (u # us)))"
      "went l (length us) (concat (map leaves us)) s1 s2" by (auto simp: Cons)
    with s1 Cons show ?thesis by (intro exI [of _ s2]) (auto simp: went_def)
  qed
qed

lemma close_level:
  assumes a: "at_level sz (Suc l) s" and l: "l < length sz" "length sz < npos" and e: "extents s ! l = sz ! l"
    and k: "know_extents_from s \<le> Suc l" and b: "data ! pos_here s = CHR ''}''" and f: "parse_field_end sep data (pos_here s + 1) = Inr h"
  shows "\<exists>m k'. parse_step enc ft (length sz) sep data s =
      Inr (s\<lparr>m_extents := m, know_extents_from := k', dim := roll_down l, pos_here := h\<rparr>) \<and>
    length m = length sz \<and> k' \<le> l \<and> (\<forall>j. k' \<le> j \<and> j < length sz \<longrightarrow> m ! j = sz ! j)"
proof -
  have d: "dim s = l" "l \<noteq> outer" using a l by (auto simp: at_level_def outer_def)
  have "CHR ''}'' \<noteq> CHR ''{''" by simp
  with b d f have st: "parse_step enc ft (length sz) sep data s =
      and_then (if l < know_extents_from s then Inr (s\<lparr>m_extents := (m_extents s)[l := extents s ! l], know_extents_from := l\<rparr>)
        else if extents s ! l \<noteq> m_extents s ! l then Inl (conversion_error ''Rows in array have inconsistent sizes.'')
        else Inr s) (\<lambda>s. Inr (s\<lparr>dim := roll_down (dim s), pos_here := h\<rparr>))"
    by (auto simp: parse_step_def close_brace_def)
  show ?thesis
  proof (cases "l < know_extents_from s")
    case True
    with k have kl: "know_extents_from s = Suc l" by simp
    let ?m = "(m_extents s)[l := sz ! l]"
    have "?m ! j = sz ! j" if "l \<le> j" "j < length sz" for j
      using a that kl by (cases "j = l") (auto simp: at_level_def)
    moreover have "length ?m = length sz" using a by (simp add: at_level_def)
    ultimately show ?thesis using True st e d by (intro exI [of _ ?m] exI [of _ l]) simp
  next
    case False
    then have "m_extents s ! l = sz ! l" using a l by (simp add: at_level_def)
    with False st e d a show ?thesis
      by (intro exI [of _ "m_extents s"] exI [of _ "know_extents_from s"]) (simp add: at_level_def)
  qed
qed

lemma nest_parses:
  fixes t :: "'v nest"
  assumes "shape (drop l sz) t" and "\<forall>v \<in> set (leaves t). reads_elt ft r v" and "0 < l" "l \<le> length sz"
    and "0 \<notin> set (butlast sz)" and n: "length sz < npos"
  shows "parses enc ft r sz l t"
  using assms(1-5)
proof (induction t arbitrary: l)
  case (Leaf v)
  then have "drop l sz = []" by (cases "drop l sz") auto
  with Leaf.prems(4) have "l = length sz" by simp
  with Leaf.prems leaf_parses [of ft r v sz enc] n show ?case by simp
next
  case (Nest ts)
  then have "drop l sz \<noteq> []" by auto
  then have l: "l < length sz" by simp
  then have dr: "drop l sz = sz ! l # drop (Suc l) sz" by (simp add: Cons_nth_drop_Suc)
  with Nest.prems(1) have len: "length ts = sz ! l" and sh: "\<forall>u \<in> set ts. shape (drop (Suc l) sz) u" by auto
  have kids: "\<forall>u \<in> set ts. parses enc ft r sz (Suc l) u"
    using Nest.IH [of _ "Suc l"] sh Nest.prems(2,5) l by auto
  show ?case
    unfolding parses_def
  proof (intro allI impI)
    fix pre c rest h and s :: "'v parse_state"
    let ?l = "listed (CHR '','') (map (nest_text r) ts)"
    let ?t = "nest_text r (Nest ts)"
    let ?b = "pre @ ?t @ c # rest"
    assume a: "byte_text enc ?b \<and> c \<in> set '',}'' \<and> at_level sz l s \<and> pos_here s = length pre \<and>
      parse_field_end (CHR '','') ?b (length (pre @ ?t)) = Inr h"
    have b: "?b = (pre @ ''{'') @ ?l @ CHR ''}'' # c # rest" by simp
    let ?s1 = "s\<lparr>extents := (extents s)[l - 1 := extents s ! (l - 1) + 1, l := 0], dim := l, pos_here := pos_here s + 1\<rparr>"
    have d: "dim s = l - 1" "dim s \<noteq> outer" "dim s < length sz - 1" "roll_up (dim s) = l"
      using a l n Nest.prems(3) by (auto simp: at_level_def outer_def roll_up_def)
    have "parse_step enc ft (length sz) (CHR '','') ?b s = Inr ?s1"
      using d a by (simp add: parse_step_def open_brace_def Let_def nth_append)
    then have p1: "parse_loop enc ft (length sz) (CHR '','') ?b s = parse_loop enc ft (length sz) (CHR '','') ?b ?s1"
      using a by (intro parse_loop_step) simp_all
    have a1: "at_level sz (Suc l) ?s1" using a l by (simp add: at_level_def)
    have "byte_text enc ((pre @ ''{'') @ ?l @ CHR ''}'' # c # rest)" "pos_here ?s1 = length (pre @ ''{'')" using a b by simp_all
    from siblings_parse [OF kids this(1) a1 this(2)] obtain s2 where
      p2: "parse_loop enc ft (length sz) (CHR '','') ?b ?s1 = parse_loop enc ft (length sz) (CHR '','') ?b s2"
      and a2: "at_level sz (Suc l) s2" and h2: "pos_here s2 = length ((pre @ ''{'') @ ?l)"
      and w2: "went (Suc l) (length ts) (concat (map leaves ts)) ?s1 s2" using b by auto
    have e2: "extents s2 ! l = sz ! l"
      using w2 len l a by (simp add: went_def at_level_def)
    have k2: "know_extents_from s2 \<le> Suc l"
    proof (cases "ts = []")
      case True
      with len have "sz ! l = 0" by simp
      moreover have "sz ! l \<in> set (butlast sz)" if "l < length sz - 1"
        using that nth_butlast [of l sz] nth_mem [of l "butlast sz"] by simp
      ultimately have "Suc l = length sz" using Nest.prems(5) l by (cases "l < length sz - 1") auto
      with a2 show ?thesis by (simp add: at_level_def)
    qed (use w2 in \<open>simp add: went_def\<close>)
    have "?b ! pos_here s2 = CHR ''}''" unfolding b h2 by (simp add: nth_append)
    moreover have "parse_field_end (CHR '','') ?b (pos_here s2 + 1) = Inr h" using a h2 by simp
    ultimately obtain m k' where st: "parse_step enc ft (length sz) (CHR '','') ?b s2 =
        Inr (s2\<lparr>m_extents := m, know_extents_from := k', dim := roll_down l, pos_here := h\<rparr>)"
      and m: "length m = length sz" "k' \<le> l" "\<forall>j. k' \<le> j \<and> j < length sz \<longrightarrow> m ! j = sz ! j"
      using close_level [OF a2 l n e2 k2] by blast
    let ?s3 = "s2\<lparr>m_extents := m, know_extents_from := k', dim := roll_down l, pos_here := h\<rparr>"
    have "pos_here s2 < length ?b" unfolding b h2 by simp
    with st have p3: "parse_loop enc ft (length sz) (CHR '','') ?b s2 = parse_loop enc ft (length sz) (CHR '','') ?b ?s3"
      by (intro parse_loop_step)
    have "roll_down l = l - 1" using Nest.prems(3) by (simp add: roll_down_def)
    then have "at_level sz l ?s3" using a2 m l Nest.prems(3) by (simp add: at_level_def)
    moreover have "went l 1 (leaves (Nest ts)) s ?s3"
      using w2 m(2) l a Nest.prems(3) by (auto simp: went_def at_level_def nth_list_update)
    ultimately show "\<exists>s'. parse_loop enc ft (length sz) (CHR '','') ?b s = parse_loop enc ft (length sz) (CHR '','') ?b s' \<and>
        at_level sz l s' \<and> pos_here s' = h \<and> went l 1 (leaves (Nest ts)) s s'"
      using p1 p2 p3 by (intro exI [of _ ?s3]) simp
  qed
qed

text \<open>The braces at the two ends of the text are as many as there are levels.\<close>

lemma listed_last: "xs \<noteq> [] \<Longrightarrow> \<exists>p. listed c xs = p @ last xs"
proof (induction xs rule: induct_list012)
  case (3 x y xs)
  then obtain p where "listed c (y # xs) = p @ last (y # xs)" by auto
  then show ?case by (intro exI [of _ "x @ c # p"]) simp
qed simp_all

lemma nest_text_opens:
  "shape sz t \<Longrightarrow> 0 \<notin> set (butlast sz) \<Longrightarrow> \<exists>c cs. nest_text r t = replicate (length sz) (CHR ''{'') @ c # cs \<and> c \<noteq> CHR ''{''"
proof (induction sz arbitrary: t)
  case Nil
  then obtain v where "t = Leaf v" by auto
  with leaf_text_start [of r v] show ?case by auto
next
  case (Cons n sz)
  then obtain ts where t: "t = Nest ts" "length ts = n" "\<forall>u \<in> set ts. shape sz u" by auto
  show ?case
  proof (cases ts)
    case Nil
    with t Cons.prems(2) have "sz = []" by (cases sz) auto
    with t(1) Nil show ?thesis by simp
  next
    case (Cons u us)
    have "0 \<notin> set (butlast sz)" using Cons.prems(2) by (cases sz) auto
    with Cons.IH [of u] t(3) Cons obtain c cs where
      u: "nest_text r u = replicate (length sz) (CHR ''{'') @ c # cs" "c \<noteq> CHR ''{''" by auto
    with t(1) Cons show ?thesis
      by (intro exI [of _ c] exI [of _ "cs @ (if us = [] then [] else CHR '','' # listed (CHR '','') (map (nest_text r) us)) @ ''}''"])
        (simp add: listed_Cons)
  qed
qed

lemma nest_text_closes: "shape sz t \<Longrightarrow> 0 \<notin> set (butlast sz) \<Longrightarrow> \<exists>cs. nest_text r t = cs @ replicate (length sz) (CHR ''}'')"
proof (induction sz arbitrary: t)
  case (Cons n sz)
  then obtain ts where t: "t = Nest ts" "length ts = n" "\<forall>u \<in> set ts. shape sz u" by auto
  show ?case
  proof (cases "ts = []")
    case True
    with t Cons.prems(2) have "sz = []" by (cases sz) auto
    with t(1) True show ?thesis by simp
  next
    case False
    have "0 \<notin> set (butlast sz)" using Cons.prems(2) by (cases sz) auto
    with Cons.IH [of "last ts"] t(3) False obtain cs where u: "nest_text r (last ts) = cs @ replicate (length sz) (CHR ''}'')" by auto
    obtain p where "listed (CHR '','') (map (nest_text r) ts) = p @ nest_text r (last ts)"
      using listed_last [of "map (nest_text r) ts"] False by (auto simp: last_map)
    with u t(1) show ?thesis by (intro exI [of _ "CHR ''{'' # p @ cs"]) (simp flip: replicate_append_same)
  qed
qed simp

lemma nest_text_size: "shape sz t \<Longrightarrow> 0 \<notin> set (butlast sz) \<Longrightarrow> 2 * length sz \<le> length (nest_text r t)"
proof (induction sz arbitrary: t)
  case (Cons n sz)
  then obtain ts where t: "t = Nest ts" "length ts = n" "\<forall>u \<in> set ts. shape sz u" by auto
  show ?case
  proof (cases ts)
    case Nil
    with t Cons.prems(2) have "sz = []" by (cases sz) auto
    with t(1) Nil show ?thesis by simp
  next
    case (Cons u us)
    have "0 \<notin> set (butlast sz)" using Cons.prems(2) by (cases sz) auto
    with Cons.IH [of u] t Cons show ?thesis by (simp add: listed_Cons)
  qed
qed simp

lemma nest_text_dims:
  assumes "shape sz t" and "sz \<noteq> []" and z: "0 \<notin> set (butlast sz)"
  shows "check_dims (length sz) (nest_text r t) = Inr ()"
proof -
  let ?b = "nest_text r t" and ?d = "length sz"
  obtain c cs where o: "?b = replicate ?d (CHR ''{'') @ c # cs" "c \<noteq> CHR ''{''" using nest_text_opens [OF assms(1) z] by blast
  obtain ds where e: "?b = ds @ replicate ?d (CHR ''}'')" using nest_text_closes [OF assms(1) z] by blast
  have first: "?b ! i = CHR ''{''" if "i < ?d" for i using that by (simp add: o(1) nth_append)
  have last: "?b ! (length ?b - 1 - i) = CHR ''}''" if "i < ?d" for i
    using that unfolding e by (simp add: nth_append) (use that in auto)
  have "find (\<lambda>i. ?b ! i \<noteq> CHR ''{'') [0..<?d] = None" using first by (simp add: find_None_iff)
  moreover have "find (\<lambda>i. ?b ! (length ?b - 1 - i) \<noteq> CHR ''}'') [0..<?d] = None" using last by (simp add: find_None_iff)
  moreover have "?b ! ?d = c" by (simp add: o(1) nth_append)
  moreover have "\<not> length ?b < ?d * 2" using nest_text_size [OF assms(1) z, of r] by simp
  moreover have "?b ! 0 = CHR ''{''" using first assms(2) by simp
  ultimately show ?thesis using o(2) by (simp add: check_dims_def Let_def)
qed

lemma nest_parsed:
  fixes t :: "'v nest"
  assumes sh: "shape sz t" and ne: "sz \<noteq> []" and z: "0 \<notin> set (butlast sz)" and n: "length sz < npos"
    and v: "\<forall>v \<in> set (leaves t). reads_elt ft r v" and bt: "byte_text enc (nest_text r t)"
  shows "parse_array enc ft (length sz) (CHR '','') (nest_text r t) =
    Inr \<lparr>m_elts = leaves t, sizes = sz, m_factors = init_factors sz\<rparr>"
proof -
  let ?b = "nest_text r t" and ?loop = "parse_loop enc ft (length sz) (CHR '','') (nest_text r t)"
  from sh ne obtain m ns ts where sz: "sz = m # ns" and t: "t = Nest ts" "length ts = m" "\<forall>u \<in> set ts. shape ns u"
    by (cases sz) auto
  let ?l = "listed (CHR '','') (map (nest_text r) ts)"
  have b: "?b = ''{'' @ ?l @ CHR ''}'' # []" by (simp add: t(1))
  have "\<forall>u \<in> set ts. parses enc ft r sz 1 u"
    using nest_parses [of 1 sz _ ft r enc] t v z n by (simp add: sz)
  note kids = this
  let ?s = "start_state (length sz) :: 'v parse_state"
  let ?s1 = "?s\<lparr>extents := (extents ?s)[0 := 0], dim := 0, pos_here := 1\<rparr>"
  have "parse_step enc ft (length sz) (CHR '','') ?b ?s = Inr ?s1"
    by (simp add: b parse_step_def open_brace_def start_state_def outer_def roll_up_def Let_def)
  then have p1: "?loop ?s = ?loop ?s1" by (intro parse_loop_step) (simp_all add: start_state_def b)
  have a1: "at_level sz 1 ?s1" by (simp add: at_level_def start_state_def)
  have "byte_text enc (''{'' @ ?l @ CHR ''}'' # [])" "pos_here ?s1 = length ''{''" using bt b by simp_all
  from siblings_parse [OF kids this(1) a1 this(2)] obtain s2 where p2: "?loop ?s1 = ?loop s2"
    and a2: "at_level sz 1 s2" and h2: "pos_here s2 = length (''{'' @ ?l)"
    and w2: "went 1 (length ts) (concat (map leaves ts)) ?s1 s2" unfolding b by auto
  have e2: "extents s2 ! 0 = sz ! 0" using w2 t(2) by (simp add: went_def sz start_state_def)
  have k2: "know_extents_from s2 \<le> Suc 0"
  proof (cases "ts = []")
    case True
    with t(2) z have "ns = []" by (cases ns) (auto simp: sz)
    with a2 show ?thesis by (simp add: at_level_def sz)
  qed (use w2 in \<open>simp add: went_def\<close>)
  have "?b ! pos_here s2 = CHR ''}''" unfolding b h2 by (simp add: nth_append)
  moreover have "parse_field_end (CHR '','') ?b (pos_here s2 + 1) = Inr (length ?b)"
    using h2 b by (simp add: parse_field_end_def)
  moreover have "0 < length sz" using ne by simp
  ultimately obtain x k' where st: "parse_step enc ft (length sz) (CHR '','') ?b s2 =
      Inr (s2\<lparr>m_extents := x, know_extents_from := k', dim := roll_down 0, pos_here := length ?b\<rparr>)"
    and x: "length x = length sz" "k' \<le> 0" "\<forall>j. k' \<le> j \<and> j < length sz \<longrightarrow> x ! j = sz ! j"
    using close_level [of sz 0 s2 ?b "CHR '',''" "length ?b" enc ft] a2 e2 k2 n by auto
  have "x = sz" using x by (intro nth_equalityI) auto
  have "pos_here s2 < length ?b" unfolding b h2 by simp
  with st have "?loop s2 = ?loop (s2\<lparr>m_extents := x, know_extents_from := k', dim := roll_down 0, pos_here := length ?b\<rparr>)"
    by (intro parse_loop_step)
  also have "\<dots> = Inr (s2\<lparr>m_extents := x, know_extents_from := k', dim := roll_down 0, pos_here := length ?b\<rparr>)"
    by (subst parse_loop.simps) simp
  finally have "?loop ?s = Inr (s2\<lparr>m_extents := sz, know_extents_from := 0, dim := outer, pos_here := length ?b\<rparr>)"
    using p1 p2 x(2) \<open>x = sz\<close> by (simp add: roll_down_def outer_def)
  moreover have "elts s2 = leaves t" using w2 t(1) by (simp add: went_def start_state_def)
  ultimately show ?thesis
    using nest_text_dims [OF sh ne z, of r] by (simp add: parse_array_def)
qed

section \<open>Round trip\<close>

text \<open>The element type of \<open>pqxx::array\<close>, by its conversion and its null value.\<close>

definition element_type :: "'v traits \<Rightarrow> 'v option \<Rightarrow> 'v field_type" where
  "element_type T null =
     \<lparr>null_value = null, type_name = t_name T,
      from_string = (case t_parse T of None \<Rightarrow> \<lambda>s. Inl (conversion_error s) | Some from \<Rightarrow> from)\<rparr>"

lemma render_optional [simp]: "optional_string_elt.render = (\<lambda>v. v)"
  unfolding optional_string_elt.render_def
  by (auto simp: fun_eq_iff optional_traits_def optional_null_def std_string_traits_def split: option.splits)

lemma optional_to_string:
  assumes "shape sz t" and "sz \<noteq> []"
  shows "to_string (nested_traits True (optional_traits std_string_traits) (length sz)) t = Inr (nest_text (\<lambda>v. v) t)"
proof -
  have "\<forall>v \<in> set (leaves t). t_null (optional_traits std_string_traits) v \<or> (\<exists>w. v = Some w \<and> True)"
    by (auto simp: optional_traits_def optional_null_def split: option.splits)
  moreover have "\<not> t_unquoted (optional_traits std_string_traits)" by (simp add: optional_traits_def std_string_traits_def)
  ultimately show ?thesis using optional_string_elt.nested_to_string [OF assms] by simp
qed

lemma reads_optional: "reads_elt (element_type (optional_traits std_string_traits) (Some None)) (\<lambda>v. v) v"
  by (simp add: reads_elt_def element_type_def optional_traits_def std_string_traits_def parse_some_def split: option.splits)

text \<open>
  C23. Containers of containers of optional strings, of any depth, are written and read back as
  multi-dimensional arrays: if every level has the same number of elements throughout (and only the
  innermost may have none), then to_string finishes without an error, in the space that size_buffer computes
  level by level, and the parser with as many dimensions gives the same elements in row-major order, nulls
  included, with the number of elements of each level as the sizes and the factors that belong to them,
  whatever quotes, backslashes, separators and braces the strings hold.  The text is read byte by byte: it is
  ASCII or in an encoding of single bytes.
\<close>
theorem nested_array_roundtrip:
  assumes "shape sz t" and "sz \<noteq> []" and "0 \<notin> set (butlast sz)" and "length sz < npos"
  shows "\<exists>s. to_string (nested_traits True (optional_traits std_string_traits) (length sz)) t = Inr s \<and>
    (byte_text enc s \<longrightarrow>
       parse_array enc (element_type (optional_traits std_string_traits) (Some None)) (length sz) (CHR '','') s =
         Inr \<lparr>m_elts = leaves t, sizes = sz, m_factors = init_factors sz\<rparr>)"
  using optional_to_string [OF assms(1,2)] reads_optional
    nest_parsed [OF assms, of "element_type (optional_traits std_string_traits) (Some None)" "\<lambda>v. v" enc] by blast

text \<open>Two rows of two, with a null, a quote, a brace and the string \<open>NULL\<close>.\<close>

theorem nested_array_roundtrip_witness:
  "\<exists>s. to_string (nested_traits True (optional_traits std_string_traits) 2)
      (Nest [Nest [Leaf (Some ''NULL''), Leaf None], Nest [Leaf (Some [dquote, CHR '','']), Leaf (Some ''}'')]]) = Inr s \<and>
    parse_array UTF8 (element_type (optional_traits std_string_traits) (Some None)) 2 (CHR '','') s =
      Inr \<lparr>m_elts = [Some ''NULL'', None, Some [dquote, CHR '',''], Some ''}''], sizes = [2, 2], m_factors = init_factors [2, 2]\<rparr>"
proof -
  let ?t = "Nest [Nest [Leaf (Some ''NULL''), Leaf None], Nest [Leaf (Some [dquote, CHR '','']), Leaf (Some ''}'')]]"
  have sh: "shape [2, 2] ?t" "[2, 2 :: nat] \<noteq> []" "0 \<notin> set (butlast [2, 2 :: nat])" "length [2, 2 :: nat] < npos"
    and l: "length [2, 2 :: nat] = 2" by (simp_all add: npos_def)
  from nested_array_roundtrip [OF sh, of UTF8, unfolded l] obtain s where
    s: "to_string (nested_traits True (optional_traits std_string_traits) 2) ?t = Inr s"
    "byte_text UTF8 s \<longrightarrow> parse_array UTF8 (element_type (optional_traits std_string_traits) (Some None)) 2 (CHR '','') s =
      Inr \<lparr>m_elts = leaves ?t, sizes = [2, 2], m_factors = init_factors [2, 2]\<rparr>" by blast
  from optional_to_string [OF sh(1,2), unfolded l]
  have "s = nest_text (\<lambda>v. v) ?t" using s(1) by simp
  moreover have "byte_text UTF8 (nest_text (\<lambda>v. v) ?t)" by (rule byte_text_small) code_simp+
  ultimately show ?thesis using s by auto
qed

text \<open>
  An array without elements is written by the server as a pair of braces, whatever its dimensions; with more
  than one dimension the parser does not take it.
\<close>

lemma empty_array_dims: "1 < dims \<Longrightarrow> \<exists>m. parse_array enc ft dims sep ''{}'' = Inl (conversion_error m)"
  by (simp add: parse_array_def check_dims_def)

end
