(* ===== verification/Pqxx_Special_Types.thy ===== *)
theory Pqxx_Special_Types
  imports Pqxx_Array_Any
begin

text \<open>
  The remaining specialisations of \<open>string_traits\<close> in \<open>pqxx/internal/conversions.hxx\<close>: the types that are
  always null, string streams, containers of bytes, and the formats of containers as parameters.
\<close>

section \<open>Types that are always null\<close>

text \<open>
  The values of these types are all the same.  Their \<open>into_buf\<close> is deleted, so that no code can call it;
  \<open>to_buf\<close> shows the null view.
\<close>

definition nullptr_traits :: "unit traits" where
  "nullptr_traits =
     \<lparr>t_name = ''std::nullptr_t'', t_null = \<lambda>v. True, t_size = \<lambda>v. Inr 0, t_into = \<lambda>mem begin v. Inl no_return,
      t_view = \<lambda>mem begin v. Inr (None, mem), t_parse = None, t_unquoted = True, t_format = \<lambda>v. Inr Text_format\<rparr>"

definition nullopt_traits :: "unit traits" where
  "nullopt_traits =
     \<lparr>t_name = ''std::nullopt_t'', t_null = \<lambda>v. True, t_size = \<lambda>v. Inr 0, t_into = \<lambda>mem begin v. Inl no_return,
      t_view = \<lambda>mem begin v. Inr (None, mem), t_parse = None, t_unquoted = False, t_format = \<lambda>v. Inr Text_format\<rparr>"

definition monostate_traits :: "unit traits" where
  "monostate_traits =
     \<lparr>t_name = ''std::monostate'', t_null = \<lambda>v. True, t_size = \<lambda>v. Inr 0, t_into = \<lambda>mem begin v. Inl no_return,
      t_view = \<lambda>mem begin v. Inr (None, mem), t_parse = None, t_unquoted = False, t_format = \<lambda>v. Inr Text_format\<rparr>"

lemma nulls_have_no_string:
  "T \<in> {nullptr_traits, nullopt_traits, monostate_traits} \<Longrightarrow> \<exists>m. to_string T v = Inl (conversion_error m)"
  by (auto simp: to_string_def nullptr_traits_def nullopt_traits_def monostate_traits_def)

text \<open>
  No value of them has a text, so they have the contract of an element: an array of them is a list of nulls.
\<close>

interpretation nullopt_elt: budgeted nullopt_traits "\<lambda>v. False" "\<lambda>v. []" False
  by unfold_locales simp_all

interpretation monostate_elt: budgeted monostate_traits "\<lambda>v. False" "\<lambda>v. []" False
  by unfold_locales simp_all

definition plain_kind :: array_kind where
  "plain_kind = \<lparr>ak_nested = False, ak_in_place = False, ak_sep = CHR '',''\<rparr>"

lemma array_of_monostate:
  "to_string (array_traits plain_kind monostate_traits (\<lambda>vs. vs)) vs =
    Inr (''{'' @ listed (CHR '','') (replicate (length vs) ''NULL'') @ ''}'')"
proof -
  have n: "t_null monostate_traits v" for v by (simp add: monostate_traits_def)
  have "budgeted (array_traits plain_kind monostate_traits (\<lambda>vs. vs)) (\<lambda>vs. \<forall>v \<in> set vs. t_null monostate_traits v \<or> False)
      (\<lambda>vs. array_shown plain_kind monostate_traits (\<lambda>v. []) vs) True"
    by (rule monostate_elt.array_budgeted) (simp_all add: monostate_traits_def plain_kind_def)
  from budgeted.to_string_shown [OF this, of vs] n
  have "to_string (array_traits plain_kind monostate_traits (\<lambda>vs. vs)) vs = Inr (array_shown plain_kind monostate_traits (\<lambda>v. []) vs)"
    by (simp add: array_traits_def)
  moreover have "map (elt_shown plain_kind monostate_traits (\<lambda>v. [])) vs = replicate (length vs) ''NULL''"
    by (induction vs) (simp_all add: elt_shown_def n)
  ultimately show ?thesis by (simp add: array_shown_def plain_kind_def)
qed

text \<open>Null pointers count as elements that need no quotes, and two of them overrun the buffer.\<close>

lemma array_of_nullptr:
  "to_string (array_traits plain_kind nullptr_traits (\<lambda>vs. vs)) [(), ()] = Inl (write_out_of_bounds 9)"
  by code_simp

section \<open>String streams\<close>

text \<open>
  A string stream is read from a text, and converted through its contents; the conversions to a buffer are
  deleted.  \<open>stream_to_string\<close> and \<open>from_stream\<close> are the functions for streams.
\<close>

definition stringstream_from_string :: "string \<Rightarrow> pqxx_error + string" where
  "stringstream_from_string s = Inr ([] @ s)"

definition stream_to_string :: "string \<Rightarrow> pqxx_error + string" where
  "stream_to_string contents = Inr contents"

definition from_stream :: "'v traits \<Rightarrow> string \<Rightarrow> pqxx_error + 'v" where
  "from_stream T contents = (case t_parse T of None \<Rightarrow> Inl no_return | Some parse \<Rightarrow> parse contents)"

context reading
begin

lemma from_stream_text: "ok v \<Longrightarrow> from_stream T (shown v) = Inr v"
  by (simp add: from_stream_def parser parses_back)

end

lemma stringstream_roundtrip: "and_then (stringstream_from_string s) stream_to_string = Inr s"
  by (simp add: stringstream_from_string_def stream_to_string_def)

section \<open>Containers of bytes\<close>

text \<open>Any contiguous range of bytes is converted like the library's own type, and is a binary parameter.\<close>

definition binary_data_into :: "compiled \<Rightarrow> string \<Rightarrow> nat \<Rightarrow> string \<Rightarrow> pqxx_error + nat \<times> string" where
  "binary_data_into c mem begin b =
     (let budget = size_esc_bin (length b) in
      if length mem - begin < budget then Inl (conversion_overrun ''Not enough buffer space to escape binary data.'')
      else and_then (bin_into c b mem begin) (\<lambda>mem. Inr (begin + budget, mem)))"

definition binary_data_from_string :: "compiled \<Rightarrow> string \<Rightarrow> pqxx_error + string" where
  "binary_data_from_string c s =
     (let n = size_unesc_bin (length s) in if n > 2 ^ 63 - 2 then Inl length_error else bin_parse c s)"

definition binary_data_traits :: "compiled \<Rightarrow> string traits" where
  "binary_data_traits c =
     \<lparr>t_name = ''binary'', t_null = \<lambda>b. False, t_size = \<lambda>b. Inr (size_esc_bin (length b)), t_into = binary_data_into c,
      t_view = through_buf (\<lambda>b. False) (binary_data_into c), t_parse = Some (binary_data_from_string c), t_unquoted = False,
      t_format = \<lambda>b. Inr Binary_format\<rparr>"

lemma binary_data_as_bytes:
  "binary_data_into c = binary_into c" "binary_data_from_string c = bytes_from_string c"
  by (auto simp: fun_eq_iff binary_data_into_def binary_into_def binary_data_from_string_def bytes_from_string_def Let_def)

lemma binary_data_contract:
  assumes "compiled_ok c"
  shows "reading (binary_data_traits c) fits_memory bin_text (binary_data_from_string c)"
proof -
  have "binary_data_traits c = (bytes_traits c)\<lparr>t_name := ''binary''\<rparr>"
    by (simp add: binary_data_traits_def bytes_traits_def binary_data_as_bytes)
  with bytes_traits_contract [OF assms] show ?thesis
    by (simp add: reading_def reading_axioms_def conversion_unfold binary_data_as_bytes)
qed

section \<open>Formats of containers\<close>

text \<open>\<open>is_byte\<close> says that the elements are bytes.\<close>

definition vector_format :: "bool \<Rightarrow> param_format" where
  "vector_format is_byte = (if is_byte then Binary_format else Text_format)"

definition span_format :: "bool \<Rightarrow> param_format" where
  "span_format is_byte = (if is_byte then Binary_format else Text_format)"

definition fixed_array_format :: "bool \<Rightarrow> param_format" where
  "fixed_array_format is_byte = (if is_byte then Binary_format else Text_format)"

end
