(* ===== verification/Pqxx_Views.thy ===== *)
theory Pqxx_Views
  imports Pqxx_Composite Pqxx_Util
begin

text \<open>
  Small types of the database client that look at memory: the views of \<open>pqxx/zview.hxx\<close> that end in a zero,
  the operations on bytes and digits of \<open>pqxx/util.hxx\<close> and \<open>pqxx/internal/conversions.hxx\<close>.
\<close>

section \<open>Views with a zero behind them\<close>

text \<open>
  A view is the memory from its pointer to the end of the object it points into (\<open>None\<close> for a null pointer),
  and its length.  The constructors from a pointer and a length and from a \<open>std::string_view\<close> take the caller's
  word that there is a zero behind the text.  A length is converted to \<open>size_t\<close>.
\<close>

record zview =
  z_memory :: "string option"
  z_len :: nat

definition zview_default :: zview where
  "zview_default = \<lparr>z_memory = None, z_len = 0\<rparr>"

definition zview_sized :: "string option \<Rightarrow> int \<Rightarrow> zview" where
  "zview_sized memory len = \<lparr>z_memory = memory, z_len = nat (len mod 2 ^ 64)\<rparr>"

definition zview_wrap :: "string option \<Rightarrow> nat \<Rightarrow> zview" where
  "zview_wrap memory len = \<lparr>z_memory = memory, z_len = len\<rparr>"

definition zview_string :: "string \<Rightarrow> zview" where
  "zview_string s = \<lparr>z_memory = Some (s @ [CHR 0x00]), z_len = length s\<rparr>"

text \<open>From a pointer alone the length is that of the C string; without a zero that reads past the object.\<close>

definition zview_c_string :: "string option \<Rightarrow> pqxx_error + zview" where
  "zview_c_string p =
     (case p of
        None \<Rightarrow> Inl (read_out_of_bounds 0)
      | Some memory \<Rightarrow>
          (if CHR 0x00 \<in> set memory then Inr \<lparr>z_memory = Some memory, z_len = length (c_str memory)\<rparr>
           else Inl (read_out_of_bounds (length memory))))"

text \<open>From a literal, which is an array whose last place holds the zero, and by the suffix for literals.\<close>

definition zview_literal :: "string \<Rightarrow> zview" where
  "zview_literal literal = zview_sized (Some literal) (int (length literal) - 1)"

definition zview_suffix :: "string \<Rightarrow> nat \<Rightarrow> zview" where
  "zview_suffix literal len = zview_sized (Some literal) (int len)"

definition zview_pointer :: "zview \<Rightarrow> string option" where
  "zview_pointer z = z_memory z"

text \<open>\<open>as_c_string\<close> of a pointer, a view and a string.\<close>

definition pointer_as_c_string :: "string option \<Rightarrow> string option" where
  "pointer_as_c_string p = p"

definition zview_as_c_string :: "zview \<Rightarrow> string option" where
  "zview_as_c_string z = zview_pointer z"

definition string_as_c_string :: "string \<Rightarrow> string option" where
  "string_as_c_string s = Some (s @ [CHR 0x00])"

text \<open>The text of a view, and the promise of the type: a zero directly behind it.\<close>

definition zview_text :: "zview \<Rightarrow> string" where
  "zview_text z = (case z_memory z of None \<Rightarrow> [] | Some memory \<Rightarrow> take (z_len z) memory)"

definition terminated :: "zview \<Rightarrow> bool" where
  "terminated z \<longleftrightarrow> (\<exists>memory. z_memory z = Some memory \<and> z_len z < length memory \<and> memory ! z_len z = CHR 0x00)"

lemma zview_string_ok: "terminated (zview_string s)" "zview_text (zview_string s) = s"
  by (simp_all add: terminated_def zview_string_def zview_text_def)

lemma zview_c_string_ok:
  assumes "zview_c_string p = Inr z"
  shows "terminated z" and "\<exists>memory. p = Some memory \<and> zview_text z = c_str memory"
proof -
  from assms obtain memory where p: "p = Some memory" and zero: "CHR 0x00 \<in> set memory"
    and z: "z = \<lparr>z_memory = Some memory, z_len = length (c_str memory)\<rparr>"
    by (auto simp: zview_c_string_def split: option.splits if_splits)
  from zero obtain a b where m: "memory = a @ CHR 0x00 # b" "CHR 0x00 \<notin> set a" by (meson split_list_first)
  have "c_str memory = a" unfolding c_str_def m(1)
    using m(2) by (subst takeWhile_append2) (auto simp: in_set_conv_decomp)
  with m(1) z p show "terminated z" "\<exists>memory. p = Some memory \<and> zview_text z = c_str memory"
    by (simp_all add: terminated_def zview_text_def)
qed

lemma zview_literal_ok:
  "length s < 2 ^ 64 \<Longrightarrow> terminated (zview_literal (s @ [CHR 0x00])) \<and> zview_text (zview_literal (s @ [CHR 0x00])) = s"
  by (simp add: terminated_def zview_literal_def zview_sized_def zview_text_def nat_mod_as_int)

lemma zview_suffix_ok:
  "length s < 2 ^ 64 \<Longrightarrow> zview_suffix (s @ [CHR 0x00]) (length s) = zview_literal (s @ [CHR 0x00])"
  by (simp add: zview_suffix_def zview_literal_def)

text \<open>The C string of a terminated view is its text, if the text holds no zero.\<close>

lemma terminated_c_string:
  assumes "terminated z" and "CHR 0x00 \<notin> set (zview_text z)"
  shows "\<exists>memory. zview_as_c_string z = Some memory \<and> c_str memory = zview_text z"
proof -
  from assms(1) obtain memory where m: "z_memory z = Some memory" "z_len z < length memory" "memory ! z_len z = CHR 0x00"
    by (auto simp: terminated_def)
  have "memory = take (z_len z) memory @ CHR 0x00 # drop (Suc (z_len z)) memory" using m(2,3) id_take_nth_drop by metis
  moreover have t: "zview_text z = take (z_len z) memory" by (simp add: zview_text_def m(1))
  ultimately have "c_str memory = takeWhile (\<lambda>c. c \<noteq> CHR 0x00) (zview_text z @ CHR 0x00 # drop (Suc (z_len z)) memory)"
    by (metis c_str_def)
  also have "\<dots> = zview_text z" using assms(2) by (subst takeWhile_append2) auto
  finally show ?thesis by (simp add: zview_as_c_string_def zview_pointer_def m(1))
qed

text \<open>A view made from a part of a text, or by default, need not be terminated.\<close>

lemma unterminated_views: "\<not> terminated zview_default" "\<not> terminated (zview_wrap (Some ''ab'') 1)"
  by (simp_all add: terminated_def zview_default_def zview_wrap_def)

section \<open>Bytes as characters\<close>

text \<open>
  \<open>byte_char_traits\<close>, over \<open>memcmp\<close>, \<open>memchr\<close>, \<open>memmove\<close>, \<open>memcpy\<close> and \<open>memset\<close>.  Of the result of \<open>memcmp\<close>
  only the sign is specified.  Reading or writing outside the memory is an error; source and
  destination of \<open>memcpy\<close> are different objects.
\<close>

definition byte_eq :: "char \<Rightarrow> char \<Rightarrow> bool" where
  "byte_eq a b \<longleftrightarrow> byte_of a = byte_of b"

definition byte_lt :: "char \<Rightarrow> char \<Rightarrow> bool" where
  "byte_lt a b \<longleftrightarrow> byte_of a < byte_of b"

fun byte_order :: "string \<Rightarrow> string \<Rightarrow> int" where
  "byte_order (x # xs) (y # ys) =
     (if byte_of x = byte_of y then byte_order xs ys else if byte_of x < byte_of y then - 1 else 1)"
| "byte_order xs ys = 0"

definition bytes_compare :: "string \<Rightarrow> string \<Rightarrow> nat \<Rightarrow> pqxx_error + int" where
  "bytes_compare a b n =
     (if length a < n then Inl (read_out_of_bounds (length a))
      else if length b < n then Inl (read_out_of_bounds (length b))
      else Inr (byte_order (take n a) (take n b)))"

fun bytes_find :: "string \<Rightarrow> nat \<Rightarrow> nat \<Rightarrow> char \<Rightarrow> pqxx_error + nat option" where
  "bytes_find data i 0 c = Inr None"
| "bytes_find data i (Suc n) c =
     (if \<not> i < length data then Inl (read_out_of_bounds i)
      else if byte_of (data ! i) = byte_of c then Inr (Some i) else bytes_find data (Suc i) n c)"

definition bytes_move :: "string \<Rightarrow> nat \<Rightarrow> nat \<Rightarrow> nat \<Rightarrow> pqxx_error + string" where
  "bytes_move mem dest src n =
     (if length mem < src + n then Inl (read_out_of_bounds (length mem)) else copy_to mem dest (segment mem src (src + n)))"

definition bytes_copy :: "string \<Rightarrow> nat \<Rightarrow> string \<Rightarrow> nat \<Rightarrow> pqxx_error + string" where
  "bytes_copy mem dest src n = (if length src < n then Inl (read_out_of_bounds (length src)) else copy_to mem dest (take n src))"

definition bytes_assign :: "string \<Rightarrow> nat \<Rightarrow> nat \<Rightarrow> char \<Rightarrow> pqxx_error + string" where
  "bytes_assign mem dest n c = copy_to mem dest (replicate n c)"

definition to_char_type :: "int \<Rightarrow> char" where
  "to_char_type i = char_of (nat (i mod 256))"

definition to_int_type :: "char \<Rightarrow> int" where
  "to_int_type c = int (byte_of c)"

definition eq_int_type :: "int \<Rightarrow> int \<Rightarrow> bool" where
  "eq_int_type a b \<longleftrightarrow> a = b"

lemma char_int_roundtrip: "to_char_type (to_int_type c) = c"
  by (simp add: to_char_type_def to_int_type_def byte_of_def)

lemma eq_int_type_byte: "eq_int_type (to_int_type a) (to_int_type b) \<longleftrightarrow> byte_eq a b"
  by (simp add: eq_int_type_def to_int_type_def byte_eq_def)

text \<open>The comparison is the lexicographic one by \<open>byte_lt\<close>: zero for equal bytes, and antisymmetric.\<close>

lemma byte_order_zero: "length a = length b \<Longrightarrow> byte_order a b = 0 \<longleftrightarrow> a = b"
  by (induction a b rule: byte_order.induct) auto

lemma byte_order_swap: "byte_order b a = - byte_order a b"
  by (induction a b rule: byte_order.induct) auto

lemma byte_order_less:
  "length a = length b \<Longrightarrow> byte_order a b < 0 \<longleftrightarrow>
    (\<exists>i < length a. take i a = take i b \<and> byte_lt (a ! i) (b ! i))"
proof (induction a b rule: byte_order.induct)
  case (1 x xs y ys)
  show ?case
  proof (cases "x = y")
    case True
    with 1 have "byte_order (x # xs) (y # ys) < 0 \<longleftrightarrow> (\<exists>i < length xs. take i xs = take i ys \<and> byte_lt (xs ! i) (ys ! i))" by simp
    also have "\<dots> \<longleftrightarrow> (\<exists>i < length (x # xs). take i (x # xs) = take i (y # ys) \<and> byte_lt ((x # xs) ! i) ((y # ys) ! i))" (is "?l \<longleftrightarrow> ?r")
    proof
      assume ?l
      then obtain i where "i < length xs" "take i xs = take i ys" "byte_lt (xs ! i) (ys ! i)" by blast
      with True show ?r by (intro exI [of _ "Suc i"]) simp
    next
      assume ?r
      then obtain i where i: "i < length (x # xs)" "take i (x # xs) = take i (y # ys)" "byte_lt ((x # xs) ! i) ((y # ys) ! i)" by blast
      with True show ?l by (cases i) (auto simp: byte_lt_def)
    qed
    finally show ?thesis .
  next
    case False
    have "(\<exists>i < length (x # xs). take i (x # xs) = take i (y # ys) \<and> byte_lt ((x # xs) ! i) ((y # ys) ! i)) \<longleftrightarrow> byte_lt x y" (is "?r \<longleftrightarrow> _")
    proof
      assume ?r
      then obtain i where "take i (x # xs) = take i (y # ys)" "byte_lt ((x # xs) ! i) ((y # ys) ! i)" by blast
      with False show "byte_lt x y" by (cases i) auto
    next
      assume "byte_lt x y"
      then show ?r by (intro exI [of _ 0]) simp
    qed
    with False show ?thesis by (simp add: byte_lt_def)
  qed
qed auto

lemma bytes_compare_equal:
  "n \<le> length a \<Longrightarrow> n \<le> length b \<Longrightarrow> bytes_compare a b n = Inr 0 \<longleftrightarrow> take n a = take n b"
  by (simp add: bytes_compare_def byte_order_zero)

text \<open>The search gives the first place.\<close>

lemma bytes_find_spec:
  "i + n \<le> length data \<Longrightarrow> bytes_find data i n c =
    Inr (if c \<in> set (segment data i (i + n)) then Some (i + length (takeWhile (\<lambda>d. d \<noteq> c) (segment data i (i + n)))) else None)"
proof (induction n arbitrary: i)
  case (Suc n)
  have s: "segment data i (i + Suc n) = data ! i # segment data (Suc i) (Suc i + n)"
    using Suc.prems by (simp add: segment_def flip: Cons_nth_drop_Suc)
  show ?case
  proof (cases "data ! i = c")
    case True
    with Suc.prems s show ?thesis by simp
  next
    case False
    with Suc.prems Suc.IH [of "Suc i"] s show ?thesis by auto
  qed
qed (simp add: segment_def)

text \<open>The places of a memory after a text has been copied into it.\<close>

lemma copy_to_within:
  "i + length s \<le> length mem \<Longrightarrow> copy_to mem i s = Inr (take i mem @ s @ drop (i + length s) mem)"
proof (induction s arbitrary: mem i)
  case (Cons c s)
  have "copy_to (mem[i := c]) (Suc i) s = Inr (take (Suc i) (mem[i := c]) @ s @ drop (Suc i + length s) (mem[i := c]))"
    using Cons.prems by (intro Cons.IH) simp
  moreover have "take (Suc i) (mem[i := c]) = take i mem @ [c]" using Cons.prems by (simp add: take_Suc_conv_app_nth)
  ultimately show ?case using Cons.prems by (simp add: put_def)
qed simp

text \<open>A move within a memory takes the bytes as they were, also where the two places overlap.\<close>

lemma bytes_move_overlap:
  assumes "src + n \<le> length mem" and "dest + n \<le> length mem"
  shows "\<exists>mem'. bytes_move mem dest src n = Inr mem' \<and> length mem' = length mem \<and>
    segment mem' dest (dest + n) = segment mem src (src + n)"
  using assms copy_to_within [of dest "segment mem src (src + n)" mem]
  by (simp add: bytes_move_def length_segment) (simp add: segment_def)

section \<open>Digits, concatenation, sizes\<close>

text \<open>A \<open>char\<close> is signed.\<close>

definition number_to_digit :: "int \<Rightarrow> char" where
  "number_to_digit i = char_of (nat ((i + 48) mod 256))"

definition digit_to_number :: "char \<Rightarrow> int" where
  "digit_to_number c = (if byte_of c < 128 then int (byte_of c) else int (byte_of c) - 256) - 48"

definition is_digit :: "char \<Rightarrow> bool" where
  "is_digit c \<longleftrightarrow> 48 \<le> byte_of c \<and> byte_of c \<le> 57"

lemma digit_roundtrip: "is_digit c \<Longrightarrow> number_to_digit (digit_to_number c) = c"
  by (simp add: is_digit_def number_to_digit_def digit_to_number_def byte_of_def)

lemma number_roundtrip:
  "0 \<le> i \<Longrightarrow> i \<le> 9 \<Longrightarrow> is_digit (number_to_digit i) \<and> digit_to_number (number_to_digit i) = i"
  by (simp add: is_digit_def number_to_digit_def digit_to_number_def byte_of_def nat_less_iff) linarith

text \<open>\<open>cat2\<close> makes room for both texts and copies them into it.\<close>

definition cat2 :: "string \<Rightarrow> string \<Rightarrow> pqxx_error + string" where
  "cat2 x y =
     (let xs = length x; ys = length y; buf = replicate (xs + ys) (CHR 0x00) in
      and_then (copy_to buf 0 x) (\<lambda>buf. copy_to buf xs y))"

lemma cat2_text: "cat2 x y = Inr (x @ y)"
  by (simp add: cat2_def copy_to_within)

text \<open>\<open>binary_cast\<close>: of a container, and of a pointer and a size of any integral type.\<close>

definition binary_cast :: "string \<Rightarrow> string \<times> nat" where
  "binary_cast data = (data, length data)"

definition binary_cast_sized :: "bool \<Rightarrow> int_type \<Rightarrow> string \<Rightarrow> int \<Rightarrow> pqxx_error + string \<times> nat" where
  "binary_cast_sized have_cmp from data n =
     and_then (check_cast have_cmp from size_t n ''binary data size'') (\<lambda>n. Inr (data, nat n))"

lemma binary_cast_sized_iff:
  assumes "in_type from n" and "0 < bits from" and "bits from \<le> 64"
  shows "binary_cast_sized have_cmp from data n = Inr (data, nat n) \<longleftrightarrow> 0 \<le> n"
    and "0 \<le> n \<or> (\<exists>e. binary_cast_sized have_cmp from data n = Inl e)"
proof -
  have b: "0 < bits size_t" by (simp add: size_t_def)
  note c = check_cast_Inr [OF assms(1,2) b]
  have "(2 :: int) ^ (bits from - 1) \<le> 2 ^ 64" "(2 :: int) ^ bits from \<le> 2 ^ 64" using assms(3) by (intro power_increasing; simp)+
  with assms(1) have "n < 2 ^ 64" by (auto simp: in_type_def highest_def split: if_splits)
  then have "in_type size_t n \<longleftrightarrow> 0 \<le> n" by (auto simp: in_type_def lowest_def highest_def size_t_def)
  note t = this
  have "(binary_cast_sized have_cmp from data n = Inr (data, nat n) \<longleftrightarrow> 0 \<le> n) \<and> (0 \<le> n \<or> (\<exists>e. binary_cast_sized have_cmp from data n = Inl e))"
  proof (cases "check_cast have_cmp from size_t n ''binary data size''")
    case (Inl e)
    then have "\<not> 0 \<le> n" using c [of have_cmp "''binary data size''" n] t by auto
    with Inl show ?thesis by (simp add: binary_cast_sized_def)
  next
    case (Inr m)
    then have "0 \<le> n" "m = n" using c [of have_cmp "''binary data size''" m] t by auto
    with Inr show ?thesis by (simp add: binary_cast_sized_def)
  qed
  then show "binary_cast_sized have_cmp from data n = Inr (data, nat n) \<longleftrightarrow> 0 \<le> n"
    "0 \<le> n \<or> (\<exists>e. binary_cast_sized have_cmp from data n = Inl e)" by simp_all
qed

text \<open>
  \<open>error_string\<close>: \<open>strerror_r\<close> or \<open>strerror_s\<close> returns the text (which need not be in the buffer) or a code that
  says whether it has put the text into the buffer, depending on the platform.  The configuration says
  whether there is the one or the other; the macro tested for the latter is spelt differently from the one
  that configurations define.
\<close>

datatype strerror_result = Error_text string | Error_code int

definition error_string :: "bool \<Rightarrow> bool \<Rightarrow> (string \<Rightarrow> strerror_result \<times> string) \<Rightarrow> string \<Rightarrow> string" where
  "error_string have_sterror_s have_strerror_r strerror buffer =
     (if have_sterror_s \<or> have_strerror_r then
        (let (err_result, buffer) = strerror buffer in
         case err_result of
           Error_text s \<Rightarrow> s
         | Error_code code \<Rightarrow> (if code = 0 then c_str buffer else ''Compound errors.''))
      else ''(No error information available.)'')"

text \<open>A platform with \<open>strerror_s\<close> alone, which no configuration announces by the tested name, gets no text.\<close>

lemma error_string_of_strerror_s: "error_string False False strerror buffer = ''(No error information available.)''"
  by (simp add: error_string_def)

end
