(* ===== verification/Pqxx_Handles.thy ===== *)
theory Pqxx_Handles
  imports Pqxx_Views Pqxx_Large_Object Pqxx_Session
begin

text \<open>
  The parts of the database client's handles that are in its headers: identities of large objects
  (\<open>pqxx/largeobject.hxx\<close>), cursors (\<open>pqxx/cursor.hxx\<close>, \<open>pqxx/internal/sql_cursor.hxx\<close>), blobs (\<open>pqxx/blob.hxx\<close>),
  pipelines (\<open>pqxx/pipeline.hxx\<close>), the raw connection, and columns by name.  What talks to the server
  is compiled elsewhere and a parameter.
\<close>

section \<open>Large objects by identity\<close>

text \<open>A large object is its number, zero for none.\<close>

datatype large_object = Large_object (lo_id: nat)

definition no_large_object :: large_object where
  "no_large_object = Large_object 0"

definition lo_eq :: "large_object \<Rightarrow> large_object \<Rightarrow> bool" where
  "lo_eq a b \<longleftrightarrow> lo_id a = lo_id b"

definition lo_ne :: "large_object \<Rightarrow> large_object \<Rightarrow> bool" where
  "lo_ne a b \<longleftrightarrow> lo_id a \<noteq> lo_id b"

definition lo_le :: "large_object \<Rightarrow> large_object \<Rightarrow> bool" where
  "lo_le a b \<longleftrightarrow> lo_id a \<le> lo_id b"

definition lo_ge :: "large_object \<Rightarrow> large_object \<Rightarrow> bool" where
  "lo_ge a b \<longleftrightarrow> lo_id a \<ge> lo_id b"

definition lo_lt :: "large_object \<Rightarrow> large_object \<Rightarrow> bool" where
  "lo_lt a b \<longleftrightarrow> lo_id a < lo_id b"

definition lo_gt :: "large_object \<Rightarrow> large_object \<Rightarrow> bool" where
  "lo_gt a b \<longleftrightarrow> lo_id a > lo_id b"

text \<open>The comparisons make them a linear order, and the others are derived from its order.\<close>

instantiation large_object :: linorder
begin

definition less_eq_large_object :: "large_object \<Rightarrow> large_object \<Rightarrow> bool" where
  "less_eq_large_object = lo_le"

definition less_large_object :: "large_object \<Rightarrow> large_object \<Rightarrow> bool" where
  "less_large_object = lo_lt"

instance
  by intro_classes
    (auto simp: less_eq_large_object_def less_large_object_def lo_le_def lo_lt_def intro: large_object.expand)

end

lemma lo_comparisons:
  "lo_eq a b \<longleftrightarrow> a = b" "lo_ne a b \<longleftrightarrow> a \<noteq> b" "lo_ge a b \<longleftrightarrow> b \<le> a" "lo_gt a b \<longleftrightarrow> b < a"
  by (auto simp: lo_eq_def lo_ne_def lo_ge_def lo_gt_def less_eq_large_object_def less_large_object_def lo_le_def lo_lt_def
      intro: large_object.expand)

text \<open>The end of a stream for both directions.\<close>

definition close_lostream :: "'o lo_access \<Rightarrow> 'o lo_streambuf \<Rightarrow> 'o lo_streambuf \<times> pqxx_error list" where
  "close_lostream a sb =
     (case sync a sb of
        (Inl e, sb) \<Rightarrow> (sb, [e])
      | (Inr r, sb) \<Rightarrow> (case sync a sb of (Inl e, sb) \<Rightarrow> (sb, [e]) | (Inr r, sb) \<Rightarrow> (sb, [])))"

lemma close_lostream_as_output: "close_lostream a sb = close_olostream a sb"
  by (simp add: close_lostream_def close_olostream_def)

section \<open>Cursors\<close>

text \<open>
  The operations of an SQL cursor that are compiled elsewhere: fetching and moving by a number of rows, each
  with the displacement, closing, finding the size, and retrieving rows given the size.
\<close>

record 'c cursor_ops =
  fetch_rows :: "'c \<Rightarrow> int \<Rightarrow> pqxx_error + query_result \<times> int \<times> 'c"
  move_rows :: "'c \<Rightarrow> int \<Rightarrow> pqxx_error + int \<times> int \<times> 'c"
  close_cursor :: "'c \<Rightarrow> 'c"
  obtain_size :: "'c \<Rightarrow> pqxx_error + int \<times> 'c"
  retrieve_rows :: "'c \<Rightarrow> int \<Rightarrow> int \<Rightarrow> int \<Rightarrow> pqxx_error + query_result \<times> 'c"

definition cursor_all :: int where
  "cursor_all = 2 ^ 31 - 1 - 1"

definition cursor_next :: int where
  "cursor_next = 1"

definition cursor_prior :: int where
  "cursor_prior = - 1"

definition cursor_backward_all :: int where
  "cursor_backward_all = - (2 ^ 31) + 1"

definition sql_fetch :: "'c cursor_ops \<Rightarrow> 'c \<Rightarrow> int \<Rightarrow> pqxx_error + query_result \<times> 'c" where
  "sql_fetch ops c rows = and_then (fetch_rows ops c rows) (\<lambda>(r, d, c). Inr (r, c))"

definition sql_move :: "'c cursor_ops \<Rightarrow> 'c \<Rightarrow> int \<Rightarrow> pqxx_error + int \<times> 'c" where
  "sql_move ops c rows = and_then (move_rows ops c rows) (\<lambda>(n, d, c). Inr (n, c))"

text \<open>A stateless cursor adopts a cursor by moving it back to the start.\<close>

definition adopt_cursor :: "'c cursor_ops \<Rightarrow> 'c \<Rightarrow> pqxx_error + 'c" where
  "adopt_cursor ops c = and_then (sql_move ops c cursor_backward_all) (\<lambda>(n, c). Inr c)"

definition stateless_close :: "'c cursor_ops \<Rightarrow> 'c \<Rightarrow> 'c" where
  "stateless_close ops c = close_cursor ops c"

definition stateless_size :: "'c cursor_ops \<Rightarrow> 'c \<Rightarrow> pqxx_error + int \<times> 'c" where
  "stateless_size ops c = obtain_size ops c"

definition stateless_retrieve :: "'c cursor_ops \<Rightarrow> 'c \<Rightarrow> int \<Rightarrow> int \<Rightarrow> pqxx_error + query_result \<times> 'c" where
  "stateless_retrieve ops c begin_pos end_pos =
     and_then (stateless_size ops c) (\<lambda>(n, c). retrieve_rows ops c n begin_pos end_pos)"

text \<open>
  The server moves a cursor by as many rows as it is told, but not past the places before the first and after
  the last row.  An adopted cursor is before the first row wherever it was, for every result whose rows an
  \<open>int\<close> can count.
\<close>

lemma adopted_at_start:
  assumes "\<And>c n. \<exists>m d c'. move_rows ops c n = Inr (m, d, c') \<and> pos c' = max 0 (min (pos c + n) (rows + 1))"
    and "pos c \<le> rows + 1" and "0 \<le> rows" and "rows < 2 ^ 31 - 1"
  shows "\<exists>c'. adopt_cursor ops c = Inr c' \<and> pos c' = 0"
proof -
  from assms(1) obtain m d c' where c: "move_rows ops c cursor_backward_all = Inr (m, d, c')"
    "pos c' = max 0 (min (pos c + cursor_backward_all) (rows + 1))" by blast
  moreover have "pos c + cursor_backward_all \<le> 0" using assms(2,4) by (simp add: cursor_backward_all_def)
  ultimately show ?thesis by (simp add: adopt_cursor_def sql_move_def)
qed

text \<open>
  A stream of blocks of rows, and an iterator over it.  \<open>fetchblock\<close>, \<open>refresh\<close> and the comparisons \<open>eq\<close> and
  \<open>lt\<close> are compiled elsewhere.
\<close>

record 's icursorstream =
  ics_rest :: 's
  ics_stride :: int
  ics_done :: bool

definition icursor_ready :: "'s icursorstream \<Rightarrow> bool" where
  "icursor_ready s \<longleftrightarrow> \<not> ics_done s"

definition icursor_get ::
    "('s icursorstream \<Rightarrow> pqxx_error + query_result \<times> 's icursorstream) \<Rightarrow> 's icursorstream \<Rightarrow>
       pqxx_error + query_result \<times> 's icursorstream" where
  "icursor_get fetchblock s = fetchblock s"

definition icursor_deref :: "('i \<Rightarrow> pqxx_error + 'i) \<Rightarrow> ('i \<Rightarrow> query_result) \<Rightarrow> 'i \<Rightarrow> pqxx_error + query_result \<times> 'i" where
  "icursor_deref refresh here it = and_then (refresh it) (\<lambda>it. Inr (here it, it))"

definition icursor_ne :: "('i \<Rightarrow> 'i \<Rightarrow> bool) \<Rightarrow> 'i \<Rightarrow> 'i \<Rightarrow> bool" where
  "icursor_ne eq a b \<longleftrightarrow> \<not> eq a b"

definition icursor_gt :: "('i \<Rightarrow> 'i \<Rightarrow> bool) \<Rightarrow> 'i \<Rightarrow> 'i \<Rightarrow> bool" where
  "icursor_gt lt a b \<longleftrightarrow> lt b a"

definition icursor_le :: "('i \<Rightarrow> 'i \<Rightarrow> bool) \<Rightarrow> 'i \<Rightarrow> 'i \<Rightarrow> bool" where
  "icursor_le lt a b \<longleftrightarrow> \<not> icursor_gt lt a b"

definition icursor_ge :: "('i \<Rightarrow> 'i \<Rightarrow> bool) \<Rightarrow> 'i \<Rightarrow> 'i \<Rightarrow> bool" where
  "icursor_ge lt a b \<longleftrightarrow> \<not> lt a b"

text \<open>If the compiled comparison is that of positions, all of them are.\<close>

lemma icursor_by_position:
  assumes "\<And>a b. lt a b \<longleftrightarrow> (pos a :: int) < pos b"
  shows "icursor_gt lt a b \<longleftrightarrow> pos a > pos b" "icursor_le lt a b \<longleftrightarrow> pos a \<le> pos b" "icursor_ge lt a b \<longleftrightarrow> pos a \<ge> pos b"
  by (auto simp: icursor_gt_def icursor_le_def icursor_ge_def assms)

section \<open>Blobs\<close>

text \<open>
  \<open>raw_read\<close> puts the bytes it reads at the start of the buffer it is given, with the size of the buffer as the
  limit.  The result of \<open>read\<close> is the part of the buffer that has been filled; a count past the buffer would
  give a span that leaves it.
\<close>

definition blob_read :: "('b \<Rightarrow> nat \<Rightarrow> pqxx_error + string \<times> 'b) \<Rightarrow> 'b \<Rightarrow> string \<Rightarrow> pqxx_error + string \<times> string \<times> 'b" where
  "blob_read raw_read b buf =
     and_then (raw_read b (length buf)) (\<lambda>(data, b).
       and_then (copy_to buf 0 data) (\<lambda>buf. Inr (take (length data) buf, buf, b)))"

definition blob_write :: "('b \<Rightarrow> string \<Rightarrow> nat \<Rightarrow> pqxx_error + 'b) \<Rightarrow> 'b \<Rightarrow> string \<Rightarrow> pqxx_error + 'b" where
  "blob_write raw_write b data = raw_write b data (length data)"

lemma blob_read_filled:
  assumes "raw_read b (length buf) = Inr (data, b')" and "length data \<le> length buf"
  shows "blob_read raw_read b buf = Inr (data, data @ drop (length data) buf, b')"
  using assms by (simp add: blob_read_def copy_to_within)

section \<open>Pipelines\<close>

text \<open>
  The queries of a pipeline in the order of their numbers, each with its text and result; the range of those
  that have been issued, from its first to past its last number; and the number of the first query that
  failed.
\<close>

record 'r pipeline =
  m_queries :: "(int \<times> string \<times> 'r) list"
  m_issuedrange :: "int \<times> int"
  m_error :: int

definition qid_limit :: int where
  "qid_limit = 2 ^ 63 - 1"

definition have_pending :: "'r pipeline \<Rightarrow> bool" where
  "have_pending p \<longleftrightarrow> snd (m_issuedrange p) \<noteq> fst (m_issuedrange p)"

definition set_error_at :: "int \<Rightarrow> 'r pipeline \<Rightarrow> 'r pipeline" where
  "set_error_at qid p = (if qid < m_error p then p\<lparr>m_error := qid\<rparr> else p)"

definition pipeline_empty :: "'r pipeline \<Rightarrow> bool" where
  "pipeline_empty p \<longleftrightarrow> m_queries p = []"

text \<open>Retrieval by number, through the one by place, which is compiled elsewhere (\<open>None\<close> is the end).\<close>

definition retrieve_query ::
    "('r pipeline \<Rightarrow> (int \<times> string \<times> 'r) option \<Rightarrow> pqxx_error + (int \<times> 'r) \<times> 'r pipeline) \<Rightarrow> 'r pipeline \<Rightarrow> int \<Rightarrow>
       pqxx_error + 'r \<times> 'r pipeline" where
  "retrieve_query retrieve p qid =
     and_then (retrieve p (find (\<lambda>(n, q). n = qid) (m_queries p))) (\<lambda>(x, p). Inr (snd x, p))"

text \<open>After any number of failures the recorded one is the first in the order of the queries.\<close>

lemma first_error: "m_error (fold set_error_at qids p) = Min (insert (m_error p) (set qids))"
proof (induction qids arbitrary: p)
  case (Cons q qids)
  have "m_error (set_error_at q p) = min q (m_error p)" by (simp add: set_error_at_def)
  with Cons.IH [of "set_error_at q p"] show ?case by (cases "qids = []") (simp_all add: min.assoc insert_commute)
qed simp

lemma pipeline_failed:
  assumes "m_error p = qid_limit" and "\<forall>q \<in> set qids. q < qid_limit"
  shows "m_error (fold set_error_at qids p) = qid_limit \<longleftrightarrow> qids = []"
proof (cases qids)
  case (Cons q rest)
  then have "Min (insert (m_error p) (set qids)) \<le> q" by (intro Min_le) simp_all
  then have "m_error (fold set_error_at qids p) \<le> q" by (simp only: first_error)
  with assms(2) Cons show ?thesis by auto
qed (simp add: assms(1))

section \<open>Raw connections, escaping, columns by name\<close>

text \<open>A connection holds the pointer of libpq's connection, if it has not been released.\<close>

record raw_connection =
  m_conn :: "nat option"

definition seize_raw_connection :: "nat option \<Rightarrow> raw_connection" where
  "seize_raw_connection raw_conn = \<lparr>m_conn = raw_conn\<rparr>"

definition release_raw_connection :: "raw_connection \<Rightarrow> nat option \<times> raw_connection" where
  "release_raw_connection c = (m_conn c, c\<lparr>m_conn := None\<rparr>)"

lemma seize_release: "release_raw_connection (seize_raw_connection raw) = (raw, seize_raw_connection None)"
  by (simp add: release_raw_connection_def seize_raw_connection_def)

definition esc_raw_buffer :: "compiled \<Rightarrow> string \<Rightarrow> string \<Rightarrow> pqxx_error + string \<times> string" where
  "esc_raw_buffer c data buffer = (let (d, n) = binary_cast data in esc_binary_buffer c (take n d) buffer)"

lemma esc_raw_buffer_text:
  "compiled_ok c \<Longrightarrow> size_esc_bin (length data) \<le> length buffer \<Longrightarrow> \<exists>mem. esc_raw_buffer c data buffer = Inr (bin_text data, mem)"
  by (simp add: esc_raw_buffer_def binary_cast_def esc_binary_buffer_text)

text \<open>
  The properties of a column by its name, of a result and of a row: through its number, which is looked up by
  compiled code and can be an error.
\<close>

definition result_column_type :: "(string \<Rightarrow> pqxx_error + nat) \<Rightarrow> (nat \<Rightarrow> pqxx_error + nat) \<Rightarrow> string \<Rightarrow> pqxx_error + nat" where
  "result_column_type column_number column_type name = and_then (column_number name) column_type"

definition result_column_table :: "(string \<Rightarrow> pqxx_error + nat) \<Rightarrow> (nat \<Rightarrow> pqxx_error + nat) \<Rightarrow> string \<Rightarrow> pqxx_error + nat" where
  "result_column_table column_number column_table name = and_then (column_number name) column_table"

definition result_table_column :: "(string \<Rightarrow> pqxx_error + nat) \<Rightarrow> (nat \<Rightarrow> pqxx_error + nat) \<Rightarrow> string \<Rightarrow> pqxx_error + nat" where
  "result_table_column column_number table_column name = and_then (column_number name) table_column"

definition row_column_type :: "(string \<Rightarrow> pqxx_error + nat) \<Rightarrow> (nat \<Rightarrow> pqxx_error + nat) \<Rightarrow> string \<Rightarrow> pqxx_error + nat" where
  "row_column_type column_number column_type name = and_then (column_number name) column_type"

definition row_column_table :: "(string \<Rightarrow> pqxx_error + nat) \<Rightarrow> (nat \<Rightarrow> pqxx_error + nat) \<Rightarrow> string \<Rightarrow> pqxx_error + nat" where
  "row_column_table column_number column_table name = and_then (column_number name) column_table"

definition row_table_column :: "(string \<Rightarrow> pqxx_error + nat) \<Rightarrow> (nat \<Rightarrow> pqxx_error + nat) \<Rightarrow> string \<Rightarrow> pqxx_error + nat" where
  "row_table_column column_number table_column name = and_then (column_number name) table_column"

text \<open>A result by default, and one that has been cleared, which keeps its encoding.\<close>

definition default_result :: query_result where
  "default_result = \<lparr>cells = [], res_columns = 0, query_text = None, res_encoding = MONOBYTE\<rparr>"

definition result_clear :: "query_result \<Rightarrow> query_result" where
  "result_clear r = r\<lparr>cells := [], res_columns := 0, query_text := None\<rparr>"

lemma cleared_result: "res_size (result_clear r) = 0" "result_clear r = default_result\<lparr>res_encoding := res_encoding r\<rparr>"
  by (simp_all add: result_clear_def default_result_def res_size_def)

end
