(* ===== verification/Pqxx_Overloads.thy ===== *)
theory Pqxx_Overloads
  imports Pqxx_Handles Pqxx_Range Pqxx_Iterators Pqxx_Array_Access
begin

text \<open>
  The remaining overloads and alternatives in the database client's headers, with the function each of them
  comes down to: the alternatives of a bound (\<open>pqxx/range.hxx\<close>), the functions of a connection that take
  a \<open>zview\<close> (\<open>pqxx/connection.hxx\<close>), the older functions that execute statements
  (\<open>pqxx/transaction_base.hxx\<close>), the transaction classes, and conversions and sizes.
\<close>

section \<open>Alternatives of a bound\<close>

definition no_bound_down :: "'a \<Rightarrow> bool" where
  "no_bound_down value = True"

definition no_bound_up :: "'a \<Rightarrow> bool" where
  "no_bound_up value = True"

definition inclusive_down :: "'a::linorder \<Rightarrow> 'a \<Rightarrow> bool" where
  "inclusive_down m value \<longleftrightarrow> \<not> value < m"

definition inclusive_up :: "'a::linorder \<Rightarrow> 'a \<Rightarrow> bool" where
  "inclusive_up m value \<longleftrightarrow> \<not> m < value"

definition exclusive_down :: "'a::linorder \<Rightarrow> 'a \<Rightarrow> bool" where
  "exclusive_down m value \<longleftrightarrow> m < value"

definition exclusive_up :: "'a::linorder \<Rightarrow> 'a \<Rightarrow> bool" where
  "exclusive_up m value \<longleftrightarrow> value < m"

definition bound_ne :: "'a range_bound \<Rightarrow> 'a range_bound \<Rightarrow> bool" where
  "bound_ne a b \<longleftrightarrow> \<not> bound_eq a b"

definition range_ne :: "('a::linorder) range \<Rightarrow> 'a range \<Rightarrow> bool" where
  "range_ne a b \<longleftrightarrow> \<not> range_eq a b"

lemma bound_visits:
  "extends_down_to b value = (case b of No_bound \<Rightarrow> no_bound_down value | Inclusive_bound m \<Rightarrow> inclusive_down m value
    | Exclusive_bound m \<Rightarrow> exclusive_down m value)"
  "extends_up_to b value = (case b of No_bound \<Rightarrow> no_bound_up value | Inclusive_bound m \<Rightarrow> inclusive_up m value
    | Exclusive_bound m \<Rightarrow> exclusive_up m value)"
  by (cases b; simp add: no_bound_down_def no_bound_up_def inclusive_down_def inclusive_up_def exclusive_down_def exclusive_up_def)+

text \<open>Exactly the values beyond an inclusive lower bound are below an exclusive upper one, and vice versa.\<close>

lemma bounds_split: "inclusive_down m value \<noteq> exclusive_up m value" "exclusive_down m value \<noteq> inclusive_up m value"
  by (auto simp: inclusive_down_def exclusive_up_def exclusive_down_def inclusive_up_def)

section \<open>Connections: functions of C strings\<close>

text \<open>
  The functions below pass the pointer of a view to a compiled function, which reads a C string.  A parameter
  like \<open>prepare\<close> is that function, over the memory behind the pointer.
\<close>

definition connect_default :: "(string option \<Rightarrow> 'r) \<Rightarrow> 'r" where
  "connect_default init = init (Some [CHR 0x00])"

definition connect_options :: "(pqxx_error + unit) \<Rightarrow> (string option \<Rightarrow> pqxx_error + 'r) \<Rightarrow> string option \<Rightarrow> pqxx_error + 'r" where
  "connect_options check_version init options = and_then check_version (\<lambda>_. init options)"

definition connect_zview :: "(pqxx_error + unit) \<Rightarrow> (string option \<Rightarrow> pqxx_error + 'r) \<Rightarrow> zview \<Rightarrow> pqxx_error + 'r" where
  "connect_zview check_version init options = connect_options check_version init (zview_pointer options)"

text \<open>The destructor drops an exception of \<open>close\<close>.\<close>

definition end_connection :: "('c \<Rightarrow> (pqxx_error + unit) \<times> 'c) \<Rightarrow> 'c \<Rightarrow> 'c" where
  "end_connection close c = (case close c of (Inl e, c) \<Rightarrow> c | (Inr u, c) \<Rightarrow> c)"

definition set_client_encoding :: "(string option \<Rightarrow> 'r) \<Rightarrow> zview \<Rightarrow> 'r" where
  "set_client_encoding set_encoding encoding = set_encoding (zview_pointer encoding)"

definition encrypt_password ::
    "(string option \<Rightarrow> string option \<Rightarrow> string option \<Rightarrow> 'r) \<Rightarrow> zview \<Rightarrow> zview \<Rightarrow> zview \<Rightarrow> 'r" where
  "encrypt_password encrypt user password algorithm =
     encrypt (zview_pointer user) (zview_pointer password) (zview_pointer algorithm)"

definition prepare_named :: "(string option \<Rightarrow> string option \<Rightarrow> 'r) \<Rightarrow> zview \<Rightarrow> zview \<Rightarrow> 'r" where
  "prepare_named prepare name statement = prepare (zview_pointer name) (zview_pointer statement)"

definition prepare_nameless :: "(string option \<Rightarrow> 'r) \<Rightarrow> zview \<Rightarrow> 'r" where
  "prepare_nameless prepare statement = prepare (zview_pointer statement)"

definition unesc_raw :: "(string option \<Rightarrow> 'r) \<Rightarrow> zview \<Rightarrow> 'r" where
  "unesc_raw unesc text = unesc (zview_pointer text)"

text \<open>Escaping of a C string, of a text with a length, and of binary data.\<close>

definition esc_c_string :: "(string \<Rightarrow> 'r) \<Rightarrow> string option \<Rightarrow> pqxx_error + 'r" where
  "esc_c_string esc_text p = and_then (zview_c_string p) (\<lambda>z. Inr (esc_text (zview_text z)))"

definition esc_sized :: "(string \<Rightarrow> 'r) \<Rightarrow> string \<Rightarrow> nat \<Rightarrow> pqxx_error + 'r" where
  "esc_sized esc_text memory maxlen =
     (if length memory < maxlen then Inl (read_out_of_bounds (length memory)) else Inr (esc_text (take maxlen memory)))"

definition esc_raw_data :: "(string \<Rightarrow> 'r) \<Rightarrow> string \<Rightarrow> 'r" where
  "esc_raw_data esc_bytes data = esc_bytes data"

definition esc_data :: "(string \<Rightarrow> 'r) \<Rightarrow> string \<Rightarrow> 'r" where
  "esc_data esc_bytes data = esc_raw_data esc_bytes data"

definition quote_raw_data :: "(string \<Rightarrow> 'r) \<Rightarrow> string \<Rightarrow> 'r" where
  "quote_raw_data quote_raw data = quote_raw data"

text \<open>
  A function of C strings gets the text of a view up to the first zero: all of it, or less than the view holds.
\<close>

lemma view_up_to_zero:
  assumes "terminated z"
  shows "\<exists>memory. zview_pointer z = Some memory \<and> c_str memory = c_str (zview_text z)"
proof -
  from assms obtain memory where m: "z_memory z = Some memory" "z_len z < length memory" "memory ! z_len z = CHR 0x00"
    by (auto simp: terminated_def)
  let ?t = "take (z_len z) memory" and ?r = "drop (Suc (z_len z)) memory"
  have split: "memory = ?t @ CHR 0x00 # ?r" using m(2,3) id_take_nth_drop by metis
  have "c_str (?t @ CHR 0x00 # ?r) = c_str ?t"
  proof (cases "CHR 0x00 \<in> set ?t")
    case True
    then show ?thesis unfolding c_str_def by (subst takeWhile_append1) auto
  next
    case False
    then have "c_str (?t @ CHR 0x00 # ?r) = ?t" unfolding c_str_def by (subst takeWhile_append2) auto
    with False show ?thesis by (simp add: c_str_id)
  qed
  with split m(1) show ?thesis by (simp add: zview_pointer_def zview_text_def)
qed

lemma prepare_named_texts:
  assumes "\<And>n s. prepare (Some n) (Some s) = run (c_str n) (c_str s)" and "terminated name" and "terminated statement"
  shows "prepare_named prepare name statement = run (c_str (zview_text name)) (c_str (zview_text statement))"
  using view_up_to_zero [OF assms(2)] view_up_to_zero [OF assms(3)] by (auto simp: prepare_named_def assms(1))

lemma esc_c_string_text: "CHR 0x00 \<in> set memory \<Longrightarrow> esc_c_string esc_text (Some memory) = Inr (esc_text (c_str memory))"
  using zview_c_string_ok(2) [of "Some memory"] by (auto simp: esc_c_string_def zview_c_string_def)

section \<open>Executing statements\<close>

text \<open>
  \<open>run\<close> executes a statement, with a description for error messages.  The older functions check the number of
  rows.
\<close>

definition exec_text :: "(string \<Rightarrow> string \<Rightarrow> pqxx_error + query_result) \<Rightarrow> string \<Rightarrow> pqxx_error + query_result" where
  "exec_text run query = run query []"

definition exec_stream :: "(string \<Rightarrow> string \<Rightarrow> pqxx_error + query_result) \<Rightarrow> string \<Rightarrow> string \<Rightarrow> pqxx_error + query_result" where
  "exec_stream run contents desc = run contents desc"

definition exec0_desc :: "(string \<Rightarrow> string \<Rightarrow> pqxx_error + query_result) \<Rightarrow> string \<Rightarrow> string \<Rightarrow> pqxx_error + query_result" where
  "exec0_desc run query desc = and_then (run query desc) no_rows"

definition exec1_desc ::
    "(query_result \<Rightarrow> pqxx_error + res_row) \<Rightarrow> (string \<Rightarrow> string \<Rightarrow> pqxx_error + query_result) \<Rightarrow> string \<Rightarrow> string \<Rightarrow>
       pqxx_error + res_row" where
  "exec1_desc one_row run query desc = and_then (run query desc) one_row"

definition query_value_desc ::
    "(query_result \<Rightarrow> pqxx_error + res_field) \<Rightarrow> 'v field_type \<Rightarrow> (string \<Rightarrow> string \<Rightarrow> pqxx_error + query_result) \<Rightarrow>
       string \<Rightarrow> string \<Rightarrow> pqxx_error + 'v" where
  "query_value_desc one_field ft run query desc = and_then (and_then (run query desc) one_field) (as_value ft)"

text \<open>Statements with parameters and prepared statements.\<close>

definition exec_with_params :: "executor \<Rightarrow> string \<Rightarrow> string option list \<Rightarrow> pqxx_error + query_result" where
  "exec_with_params run query parms = run query parms"

definition exec_prepped_only :: "executor \<Rightarrow> string \<Rightarrow> pqxx_error + query_result" where
  "exec_prepped_only run statement = run statement []"

definition exec_prepped :: "executor \<Rightarrow> string \<Rightarrow> string option list \<Rightarrow> pqxx_error + query_result" where
  "exec_prepped run statement parms = run statement parms"

text \<open>Without a description the functions are those that take none.\<close>

lemma exec_without_desc:
  "exec0_desc run query [] = exec0 (\<lambda>q ps. exec_text run q) query"
  "exec1_desc one_row run query [] = exec1 one_row (\<lambda>q ps. exec_text run q) query"
  by (simp_all add: exec0_desc_def exec0_def exec1_desc_def exec1_def exec_text_def)

lemma exec_prepared_prepped:
  "exec_prepared run tn statement args = and_then (new_params tn args) (exec_prepped run statement)"
  "exec_prepared run tn statement [] = exec_prepped_only run statement"
proof -
  have "exec_prepped run statement = run statement" by (simp add: fun_eq_iff exec_prepped_def)
  then show "exec_prepared run tn statement args = and_then (new_params tn args) (exec_prepped run statement)"
    "exec_prepared run tn statement [] = exec_prepped_only run statement"
    by (simp_all add: exec_prepared_def exec_prepped_only_def new_params_def)
qed

section \<open>Transaction classes\<close>

text \<open>
  A transaction begins with the command of its level and policy, a robust one of its level; an error handler
  that is quiet stops the others.  The commit of a nontransaction does nothing.
\<close>

definition transaction_begin :: "isolation_level \<Rightarrow> write_policy \<Rightarrow> string" where
  "transaction_begin isolation policy = begin_cmd isolation policy"

definition robust_begin :: "isolation_level \<Rightarrow> string" where
  "robust_begin isolation = begin_cmd isolation Read_write"

definition nontransaction_commit :: "'w \<Rightarrow> 'w" where
  "nontransaction_commit w = w"

definition quiet_errorhandler :: "string \<Rightarrow> bool" where
  "quiet_errorhandler msg = False"

lemma robust_begin_transaction: "robust_begin i = transaction_begin j p \<longleftrightarrow> i = j \<and> p = Read_write"
  by (auto simp: robust_begin_def transaction_begin_def begin_cmd_inj)

section \<open>Conversions, sizes, iterators\<close>

text \<open>\<open>from_string\<close>, with the result returned or put into a variable, which an error leaves as it is.\<close>

definition from_string_of :: "'v traits \<Rightarrow> string \<Rightarrow> pqxx_error + 'v" where
  "from_string_of T s = (case t_parse T of None \<Rightarrow> Inl no_return | Some parse \<Rightarrow> parse s)"

definition from_string_view :: "string \<Rightarrow> pqxx_error + string" where
  "from_string_view s = Inr s"

definition from_string_into :: "'v traits \<Rightarrow> string \<Rightarrow> 'v \<Rightarrow> pqxx_error option \<times> 'v" where
  "from_string_into T s value = (case from_string_of T s of Inl e \<Rightarrow> (Some e, value) | Inr v \<Rightarrow> (None, v))"

definition null_of :: "'v traits \<Rightarrow> 'v \<Rightarrow> bool" where
  "null_of T value = t_null T value"

definition no_null_is_null :: "'v \<Rightarrow> bool" where
  "no_null_is_null value = False"

context reading
begin

lemma from_string_into_text: "ok v \<Longrightarrow> from_string_into T (shown v) old = (None, v)"
  by (simp add: from_string_into_def from_string_of_def parser parses_back)

end

text \<open>\<open>ssize\<close> is the size as a signed integer of the same width.\<close>

definition ssize_of :: "nat \<Rightarrow> int" where
  "ssize_of n = (int n + 2 ^ 63) mod 2 ^ 64 - 2 ^ 63"

definition params_size :: "string option list \<Rightarrow> nat" where
  "params_size ps = length ps"

definition params_ssize :: "string option list \<Rightarrow> int" where
  "params_ssize ps = ssize_of (length ps)"

lemma ssize_of_size: "n < 2 ^ 63 \<Longrightarrow> ssize_of n = int n"
  by (simp add: ssize_of_def)

lemma ssize_of_large:
  assumes "2 ^ 63 \<le> n" and "n < 2 ^ 64"
  shows "ssize_of n < 0"
proof -
  have "(int n + 2 ^ 63) mod 2 ^ 64 = (int n + 2 ^ 63 - 2 ^ 64) mod 2 ^ 64" by (simp only: minus_mod_self2)
  also have "\<dots> = int n + 2 ^ 63 - 2 ^ 64" using assms by (intro mod_pos_pos_trivial) simp_all
  finally show ?thesis using assms(2) by (simp add: ssize_of_def)
qed

definition ph_get :: "placeholders \<Rightarrow> string" where
  "ph_get p = take (m_len p) (m_buf p)"

definition ph_count :: "placeholders \<Rightarrow> nat" where
  "ph_count p = m_current p"

text \<open>A list from a range of iterators and from a container, each item as it is.\<close>

definition separated_range :: "string \<Rightarrow> string \<Rightarrow> sql_value list \<Rightarrow> pqxx_error + string" where
  "separated_range tn sep vs = separated_list tn sep (map (\<lambda>v. v) vs)"

definition separated_container :: "string \<Rightarrow> string \<Rightarrow> sql_value list \<Rightarrow> pqxx_error + string" where
  "separated_container tn sep vs = separated_range tn sep vs"

lemma separated_container_list: "separated_container = separated_list"
  by (simp add: separated_container_def separated_range_def fun_eq_iff)

text \<open>A stream from a table with a range of columns, which are joined without quoting; and whether it has ended.\<close>

definition stream_columns :: "string \<Rightarrow> string \<Rightarrow> sql_value list \<Rightarrow> pqxx_error + string \<times> string" where
  "stream_columns tn table columns = and_then (separated_range tn '','' columns) (\<lambda>c. Inr (table, c))"

definition stream_from_open :: "stream_from \<Rightarrow> bool" where
  "stream_from_open st \<longleftrightarrow> \<not> m_finished st"

definition stream_from_finished :: "stream_from \<Rightarrow> bool" where
  "stream_from_finished st \<longleftrightarrow> m_finished st"

text \<open>An array from a text and a connection, whose encoding decides about its parser; and its sizes.\<close>

definition array_from_connection ::
    "(int \<Rightarrow> pqxx_error + encoding_group) \<Rightarrow> pqxx_error + int \<Rightarrow> 'v field_type \<Rightarrow> nat \<Rightarrow> char \<Rightarrow> string \<Rightarrow> pqxx_error + 'v sql_array" where
  "array_from_connection enc_group encoding_id ft dims sep data =
     and_then encoding_id (\<lambda>i. and_then (enc_group i) (\<lambda>enc. new_array enc ft dims sep data))"

definition array_sizes :: "'v sql_array \<Rightarrow> nat list" where
  "array_sizes a = sizes a"

lemma array_from_connection_Inr:
  "encoding_id = Inr i \<Longrightarrow> enc_group i = Inr enc \<Longrightarrow>
    array_from_connection enc_group encoding_id ft dims sep data = parse_array enc ft dims sep data"
  by (simp add: array_from_connection_def new_array_parses)

text \<open>The room for a date: year, month, day with hyphens, an era and a zero.\<close>

definition date_size :: nat where
  "date_size = 5 + 1 + 2 + 1 + 2 + length '' BC'' + 1"

lemma date_fits:
  assumes "length year \<le> 5" and "length month \<le> 2" and "length day \<le> 2"
  shows "length (year @ ''-'' @ month @ ''-'' @ day @ '' BC'') + 1 \<le> date_size"
  using assms by (simp add: date_size_def)

text \<open>Adding with the number on the left.\<close>

definition col_left_plus :: "int \<Rightarrow> col_iter \<Rightarrow> col_iter" where
  "col_left_plus n i = col_plus i n"

definition row_left_rplus :: "(row_iter \<Rightarrow> row_iter) \<Rightarrow> int \<Rightarrow> row_iter \<Rightarrow> row_iter" where
  "row_left_rplus base n i = row_reverse (row_minus (base i) n)"

lemma row_left_rplus_right: "row_left_rplus base n i = row_rplus base i n"
  by (simp add: row_left_rplus_def row_rplus_def)

text \<open>Results, rows and fields: numbers, inequality, a row as a tuple, and a field put into a variable.\<close>

definition result_ne :: "('r \<Rightarrow> 'r \<Rightarrow> bool) \<Rightarrow> 'r \<Rightarrow> 'r \<Rightarrow> bool" where
  "result_ne eq a b \<longleftrightarrow> \<not> eq a b"

definition slice_ne :: "('r \<Rightarrow> 'r \<Rightarrow> bool) \<Rightarrow> 'r \<Rightarrow> 'r \<Rightarrow> bool" where
  "slice_ne eq a b \<longleftrightarrow> \<not> eq a b"

definition field_ne :: "('r \<Rightarrow> 'r \<Rightarrow> bool) \<Rightarrow> 'r \<Rightarrow> 'r \<Rightarrow> bool" where
  "field_ne eq a b \<longleftrightarrow> \<not> eq a b"

definition row_num :: "row_iter \<Rightarrow> int" where
  "row_num i = rownumber i"

definition field_num :: "res_field \<Rightarrow> nat" where
  "field_num f = field_col f"

definition new_field :: "query_result \<Rightarrow> nat \<Rightarrow> nat \<Rightarrow> res_field" where
  "new_field r row col = \<lparr>field_home = r, field_row = row, field_col = col\<rparr>"

definition row_as_tuple :: "nat list \<Rightarrow> 'v field_type list \<Rightarrow> res_row \<Rightarrow> pqxx_error + 'v list" where
  "row_as_tuple order fts r = get_tuple order fts r"

text \<open>A row of the right size is the same tuple with and without the check of its size.\<close>

lemma row_as_tuple_checked: "check_size (length fts) r = Inr u \<Longrightarrow> row_as order fts r = row_as_tuple order fts r"
  by (simp add: row_as_def row_as_tuple_def)

end
