(* ===== verification/Api_Enums.thy ===== *)
theory Api_Enums
  imports CS_Prelude
begin

unbundle bit_operations_syntax

text \<open>
  Enumerations and flags of the interfaces: of events (\<open>inc/esl.h\<close>, \<open>inc/esl_event.h\<close>) and of the database client
  (\<open>pqxx/connection.hxx\<close>, \<open>pqxx/cursor.hxx\<close>), each with the integers that its enumerators are.
\<close>

section \<open>Events\<close>

datatype esl_poll_t = ESL_POLL_READ | ESL_POLL_WRITE | ESL_POLL_ERROR

fun esl_poll_code :: "esl_poll_t \<Rightarrow> 32 word" where
  "esl_poll_code ESL_POLL_READ = push_bit 0 1"
| "esl_poll_code ESL_POLL_WRITE = push_bit 1 1"
| "esl_poll_code ESL_POLL_ERROR = push_bit 2 1"

datatype esl_event_type_t = ESL_EVENT_TYPE_PLAIN | ESL_EVENT_TYPE_XML | ESL_EVENT_TYPE_JSON

fun esl_event_type_code :: "esl_event_type_t \<Rightarrow> nat" where
  "esl_event_type_code ESL_EVENT_TYPE_PLAIN = 0"
| "esl_event_type_code ESL_EVENT_TYPE_XML = 1"
| "esl_event_type_code ESL_EVENT_TYPE_JSON = 2"

datatype esl_stack_t = ESL_STACK_BOTTOM | ESL_STACK_TOP | ESL_STACK_PUSH | ESL_STACK_UNSHIFT

fun esl_stack_code :: "esl_stack_t \<Rightarrow> nat" where
  "esl_stack_code ESL_STACK_BOTTOM = 0"
| "esl_stack_code ESL_STACK_TOP = 1"
| "esl_stack_code ESL_STACK_PUSH = 2"
| "esl_stack_code ESL_STACK_UNSHIFT = 3"

datatype esl_priority_t = ESL_PRIORITY_NORMAL | ESL_PRIORITY_LOW | ESL_PRIORITY_HIGH

fun esl_priority_code :: "esl_priority_t \<Rightarrow> nat" where
  "esl_priority_code ESL_PRIORITY_NORMAL = 0"
| "esl_priority_code ESL_PRIORITY_LOW = 1"
| "esl_priority_code ESL_PRIORITY_HIGH = 2"

fun esl_bool_code :: "bool \<Rightarrow> nat" where
  "esl_bool_code True = 1"
| "esl_bool_code False = 0"

definition ESL_EF_UNIQ_HEADERS :: "32 word" where
  "ESL_EF_UNIQ_HEADERS = push_bit 0 1"

text \<open>The macros for the flags of an object, which are an \<open>int\<close>; a test gives the bits that are set.\<close>

definition esl_test_flag :: "32 word \<Rightarrow> 32 word \<Rightarrow> 32 word" where
  "esl_test_flag flags flag = flags AND flag"

definition esl_set_flag :: "32 word \<Rightarrow> 32 word \<Rightarrow> 32 word" where
  "esl_set_flag flags flag = flags OR flag"

definition esl_clear_flag :: "32 word \<Rightarrow> 32 word \<Rightarrow> 32 word" where
  "esl_clear_flag flags flag = flags AND NOT flag"

text \<open>
  The test does not put its argument into parentheses: with two flags as \<open>a | b\<close> the operators of C group it as
  follows.
\<close>

definition esl_test_either :: "32 word \<Rightarrow> 32 word \<Rightarrow> 32 word \<Rightarrow> 32 word" where
  "esl_test_either flags a b = (flags AND a) OR b"

lemma flag_laws:
  "esl_test_flag (esl_set_flag flags f) f = f"
  "esl_test_flag (esl_clear_flag flags f) f = 0"
  by (rule bit_word_eqI; simp add: esl_test_flag_def esl_set_flag_def esl_clear_flag_def bit_simps; blast)+

lemma flag_others:
  assumes "f AND g = 0"
  shows "esl_test_flag (esl_set_flag flags f) g = esl_test_flag flags g"
    and "esl_test_flag (esl_clear_flag flags f) g = esl_test_flag flags g"
proof -
  have "\<not> (bit f n \<and> bit g n)" for n using arg_cong [OF assms, of "\<lambda>w. bit w n"] by (simp add: bit_and_iff)
  note apart = this
  show "esl_test_flag (esl_set_flag flags f) g = esl_test_flag flags g"
    by (rule bit_word_eqI) (use apart in \<open>auto simp: esl_test_flag_def esl_set_flag_def bit_simps\<close>)
  show "esl_test_flag (esl_clear_flag flags f) g = esl_test_flag flags g"
    by (rule bit_word_eqI) (use apart in \<open>auto simp: esl_test_flag_def esl_clear_flag_def bit_simps\<close>)
qed

lemma either_always_set: "b \<noteq> 0 \<Longrightarrow> esl_test_either flags a b \<noteq> 0"
proof -
  assume "b \<noteq> 0"
  then obtain n where "bit b n" using bit_eq_iff [of b 0] by auto
  then have "bit (esl_test_either flags a b) n" by (simp add: esl_test_either_def bit_or_iff)
  then show ?thesis by auto
qed

lemma poll_flags_apart: "esl_poll_code p AND esl_poll_code q = (if p = q then esl_poll_code p else 0)"
  by (cases p; cases q) simp_all

section \<open>Database client\<close>

datatype skip_init = Skip_nothing | Skip_openssl | Skip_crypto

fun skip_init_code :: "skip_init \<Rightarrow> nat" where
  "skip_init_code Skip_nothing = 0"
| "skip_init_code Skip_openssl = 1"
| "skip_init_code Skip_crypto = 2"

text \<open>The flags that are given to the compiled function; there is at least one.\<close>

fun skip_init_ssl :: "skip_init list \<Rightarrow> 32 word" where
  "skip_init_ssl [] = 0"
| "skip_init_ssl (s # ss) = push_bit (skip_init_code s) 1 OR skip_init_ssl ss"

lemma skip_init_ssl_bit: "bit (skip_init_ssl ss) (skip_init_code s) \<longleftrightarrow> s \<in> set ss"
proof (induction ss)
  case (Cons t ss)
  have "bit (push_bit (skip_init_code t) (1 :: 32 word)) (skip_init_code s) \<longleftrightarrow> s = t"
    by (cases s; cases t) (simp_all add: bit_simps)
  with Cons.IH show ?case by (auto simp: bit_or_iff)
qed simp

lemma skip_init_ssl_set: "set ss = set ts \<Longrightarrow> skip_init_ssl ss = skip_init_ssl ts"
proof -
  have s: "skip_init_ssl ss = (if Skip_nothing \<in> set ss then 1 else 0) OR (if Skip_openssl \<in> set ss then 2 else 0)
      OR (if Skip_crypto \<in> set ss then 4 else 0)" for ss
  proof (induction ss)
    case (Cons s ss)
    then show ?case by (cases s) (simp_all add: or.left_commute or.assoc)
  qed simp
  show "set ss = set ts \<Longrightarrow> skip_init_ssl ss = skip_init_ssl ts" by (simp add: s)
qed

datatype error_verbosity = Terse | Normal | Verbose

fun verbosity_code :: "error_verbosity \<Rightarrow> int" where
  "verbosity_code Terse = 0"
| "verbosity_code Normal = 1"
| "verbosity_code Verbose = 2"

datatype access_policy = Forward_only | Random_access

datatype update_policy = Read_only_cursor | Update_cursor

datatype ownership_policy = Owned | Loose

text \<open>A stateless cursor is made from a query with random access, and with its own policies.\<close>

definition stateless_cursor ::
    "(string \<Rightarrow> string \<Rightarrow> access_policy \<Rightarrow> update_policy \<Rightarrow> ownership_policy \<Rightarrow> bool \<Rightarrow> 'c) \<Rightarrow> update_policy \<Rightarrow> ownership_policy \<Rightarrow>
       string \<Rightarrow> string \<Rightarrow> bool \<Rightarrow> 'c" where
  "stateless_cursor sql_cursor up op query cname hold = sql_cursor query cname Random_access up op hold"

end
