(* ===== verification/Spec2Isabelle.thy ===== *)
theory Spec2Isabelle
  imports Call_System Pqxx_Range Pqxx_Iterators Pqxx_Large_Object Pqxx_Stream_From Pqxx_Session
    Pqxx_Exceptions Pqxx_Field_Stream Pqxx_Array_Access Pqxx_Stream_To Pqxx_Binary_String
    Pqxx_Array_Nested Pqxx_Special_Types Pqxx_Handles Pqxx_Overloads Api_Enums
begin

text \<open>
  A verification development for callSrv, a call-distribution service that sits between a FreeSWITCH
  telephone switch, the agents' HTTP and websocket clients and a PostgreSQL database.

  \<^bold>\<open>The program.\<close>  One process (\<open>src/main.cpp\<close>) starts the global \<open>CallService\<close>
  (\<open>src/CallService.cpp\<close>), whose threads share its members without locks: an HTTP server
  (\<open>src/CRestfulServer.cpp\<close>) through which agents log in and out, change their status and request
  calls; a listener for outbound event sockets that runs one callback per incoming call and routes
  it to an agent; a thread that follows the switch's events; a websocket server
  (\<open>src/WebsocketServer.cpp\<close>, \<open>src/WebsocketSession.cpp\<close>) that broadcasts to its sessions; and the
  main loop, which posts queued call events to a URL.  The repository also carries the headers of
  its database client, libpqxx, which hold code of their own: the text encodings, the parsing and
  writing of composite values, arrays and ranges, the conversion of results, the streaming of
  queries, and some helpers.

  \<^bold>\<open>Theories: the service.\<close>
  \<^item> \<open>CS_Prelude\<close>: faults, sequencing of fallible operations, C strings, decimal output, list idioms,
    association by key, event runs and their invariants.
  \<^item> \<open>Esl_Model\<close>: the event-socket data of \<open>inc/esl.h\<close> and \<open>inc/esl_event.h\<close>; calls of the library
    and output are recorded as effects, in order.
  \<^item> \<open>Api_Enums\<close>: the other enumerations and flags of these headers, and of the database client's.
  \<^item> \<open>Agent_Model\<close>, \<open>Service_State\<close>: the agent and call-event classes, the members of \<open>CallService\<close>, the
    store behind the shared pointers.
  \<^item> \<open>Agent_Registry\<close>, \<open>Agent_Directory\<close>: the agent list, its invariant, its abstraction to a finite map
    from numbers to agents, and the operations of the handlers as an implementation of that map
    (locale \<open>agent_directory\<close>, interpreted on the list).
  \<^item> \<open>Call_Control\<close>: \<open>makecall\<close>, \<open>answercall\<close>, \<open>reset_agents\<close> and \<open>get_available_agent\<close>, the latter refined
    from a choice on the list of agents; what a stale reply pointer of the copied handle leads to is up to the library, and
    a write that overlaps another is a fault; service in turn, and starvation by an idle agent.
  \<^item> \<open>Rest_Server\<close>: the body parsers and every route of \<open>do_session\<close>; a run of sessions refines a run of
    operations on the directory, and sessions about different agents commute.
  \<^item> \<open>Acd\<close>, \<open>Event_Thread\<close>: the callback that distributes a call and the event loop, each as its
    prologue, its body per received event and its epilogue.
  \<^item> \<open>Websocket\<close>: both websocket classes with the completions of asynchronous operations as events, and
    writes that overlap on one stream, which its library does not allow.
  \<^item> \<open>Http_Client\<close>, \<open>Startup\<close>: the HTTP client and queue loop, start-up, the daemon.
  \<^item> \<open>Call_System\<close>: the process as a transition relation over all of these, its reachable states by
    rule induction, and the invariant they keep.

  \<^bold>\<open>Theories: the database client's headers\<close> (under \<open>libpqxx/include/pqxx\<close>).
  \<^item> \<open>Pqxx_Base\<close>, \<open>Pqxx_Util\<close>: errors, bytes, the integer comparisons and the checked cast.
  \<^item> \<open>Pqxx_Encodings\<close>: all glyph scanners of \<open>internal/encodings.hxx\<close> and the searches over them; the
    locales \<open>scanner\<close> and \<open>ascii_safe_scanner\<close> state what a search needs of a scanner and are
    interpreted for every group that has it.  The byte-wise search is equivalent to the search by
    glyphs.
  \<^item> \<open>Pqxx_Quoting\<close>, \<open>Pqxx_Composite\<close>: quoted and unquoted strings, composite values; the writers work on
    an explicit buffer in which a field is first converted at the end and then escaped into place.
  \<^item> \<open>Pqxx_Array\<close>, \<open>Pqxx_Array_Shape\<close>, \<open>Pqxx_Array_Access\<close>: parsing, writing and indexing of arrays; the parser's
    loop invariant, from which parsed arrays are rectangular; access without a check and at the ends.
  \<^item> \<open>Pqxx_Array_Any\<close>, \<open>Pqxx_Array_Nested\<close>: the array writer over any conversion of the elements.  The locale
    \<open>budgeted\<close> is what an array needs of its elements and gives in turn (\<open>array_budgeted\<close>), so it holds of
    containers of containers of any depth, whose text the parser with as many dimensions reads back.
  \<^item> \<open>Pqxx_Range\<close>: bounds, ranges, intersection, and their conversion to and from text.
  \<^item> \<open>Pqxx_Result\<close>: the checks of a result, the conversions of fields and rows, and the two loops over
    its rows (\<open>result.hxx\<close>, \<open>field.hxx\<close>, \<open>row.hxx\<close>, \<open>internal/result_iter.hxx\<close>).  A row's conversions are
    arguments of one call in one of the loops, so their order is a parameter; the loops agree for all.
  \<^item> \<open>Pqxx_Stream\<close>: \<open>internal/stream_query.hxx\<close> and its implementation: opening a stream, its iterator,
    the parser of a line with the row buffer it unescapes into, and closing.  The text format of the
    server's \<open>COPY\<close> is written down as a function on fields, which are lists of characters of the
    client's encoding, and the parser is proved to invert it, also where a character contains the byte
    of a backslash.  A stream's data are the list of what successive reads give; the loop waits at its end.
  \<^item> \<open>Pqxx_Client\<close>: the exception classes as a hierarchy, \<open>perform\<close> of \<open>transactor.hxx\<close> over it, the
    numbered placeholders of \<open>params.hxx\<close> (decimal counting in place), and \<open>separated_list\<close>.
  \<^item> \<open>Pqxx_Transfer\<close>: the row buffer of \<open>stream_to.hxx\<close>, the extraction of \<open>stream_from.hxx\<close>, quoting of
    values, statement parameters and the query functions of \<open>transaction_base.hxx\<close>; a row written by
    \<open>stream_to\<close> is read back by \<open>stream_query\<close>, given that the escaping (compiled elsewhere) is that of
    the text format.
  \<^item> \<open>Pqxx_Convert\<close>: the specialisations of \<open>string_traits\<close> in \<open>internal/conversions.hxx\<close> and \<open>strconv.hxx\<close>, as
    records of functions; the locale \<open>writing\<close> is the contract of \<open>size_buffer\<close> and \<open>into_buf\<close> that \<open>concat\<close>
    relies on, \<open>conversion\<close> adds \<open>to_buf\<close> (for buffers of the size that \<open>size_buffer\<close> computes; a smaller one may
    be refused although the text fits), under which \<open>to_string\<close>, \<open>into_string\<close> and \<open>to_buf\<close> of several values are
    proved, and \<open>reading\<close> adds parsing.  It is interpreted for the types whose conversions are in the headers, proved for
    numbers, truth values and binary data from the documented behaviour of the compiled part
    (\<open>compiled_ok\<close>), and kept by optionals, pointers, variants and enumerations.
  \<^item> \<open>Pqxx_Stream_To\<close>: the stream of \<open>stream_to.hxx\<close> as an object, whose move takes over the transaction's focus.
  \<^item> \<open>Pqxx_Binary_String\<close>: the class of \<open>binarystring.hxx\<close>, converted like the bytes it holds.
  \<^item> \<open>Pqxx_Views\<close>: views that end in a zero, bytes as characters, digits.
  \<^item> \<open>Pqxx_Handles\<close>: what the headers define of large objects as identities, cursors, blobs, pipelines, raw connections.
  \<^item> \<open>Pqxx_Overloads\<close>: the remaining overloads, each with the function it comes down to; what a function of
    C strings gets of a view.
  \<^item> \<open>Pqxx_Special_Types\<close>: the conversions of the always null types, of string streams and of ranges of bytes.
  \<^item> \<open>Pqxx_Session\<close>, \<open>Pqxx_Exceptions\<close>: the functions of connections and transactions that the headers define,
    the moves of a transaction's focus over an explicit store, and the exceptions for failed statements.
  \<^item> \<open>Pqxx_Iterators\<close>, \<open>Pqxx_Stream_From\<close>, \<open>Pqxx_Field_Stream\<close>: the iterators over rows and fields in both
    directions (locales \<open>random_access\<close> and \<open>reverse_access\<close>), over a \<open>stream_from\<close>, and streams on fields.
  \<^item> \<open>Pqxx_Large_Object\<close>: the stream buffer on a large object; a large object is its contents and a
    position, which the buffer with its unwritten text refines.

  \<^bold>\<open>What the properties show.\<close>  For the service: an invariant of every reachable state, refinement of
  the abstract directory by the request handlers, the exact choice of agents and its fairness, the
  result of every request, the effect of every event, and, as theorems about the code as it is, the
  inputs that crash it and the calls that are never routed.  For the headers: scanners make
  progress and stay inside the text, writing and parsing are inverse for composite values, arrays of
  any depth and ranges within the buffer sizes the code computes, and the cases in which those sizes are too small;
  both loops over a result see the same rows, a streamed query gives back the rows of the server and
  leaves its stream closed, a transaction is retried exactly after transient errors, and placeholders
  show the number they count; values are converted to text and back in the space computed for them,
  reverse iterators visit what iterators do in the opposite order, streams on large objects write and read
  in order, as long as the server's operations succeed, and otherwise report the error; a \<open>stream_to\<close>, handed
  on by move construction any number of times, keeps its transaction pointing at the stream that is alive.

  \<^bold>\<open>Conventions.\<close>  A \<open>std::string\<close> is a list of bytes, a \<open>const char*\<close> an optional one.  Undefined
  behaviour, exceptions that leave a thread and failed assertions are values of the sum types
  \<open>fault\<close> and \<open>pqxx_error\<close>, so no branch is dropped.  The platform is GNU/Linux on 64 bits with
  libstdc++ and glibc.  A handler runs atomically: the code takes no locks, so interleavings inside
  a handler (data races) are not covered.  Loops that need not end (\<open>acd_loop\<close>, \<open>event_thread\<close>,
  \<open>doService\<close>, \<open>connect_inbound\<close>) consume a list of inputs, one per iteration, and return a state that
  says whether they have ended; the loop over a \<open>stream_from\<close>, whose line parser is a parameter, is a
  partial function (\<open>stream_input_loop\<close>), proved to end when the parser comes to an end; every other loop
  is a total function with its termination proved, without fuel.

  \<^bold>\<open>Parameters.\<close>  Code that is not in the repository appears as an argument of the definitions that
  use it: the event-socket library (what a receive returns), RapidJSON (the view of a body),
  Boost.Beast (completions), libcurl (the transfer), the database connection (what \<open>exec\<close> and
  \<open>read_copy_line\<close> give), and for the headers the conversion of numbers, the escaping, the line parser of \<open>stream_from\<close>, the accessor of a
  large object (whose calls may fail), and the registration of a transaction's focus, which are compiled elsewhere.  \<open>get_glyph_scanner\<close> is declared in a
  header only; as its comment says, it selects the scanner of the group.

  \<^bold>\<open>Not modelled.\<close>  The declarations of the event-socket and curl headers beyond the fields in use; the
  parts of libpqxx that are declarations of compiled code or wrappers of it (opening and closing of
  connections and transactions, notifications, the traffic of pipelines, cursors and blobs, the line parser and the escaping of
  the older streams), and types without conversions; the deprecated array parser, whose code is
  compiled elsewhere; the test page; signals, \<open>umask\<close>, \<open>chdir\<close> and timing.
\<close>

end
